(* ===== verification/Prelude.thy ===== *)
theory Prelude
  imports Main "HOL-Library.Multiset"
begin

text \<open>
  Shared vocabulary of the development: Go error values and \<^verbatim>\<open>errors.Is\<close>, context errors,
  durations, decimal printing (\<^verbatim>\<open>strconv.Itoa\<close>, the \<^verbatim>\<open>%d\<close> verb), Go maps read as lists,
  fallible state-passing operations with their call logs, and labelled transition
  systems with an invariant locale and a measure locale that every concurrent component
  interprets on its own step function.
\<close>

named_theorems handler_defs \<open>definitions that unfold the run of a handler against a response writer\<close>


section \<open>Error values\<close>

text \<open>
  \<^verbatim>\<open>context.Canceled\<close> and \<^verbatim>\<open>context.DeadlineExceeded\<close>, the two values \<^verbatim>\<open>ctx.Err()\<close>
  can have besides nil. A context at a given moment is its \<^verbatim>\<open>Err()\<close>: None while it is live.
\<close>

datatype ctx_err = Canceled | DeadlineExceeded

type_synonym ctx = "ctx_err option"

text \<open>
  An error value. \<open>ErrNew\<close> is an \<^verbatim>\<open>errors.New\<close> created on the spot (only its text is
  observable), \<open>LibErr name text\<close> an error of a package outside the repository or a
  package-level sentinel, identified by its name, and \<open>Wrap p e\<close> is
  \<^verbatim>\<open>fmt.Errorf("p: %w", e)\<close>; \<open>Wrap2\<close> has two \<^verbatim>\<open>%w\<close> verbs.
\<close>

datatype err =
    ErrNew string
  | CtxErr ctx_err
  | LibErr string string
  | Wrap string err
  | Wrap2 string err string err

fun err_msg :: "err \<Rightarrow> string" where
  "err_msg (ErrNew m) = m"
| "err_msg (CtxErr Canceled) = ''context canceled''"
| "err_msg (CtxErr DeadlineExceeded) = ''context deadline exceeded''"
| "err_msg (LibErr n m) = m"
| "err_msg (Wrap p e) = p @ '': '' @ err_msg e"
| "err_msg (Wrap2 p e q f) = p @ '': '' @ err_msg e @ ''; '' @ q @ '': '' @ err_msg f"

text \<open>\<^verbatim>\<open>errors.Is\<close>: the target is somewhere in the chain of wrapped errors.\<close>

fun errors_is :: "err \<Rightarrow> err \<Rightarrow> bool" where
  "errors_is (Wrap p e) t = (Wrap p e = t \<or> errors_is e t)"
| "errors_is (Wrap2 p e q f) t = (Wrap2 p e q f = t \<or> errors_is e t \<or> errors_is f t)"
| "errors_is e t = (e = t)"

lemma errors_is_refl [simp]: "errors_is e e"
  by (cases e) auto

lemma errors_is_Wrap [intro]: "errors_is e t \<Longrightarrow> errors_is (Wrap p e) t"
  by simp

text \<open>The result of a Go function that returns \<^verbatim>\<open>(T, error)\<close>: \<open>Inl\<close> when the error is not nil.\<close>

type_synonym 'a res = "err + 'a"

fun wrap_res :: "string \<Rightarrow> 'a res \<Rightarrow> 'a res" where
  "wrap_res p (Inl e) = Inl (Wrap p e)"
| "wrap_res p (Inr x) = Inr x"

lemma wrap_res_Inr [simp]: "wrap_res p r = Inr x \<longleftrightarrow> r = Inr x"
  by (cases r) auto

lemma wrap_res_Inl: "wrap_res p r = Inl e \<longleftrightarrow> (\<exists>e'. r = Inl e' \<and> e = Wrap p e')"
  by (cases r) auto


section \<open>Durations\<close>

text \<open>\<^verbatim>\<open>time.Duration\<close> is an int64 count of nanoseconds, read here as an int.\<close>

type_synonym duration = int

definition Millisecond :: duration where "Millisecond = 1000000"
definition Second :: duration where "Second = 1000 * Millisecond"

definition is_int64 :: "int \<Rightarrow> bool" where
  "is_int64 x \<longleftrightarrow> - (2 ^ 63) \<le> x \<and> x < 2 ^ 63"


text \<open>The int of the 64-bit platforms: arithmetic wraps around.\<close>

definition wrap64 :: "int \<Rightarrow> int" where
  "wrap64 x = (x + 2 ^ 63) mod 2 ^ 64 - 2 ^ 63"

lemma wrap64_id [simp]: "is_int64 x \<Longrightarrow> wrap64 x = x"
  by (simp add: wrap64_def is_int64_def mod_pos_pos_trivial)


lemma wrap64_add [simp]: "wrap64 (wrap64 a + b) = wrap64 (a + b)"
  by (simp add: wrap64_def mod_simps algebra_simps)


section \<open>Decimal printing\<close>

fun show_nat :: "nat \<Rightarrow> string" where
  "show_nat n =
     (if n < 10 then [char_of (48 + n)] else show_nat (n div 10) @ [char_of (48 + n mod 10)])"

declare show_nat.simps [simp del]

definition itoa :: "int \<Rightarrow> string" where
  "itoa i = (if i < 0 then CHR ''-'' # show_nat (nat (- i)) else show_nat (nat i))"

text \<open>Reading the digits back, to show that printing loses nothing.\<close>

definition digits_val :: "string \<Rightarrow> nat" where
  "digits_val s = foldl (\<lambda>a c. 10 * a + (of_char c - 48)) 0 s"

lemma of_char_digit: "d < 10 \<Longrightarrow> (of_char (char_of (48 + d) :: char) :: nat) = 48 + d"
  by simp

lemma digits_val_snoc: "digits_val (s @ [c]) = 10 * digits_val s + (of_char c - 48)"
  by (simp add: digits_val_def)

lemma digits_val_show_nat [simp]: "digits_val (show_nat n) = n"
proof (induction n rule: show_nat.induct)
  case (1 n)
  show ?case
  proof (cases "n < 10")
    case True
    then show ?thesis
      by (subst show_nat.simps) (simp add: digits_val_def of_char_digit)
  next
    case False
    with 1 show ?thesis
      by (subst show_nat.simps) (simp add: digits_val_snoc of_char_digit)
  qed
qed

lemma show_nat_inject [simp]: "show_nat m = show_nat n \<longleftrightarrow> m = n"
  by (metis digits_val_show_nat)

lemma show_nat_not_Nil [simp]: "show_nat n \<noteq> []"
  by (subst show_nat.simps) simp


section \<open>Lists\<close>

text \<open>Per-goroutine states are kept in a list and updated at an index.\<close>

lemma count_list_update:
  assumes "i < length xs"
  shows "count_list (xs[i := a]) b + (if xs ! i = b then 1 else 0) =
         count_list xs b + (if a = b then 1 else 0)"
proof -
  have split: "xs = take i xs @ xs ! i # drop (Suc i) xs"
    using assms by (rule id_take_nth_drop)
  show ?thesis by (subst (3) split) (simp add: upd_conv_take_nth_drop assms)
qed

lemma count_list_less:
  assumes "i < length xs" and "xs ! i \<noteq> b"
  shows "count_list xs b < length xs"
  using count_list_update [OF assms(1), of b b] count_le_length [of "xs[i := b]" b] assms(2) by simp


lemma map_le_Some: "m \<subseteq>\<^sub>m n \<Longrightarrow> m k = Some v \<Longrightarrow> n k = Some v"
  by (force simp: map_le_def)


section \<open>Fallible operations on a world\<close>

text \<open>
  Code outside the repository (a dialer, a pool, a broker) is a parameter: an operation
  that reads and changes a world of an arbitrary type and may fail.
\<close>

type_synonym ('w, 'a) op = "'w \<Rightarrow> 'a res \<times> 'w"

text \<open>An operation that appends an entry to a call log carried beside the world.\<close>

definition logged :: "'l \<Rightarrow> ('w \<Rightarrow> 'a \<times> 'w) \<Rightarrow> 'w \<times> 'l list \<Rightarrow> 'a \<times> 'w \<times> 'l list" where
  "logged l f = (\<lambda>(w, ls). case f w of (r, w') \<Rightarrow> (r, w', ls @ [l]))"

lemma logged_apply [simp]:
  "logged l f (w, ls) = (fst (f w), snd (f w), ls @ [l])"
  by (simp add: logged_def split: prod.split)


section \<open>Labelled transition systems\<close>

text \<open>
  A concurrent component is a step function: the event names which enabled action the
  scheduler or the environment takes next, None says that the event is not enabled.
\<close>

fun lts_run :: "('s \<Rightarrow> 'e \<Rightarrow> 's option) \<Rightarrow> 's \<Rightarrow> 'e list \<Rightarrow> 's option" where
  "lts_run step s [] = Some s"
| "lts_run step s (e # es) = Option.bind (step s e) (\<lambda>t. lts_run step t es)"

lemma lts_run_append:
  "lts_run step s (es @ fs) = Option.bind (lts_run step s es) (\<lambda>t. lts_run step t fs)"
  by (induction es arbitrary: s) (auto split: Option.bind_splits)

lemma lts_run_Cons_Some:
  "lts_run step s (e # es) = Some u \<longleftrightarrow> (\<exists>t. step s e = Some t \<and> lts_run step t es = Some u)"
  by (auto split: Option.bind_splits)

text \<open>An inductive invariant of a step function holds after every run.\<close>

locale lts_invariant =
  fixes step :: "'s \<Rightarrow> 'e \<Rightarrow> 's option" and inv :: "'s \<Rightarrow> bool"
  assumes step_inv: "inv s \<Longrightarrow> step s e = Some t \<Longrightarrow> inv t"
begin

lemma run_inv: "inv s \<Longrightarrow> lts_run step s es = Some t \<Longrightarrow> inv t"
proof (induction es arbitrary: s)
  case Nil
  then show ?case by simp
next
  case (Cons e es)
  from Cons.prems(2) obtain u where "step s e = Some u" and u: "lts_run step u es = Some t"
    unfolding lts_run_Cons_Some by blast
  with Cons.prems(1) have "inv u" by (blast intro: step_inv)
  from Cons.IH [OF this u] show ?case .
qed

end

text \<open>
  A system whose (chosen) events all decrease a measure cannot run for ever: a run is at
  most as long as the measure of the state it starts in.
\<close>

locale lts_measure = lts_invariant +
  fixes msr :: "'s \<Rightarrow> nat" and ev_ok :: "'e \<Rightarrow> bool"
  assumes step_msr: "inv s \<Longrightarrow> ev_ok e \<Longrightarrow> step s e = Some t \<Longrightarrow> msr t < msr s"
begin

lemma run_length:
  "inv s \<Longrightarrow> list_all ev_ok es \<Longrightarrow> lts_run step s es = Some t \<Longrightarrow> length es + msr t \<le> msr s"
proof (induction es arbitrary: s)
  case Nil
  then show ?case by simp
next
  case (Cons e es)
  from Cons.prems(3) obtain u where su: "step s e = Some u" and u: "lts_run step u es = Some t"
    unfolding lts_run_Cons_Some by blast
  with Cons.prems(1) have "inv u" by (blast intro: step_inv)
  moreover from Cons.prems su have "msr u < msr s" by (auto intro: step_msr)
  moreover from Cons.prems(2) have "list_all ev_ok es" by simp
  ultimately show ?case using Cons.IH [of u] u by force
qed

end

text \<open>
  When the remaining events at least never raise the measure, it bounds how often the
  chosen events occur in any interleaving.
\<close>

locale lts_budget = lts_measure +
  assumes step_keep: "inv s \<Longrightarrow> \<not> ev_ok e \<Longrightarrow> step s e = Some t \<Longrightarrow> msr t \<le> msr s"
begin

lemma run_budget:
  "inv s \<Longrightarrow> lts_run step s es = Some t \<Longrightarrow> length (filter ev_ok es) + msr t \<le> msr s"
proof (induction es arbitrary: s)
  case Nil
  then show ?case by simp
next
  case (Cons e es)
  from Cons.prems(2) obtain u where su: "step s e = Some u" and u: "lts_run step u es = Some t"
    unfolding lts_run_Cons_Some by blast
  with Cons.prems(1) have iu: "inv u" by (blast intro: step_inv)
  have "(if ev_ok e then 1 else 0) + msr u \<le> msr s"
    using step_msr [OF Cons.prems(1) _ su] step_keep [OF Cons.prems(1) _ su] by auto
  with Cons.IH [OF iu u] show ?case by (cases "ev_ok e") auto
qed

end

text \<open>An invariant that also speaks about the events so far.\<close>

locale lts_history =
  fixes step :: "'s \<Rightarrow> 'e \<Rightarrow> 's option" and hist :: "'e list \<Rightarrow> 's \<Rightarrow> bool"
  assumes step_hist: "hist es s \<Longrightarrow> step s e = Some t \<Longrightarrow> hist (es @ [e]) t"
begin

lemma run_hist_from: "hist es s \<Longrightarrow> lts_run step s fs = Some t \<Longrightarrow> hist (es @ fs) t"
proof (induction fs arbitrary: es s)
  case Nil
  then show ?case by simp
next
  case (Cons e fs)
  from Cons.prems(2) obtain u where "step s e = Some u" and u: "lts_run step u fs = Some t"
    unfolding lts_run_Cons_Some by blast
  with Cons.prems(1) have "hist (es @ [e]) u" by (blast intro: step_hist)
  from Cons.IH [OF this u] show ?case by simp
qed

lemma run_hist: "hist [] s \<Longrightarrow> lts_run step s es = Some t \<Longrightarrow> hist es t"
  using run_hist_from [of "[]" s es t] by simp

end

end
