(* ===== verification/Retry.thy ===== *)
theory Retry
  imports Prelude
begin

text \<open>
  The retry helper of \<^verbatim>\<open>pkg/internal/retry/retry.go\<close>: the configuration, the float64
  arithmetic of the backoff growth, and the attempt loop \<open>Do\<close>. The code that is retried
  and the select between \<^verbatim>\<open>ctx.Done()\<close> and \<^verbatim>\<open>time.After\<close> are parameters acting on a world.
  The lemmas show which calls a run makes, how long it waits, and which error it returns.
\<close>


section \<open>Configuration\<close>

record Config =
  MaxAttempts :: int
  BackoffMin :: duration
  BackoffMax :: duration

definition DefaultConfig :: Config where
  "DefaultConfig =
     \<lparr>MaxAttempts = 10, BackoffMin = 500 * Millisecond, BackoffMax = 30 * Second\<rparr>"


section \<open>float64 arithmetic\<close>

text \<open>
  The growth step is \<^verbatim>\<open>time.Duration(float64(backoff)*backoffMultiplier)\<close>. A float64 has
  53 significant bits and rounds to nearest, ties to even. Converting an int64 gives an
  integer-valued float; its product with 1.5 is a multiple of one half, so it is kept as
  an integer number of halves. \<open>f64_exp\<close> is how many low bits a value of that size loses.
\<close>

fun f64_exp :: "nat \<Rightarrow> nat" where
  "f64_exp m = (if m < 2 ^ 53 then 0 else Suc (f64_exp (m div 2)))"

declare f64_exp.simps [simp del]

definition round_half_even :: "nat \<Rightarrow> nat \<Rightarrow> nat" where
  "round_half_even m d =
     (let q = m div d; r = m mod d in
      if 2 * r < d then q else if d < 2 * r then q + 1 else if even q then q else q + 1)"

definition f64_nat :: "nat \<Rightarrow> nat" where
  "f64_nat m = round_half_even m (2 ^ f64_exp m) * 2 ^ f64_exp m"

definition f64 :: "int \<Rightarrow> int" where
  "f64 x = (if x < 0 then - int (f64_nat (nat (- x))) else int (f64_nat (nat x)))"

text \<open>
  The product with 1.5 in halves, then the conversion back to int64, which truncates
  towards zero. The language leaves the conversion of a value outside int64 to the
  implementation: \<open>conv\<close> stands for what the platform does there.
\<close>

definition mul_backoff :: "(int \<Rightarrow> int) \<Rightarrow> duration \<Rightarrow> duration" where
  "mul_backoff conv b =
     (let h = f64 (3 * f64 b); t = sgn h * (\<bar>h\<bar> div 2)
      in if is_int64 t then t else conv t)"

definition next_backoff :: "(int \<Rightarrow> int) \<Rightarrow> Config \<Rightarrow> duration \<Rightarrow> duration" where
  "next_backoff conv cfg b = min (mul_backoff conv b) (BackoffMax cfg)"


section \<open>The attempt loop\<close>

definition canceled_err :: "int \<Rightarrow> ctx_err \<Rightarrow> err" where
  "canceled_err attempt e =
     Wrap (''retry: context canceled after '' @ itoa attempt @ '' attempts'') (CtxErr e)"

definition failed_err :: "int \<Rightarrow> err option \<Rightarrow> err" where
  "failed_err maxAttempts lastErr =
     (let p = ''retry: failed after '' @ itoa maxAttempts @ '' attempts''
      in case lastErr of
           None \<Rightarrow> ErrNew (p @ '': %!w(<nil>)'')
         | Some e \<Rightarrow> Wrap p e)"

text \<open>
  \<open>connect w\<close> is one call of the connect function and \<open>wait b w\<close> one select: Some e when
  \<^verbatim>\<open>ctx.Done()\<close> was taken, None when \<^verbatim>\<open>time.After(b)\<close> fired.
\<close>

function Do_loop ::
  "(int \<Rightarrow> int) \<Rightarrow> Config \<Rightarrow> ('w, 'a) op \<Rightarrow> (duration \<Rightarrow> 'w \<Rightarrow> ctx \<times> 'w) \<Rightarrow>
   int \<Rightarrow> int \<Rightarrow> duration \<Rightarrow> err option \<Rightarrow> ('w, 'a) op"
where
  "Do_loop conv cfg connect wait maxAttempts attempt backoff lastErr w =
     (if attempt \<le> maxAttempts then
        (case connect w of
           (Inr result, w1) \<Rightarrow> (Inr result, w1)
         | (Inl e, w1) \<Rightarrow>
             (if attempt = maxAttempts then (Inl (failed_err maxAttempts (Some e)), w1)
              else (case wait backoff w1 of
                      (Some c, w2) \<Rightarrow> (Inl (canceled_err attempt c), w2)
                    | (None, w2) \<Rightarrow>
                        Do_loop conv cfg connect wait maxAttempts (attempt + 1)
                          (next_backoff conv cfg backoff) (Some e) w2)))
      else (Inl (failed_err maxAttempts lastErr), w))"
  by pat_completeness auto
termination
  by (relation "measure (\<lambda>(conv, cfg, connect, wait, maxAttempts, attempt, rest).
        nat (maxAttempts + 1 - attempt))") auto

declare Do_loop.simps [simp del]

definition attempts :: "Config \<Rightarrow> int" where
  "attempts cfg = (if MaxAttempts cfg \<le> 0 then 1 else MaxAttempts cfg)"

definition Do ::
  "(int \<Rightarrow> int) \<Rightarrow> Config \<Rightarrow> ('w, 'a) op \<Rightarrow> (duration \<Rightarrow> 'w \<Rightarrow> ctx \<times> 'w) \<Rightarrow> ('w, 'a) op"
where
  "Do conv cfg connect wait w =
     Do_loop conv cfg connect wait (attempts cfg) 1 (BackoffMin cfg) None w"


section \<open>The backoff sequence\<close>

text \<open>\<open>backoff_at k\<close> is the value of the variable backoff at the k-th wait, counted from 0.\<close>

primrec backoff_at :: "(int \<Rightarrow> int) \<Rightarrow> Config \<Rightarrow> nat \<Rightarrow> duration" where
  "backoff_at conv cfg 0 = BackoffMin cfg"
| "backoff_at conv cfg (Suc k) = next_backoff conv cfg (backoff_at conv cfg k)"

lemma f64_nat_exact: "m < 2 ^ 53 \<Longrightarrow> f64_nat m = m"
  by (simp add: f64_nat_def round_half_even_def f64_exp.simps [of m])

lemma f64_exact: "0 \<le> x \<Longrightarrow> x < 2 ^ 53 \<Longrightarrow> f64 x = x"
  by (simp add: f64_def f64_nat_exact nat_less_iff)

text \<open>Below \<open>2 ^ 51\<close> nanoseconds (26 days) the floating-point detour is exact.\<close>

lemma mul_backoff_exact:
  assumes "0 \<le> b" and "b \<le> 2 ^ 51"
  shows "mul_backoff conv b = 3 * b div 2"
proof -
  have "f64 b = b" and "f64 (3 * b) = 3 * b"
    using assms by (auto intro: f64_exact)
  moreover have "is_int64 (3 * b div 2)"
    using assms by (auto simp: is_int64_def)
  moreover have "sgn (3 * b) * (\<bar>3 * b\<bar> div 2) = 3 * b div 2"
    using assms by (cases "b = 0") (auto simp: sgn_if)
  ultimately show ?thesis by (simp add: mul_backoff_def)
qed

text \<open>A configuration whose backoff window is sane and below 26 days.\<close>

definition sane :: "Config \<Rightarrow> bool" where
  "sane cfg \<longleftrightarrow> 0 \<le> BackoffMin cfg \<and> BackoffMin cfg \<le> BackoffMax cfg \<and> BackoffMax cfg \<le> 2 ^ 51"

lemma backoff_at_range:
  "sane cfg \<Longrightarrow> BackoffMin cfg \<le> backoff_at conv cfg k \<and> backoff_at conv cfg k \<le> BackoffMax cfg"
proof (induction k)
  case 0
  then show ?case by (simp add: sane_def)
next
  case (Suc k)
  let ?b = "backoff_at conv cfg k"
  from Suc have "BackoffMin cfg \<le> ?b" and "?b \<le> BackoffMax cfg" by auto
  with Suc.prems have "mul_backoff conv ?b = 3 * ?b div 2"
    by (intro mul_backoff_exact) (auto simp: sane_def)
  with Suc.prems \<open>BackoffMin cfg \<le> ?b\<close> show ?case
    by (auto simp: next_backoff_def sane_def)
qed

lemma backoff_at_Suc:
  assumes "sane cfg"
  shows "backoff_at conv cfg (Suc k) = min (3 * backoff_at conv cfg k div 2) (BackoffMax cfg)"
  using backoff_at_range [OF assms, of conv k] assms
  by (simp add: next_backoff_def sane_def mul_backoff_exact)

lemma backoff_at_mono:
  assumes "sane cfg"
  shows "backoff_at conv cfg k \<le> backoff_at conv cfg (Suc k)"
  using backoff_at_range [OF assms, of conv k] assms
  by (auto simp: backoff_at_Suc sane_def simp del: backoff_at.simps)


section \<open>The calls of a run\<close>

text \<open>
  What an observer sees of a run: attempts, and waits with their duration. \<open>schedule n\<close> is
  the reference: n rounds of one attempt and one wait of the backoff sequence.
\<close>

datatype call = Attempt | Waited duration

definition schedule :: "(int \<Rightarrow> int) \<Rightarrow> Config \<Rightarrow> nat \<Rightarrow> call list" where
  "schedule conv cfg n = concat (map (\<lambda>k. [Attempt, Waited (backoff_at conv cfg k)]) [0..<n])"

lemma schedule_0 [simp]: "schedule conv cfg 0 = []"
  by (simp add: schedule_def)

lemma schedule_Suc [simp]:
  "schedule conv cfg (Suc n) = schedule conv cfg n @ [Attempt, Waited (backoff_at conv cfg n)]"
  by (simp add: schedule_def)

definition observed ::
  "(int \<Rightarrow> int) \<Rightarrow> Config \<Rightarrow> ('w, 'a) op \<Rightarrow> (duration \<Rightarrow> 'w \<Rightarrow> ctx \<times> 'w) \<Rightarrow> 'w \<Rightarrow>
   'a res \<times> 'w \<times> call list"
where
  "observed conv cfg connect wait w =
     Do conv cfg (logged Attempt connect) (\<lambda>b. logged (Waited b) (wait b)) (w, [])"

text \<open>How a run may end: the result and the log after n completed rounds.\<close>

definition run_shape :: "(int \<Rightarrow> int) \<Rightarrow> Config \<Rightarrow> nat \<Rightarrow> 'a res \<Rightarrow> call list \<Rightarrow> bool" where
  "run_shape conv cfg n r ls \<longleftrightarrow>
     (case r of
        Inr a \<Rightarrow> ls = schedule conv cfg n @ [Attempt]
      | Inl f \<Rightarrow>
          ls = schedule conv cfg n @ [Attempt] \<and> int n + 1 = attempts cfg \<and>
            (\<exists>e. f = failed_err (attempts cfg) (Some e))
        \<or> ls = schedule conv cfg (Suc n) \<and> int n + 1 < attempts cfg \<and>
            (\<exists>c. f = canceled_err (int n + 1) c))"

lemma attempts_pos: "1 \<le> attempts cfg"
  by (simp add: attempts_def)

text \<open>The four ways one turn of the loop can go.\<close>

lemma Do_loop_success:
  "attempt \<le> n \<Longrightarrow> connect w = (Inr a, w1) \<Longrightarrow>
   Do_loop conv cfg connect wait n attempt b le w = (Inr a, w1)"
  by (simp add: Do_loop.simps)

lemma Do_loop_exhausted:
  "connect w = (Inl e, w1) \<Longrightarrow>
   Do_loop conv cfg connect wait n n b le w = (Inl (failed_err n (Some e)), w1)"
  by (simp add: Do_loop.simps)

lemma Do_loop_canceled:
  "attempt < n \<Longrightarrow> connect w = (Inl e, w1) \<Longrightarrow> wait b w1 = (Some c, w2) \<Longrightarrow>
   Do_loop conv cfg connect wait n attempt b le w = (Inl (canceled_err attempt c), w2)"
  by (simp add: Do_loop.simps)

lemma Do_loop_again:
  "attempt < n \<Longrightarrow> connect w = (Inl e, w1) \<Longrightarrow> wait b w1 = (None, w2) \<Longrightarrow>
   Do_loop conv cfg connect wait n attempt b le w =
   Do_loop conv cfg connect wait n (attempt + 1) (next_backoff conv cfg b) (Some e) w2"
  by (simp add: Do_loop.simps [where attempt = attempt])

lemmas Do_loop_turn = Do_loop_success Do_loop_exhausted Do_loop_canceled Do_loop_again

lemma Do_loop_shape:
  assumes "int k < attempts cfg"
    and "Do_loop conv cfg (logged Attempt connect) (\<lambda>b. logged (Waited b) (wait b))
           (attempts cfg) (int k + 1) (backoff_at conv cfg k) le (w, schedule conv cfg k)
         = (r, w', ls)"
  shows "\<exists>n. int n < attempts cfg \<and> run_shape conv cfg n r ls"
  using assms
proof (induction "nat (attempts cfg - int k)" arbitrary: k le w)
  case 0
  then show ?case by simp
next
  case (Suc m)
  obtain o1 w1 where c: "connect w = (o1, w1)" by fastforce
  obtain o2 w2 where t: "wait (backoff_at conv cfg k) w1 = (o2, w2)" by fastforce
  show ?case
  proof (cases "(\<exists>e. o1 = Inl e) \<and> int k + 1 < attempts cfg \<and> o2 = None")
    case False
    then consider a where "o1 = Inr a"
      | e where "o1 = Inl e" "attempts cfg = int k + 1"
      | e x where "o1 = Inl e" "int k + 1 < attempts cfg" "o2 = Some x"
      using Suc.prems(1) by (cases o1; cases o2) force+
    then have "run_shape conv cfg k r ls"
      using Suc.prems c t by cases (auto simp: Do_loop_turn run_shape_def)
    with Suc.prems(1) show ?thesis by blast
  next
    case True
    then obtain e where e: "o1 = Inl e" "int (Suc k) < attempts cfg" "o2 = None" by auto
    have "Do_loop conv cfg (logged Attempt connect) (\<lambda>b. logged (Waited b) (wait b))
            (attempts cfg) (int (Suc k) + 1) (backoff_at conv cfg (Suc k)) (Some e)
            (w2, schedule conv cfg (Suc k)) = (r, w', ls)"
      using e c t Suc.prems(2) by (simp add: Do_loop_again ac_simps)
    moreover from Suc.hyps(2) e have "m = nat (attempts cfg - int (Suc k))" by simp
    ultimately show ?thesis using Suc.hyps(1) e by blast
  qed
qed

section \<open>Scripted environments\<close>

text \<open>
  To say which outcome a run has, the environment is given as two scripts: \<open>oc k\<close> is the
  outcome of the k-th attempt and \<open>wc k\<close> that of the k-th select, both counted from 0.
\<close>

definition script_connect :: "(nat \<Rightarrow> 'a res) \<Rightarrow> (nat \<times> nat, 'a) op" where
  "script_connect oc = (\<lambda>(i, j). (oc i, (Suc i, j)))"

definition script_wait :: "(nat \<Rightarrow> ctx) \<Rightarrow> duration \<Rightarrow> nat \<times> nat \<Rightarrow> ctx \<times> nat \<times> nat" where
  "script_wait wc b = (\<lambda>(i, j). (wc j, (i, Suc j)))"

definition scripted ::
  "(int \<Rightarrow> int) \<Rightarrow> Config \<Rightarrow> (nat \<Rightarrow> 'a res) \<Rightarrow> (nat \<Rightarrow> ctx) \<Rightarrow> 'a res"
where
  "scripted conv cfg oc wc = fst (Do conv cfg (script_connect oc) (script_wait wc) (0, 0))"

text \<open>Attempts 0 to k - 1 failed and no select before attempt k saw the context end.\<close>

definition gets_to :: "(nat \<Rightarrow> 'a res) \<Rightarrow> (nat \<Rightarrow> ctx) \<Rightarrow> nat \<Rightarrow> bool" where
  "gets_to oc wc k \<longleftrightarrow> (\<forall>j<k. (\<exists>e. oc j = Inl e) \<and> wc j = None)"

text \<open>
  The specification of the loop, as a search without loop state: k is the attempt at which
  the run stops.
\<close>

definition stops_with ::
  "Config \<Rightarrow> (nat \<Rightarrow> 'a res) \<Rightarrow> (nat \<Rightarrow> ctx) \<Rightarrow> nat \<Rightarrow> 'a res \<Rightarrow> bool"
where
  "stops_with cfg oc wc k r \<longleftrightarrow>
     gets_to oc wc k \<and> int k < attempts cfg \<and>
     (case oc k of
        Inr a \<Rightarrow> r = Inr a
      | Inl e \<Rightarrow>
          if int k + 1 = attempts cfg then r = Inl (failed_err (attempts cfg) (Some e))
          else \<exists>c. wc k = Some c \<and> r = Inl (canceled_err (int k + 1) c))"

lemma gets_to_Suc:
  "gets_to oc wc (Suc k) \<longleftrightarrow> gets_to oc wc k \<and> (\<exists>e. oc k = Inl e) \<and> wc k = None"
  by (auto simp: gets_to_def less_Suc_eq)

lemma Do_loop_stops:
  assumes "int k < attempts cfg" and "gets_to oc wc k"
  shows "\<exists>n. stops_with cfg oc wc n
    (fst (Do_loop conv cfg (script_connect oc) (script_wait wc) (attempts cfg) (int k + 1) b le (k, k)))"
  using assms
proof (induction "nat (attempts cfg - int k)" arbitrary: k b le)
  case 0
  then show ?case by simp
next
  case (Suc m)
  have c: "script_connect oc (k, k) = (oc k, (Suc k, k))"
    and t: "script_wait wc b (Suc k, k) = (wc k, (Suc k, Suc k))"
    by (simp_all add: script_connect_def script_wait_def)
  show ?case
  proof (cases "(\<exists>e. oc k = Inl e) \<and> int k + 1 < attempts cfg \<and> wc k = None")
    case False
    then consider a where "oc k = Inr a"
      | e where "oc k = Inl e" "attempts cfg = int k + 1"
      | e x where "oc k = Inl e" "int k + 1 < attempts cfg" "wc k = Some x"
      using Suc.prems(1) by (cases "oc k"; cases "wc k") force+
    then have "stops_with cfg oc wc k
      (fst (Do_loop conv cfg (script_connect oc) (script_wait wc) (attempts cfg) (int k + 1) b le (k, k)))"
      using Suc.prems c t by cases (auto simp: Do_loop_turn stops_with_def)
    then show ?thesis ..
  next
    case True
    then obtain e where e: "oc k = Inl e" "int (Suc k) < attempts cfg" "gets_to oc wc (Suc k)"
      using Suc.prems by (auto simp: gets_to_Suc)
    moreover from Suc.hyps(2) e have "m = nat (attempts cfg - int (Suc k))" by simp
    ultimately obtain n where "stops_with cfg oc wc n
        (fst (Do_loop conv cfg (script_connect oc) (script_wait wc) (attempts cfg)
          (int (Suc k) + 1) (next_backoff conv cfg b) (Some e) (Suc k, Suc k)))"
      using Suc.hyps(1) by blast
    with True e show ?thesis
      by (intro exI [of _ n]) (simp add: c t Do_loop_again ac_simps)
  qed
qed

lemma stops_with_last: "stops_with cfg oc wc k r \<Longrightarrow> int n < attempts cfg \<Longrightarrow> gets_to oc wc n \<Longrightarrow> n \<le> k"
  by (rule ccontr) (auto simp: stops_with_def gets_to_def not_le split: sum.splits if_splits)

lemma stops_at_unique: "stops_with cfg oc wc k r \<Longrightarrow> stops_with cfg oc wc n s \<Longrightarrow> n = k"
  by (meson stops_with_last stops_with_def antisym)

lemma scripted_stops: "\<exists>n. stops_with cfg oc wc n (scripted conv cfg oc wc)"
  using Do_loop_stops [of 0 cfg oc wc conv "BackoffMin cfg" None] attempts_pos [of cfg]
  by (simp add: scripted_def Do_def gets_to_def)

lemma stops_with_result: "stops_with cfg oc wc k r \<Longrightarrow> stops_with cfg oc wc k s \<Longrightarrow> r = s"
  by (auto simp: stops_with_def split: sum.splits if_splits)


section \<open>The contract of a retried operation\<close>

text \<open>
  What a client of the helper relies on: if a failed attempt and a wait keep a property
  \<open>ok\<close> of the world and a successful attempt establishes \<open>got a\<close>, then the whole of
  \<open>Do\<close> ends in one of the two, whatever the environment does in between.
\<close>

locale retried =
  fixes connect :: "('w, 'a) op" and wait :: "duration \<Rightarrow> 'w \<Rightarrow> ctx \<times> 'w"
    and ok :: "'w \<Rightarrow> bool" and got :: "'a \<Rightarrow> 'w \<Rightarrow> bool"
  assumes attempt_ok: "ok w \<Longrightarrow> connect w = (Inl e, w') \<Longrightarrow> ok w'"
    and attempt_got: "ok w \<Longrightarrow> connect w = (Inr a, w') \<Longrightarrow> got a w'"
    and wait_ok: "ok w \<Longrightarrow> wait b w = (c, w') \<Longrightarrow> ok w'"
begin

lemma Do_loop_contract:
  "ok w \<Longrightarrow> Do_loop conv cfg connect wait n k b le w = (r, w') \<Longrightarrow>
   (case r of Inl e \<Rightarrow> ok w' | Inr a \<Rightarrow> got a w')"
proof (induction "nat (n + 1 - k)" arbitrary: k b le w)
  case 0
  then show ?case by (auto simp: Do_loop.simps [where attempt = k])
next
  case (Suc m)
  then have k: "k \<le> n" and m: "m = nat (n + 1 - (k + 1))" by auto
  show ?case
  proof (cases "connect w")
    case (Pair o1 w1)
    obtain o2 w2 where t: "wait b w1 = (o2, w2)" by fastforce
    consider a where "o1 = Inr a" | e where "o1 = Inl e" "k = n"
      | e c where "o1 = Inl e" "k < n" "o2 = Some c" | e where "o1 = Inl e" "k < n" "o2 = None"
      using k by (cases o1; cases o2) force+
    then show ?thesis
    proof cases
      case 3
      with Suc.prems(1) Pair have "ok w1" by (blast intro: attempt_ok)
      with 3 Suc.prems(2) Pair t show ?thesis by (auto simp: Do_loop_canceled dest: wait_ok)
    next
      case 4
      with Suc.prems Pair t m show ?thesis
        by (intro Suc.hyps(1) [of "k + 1"])
          (auto simp: Do_loop_again intro: wait_ok attempt_ok)
    qed (use Suc.prems Pair t k in \<open>auto simp: Do_loop_turn dest: attempt_ok attempt_got wait_ok\<close>)
  qed
qed

lemma Do_contract:
  "ok w \<Longrightarrow> Do conv cfg connect wait w = (r, w') \<Longrightarrow>
   (case r of Inl e \<Rightarrow> ok w' | Inr a \<Rightarrow> got a w')"
  unfolding Do_def by (rule Do_loop_contract)

end


section \<open>Properties\<close>

text \<open>
  C12. The attempt loop computes exactly the search it documents. A run with attempt
  outcomes oc and select outcomes wc returns r if and only if there is an attempt k, within
  the allowed number, that is reached because every earlier attempt failed and every
  earlier select timed out, and r is that attempt's value, or the failure after the last
  attempt, or the cancellation seen by the select after it.
\<close>

theorem retry_Do_spec:
  "scripted conv cfg oc wc = r \<longleftrightarrow> (\<exists>k. stops_with cfg oc wc k r)"
  using scripted_stops [of cfg oc wc conv] stops_at_unique stops_with_result by metis

text \<open>
  C13. The calls of every run, whatever the retried code and the clock do: the connect
  function is called at least once and at most max(1, MaxAttempts) times, each failed
  attempt but the last is followed by one wait, and the waits are the backoff sequence in
  its order.
\<close>

theorem retry_calls:
  "case observed conv cfg connect wait w of
     (r, w', ls) \<Rightarrow> \<exists>n. int n < attempts cfg \<and> run_shape conv cfg n r ls"
proof -
  obtain r w' ls where "observed conv cfg connect wait w = (r, w', ls)"
    using prod_cases3 by blast
  with Do_loop_shape [of 0 cfg conv connect wait None w r w' ls] attempts_pos [of cfg]
  show ?thesis by (simp add: observed_def Do_def)
qed

lemma waits_schedule:
  "Waited b \<in> set (schedule conv cfg n) \<longleftrightarrow> (\<exists>k<n. b = backoff_at conv cfg k)"
  by (auto simp: schedule_def)

lemma run_shape_waits:
  assumes "run_shape conv cfg n r ls" and "Waited b \<in> set ls"
  shows "\<exists>k. b = backoff_at conv cfg k"
proof -
  have "Waited b \<in> set (schedule conv cfg n @ [Attempt]) \<or> Waited b \<in> set (schedule conv cfg (Suc n))"
    using assms by (auto simp: run_shape_def simp del: schedule_Suc split: sum.splits)
  then show ?thesis by (auto simp: waits_schedule simp del: schedule_Suc)
qed

text \<open>
  C14. With a sane backoff window (0 <= BackoffMin <= BackoffMax <= 26 days) the float64
  arithmetic of the growth step is exact: every wait of every run lies between BackoffMin
  and BackoffMax, and each value of the sequence is one and a half times the previous one,
  rounded down and capped, hence never shorter.
\<close>

theorem retry_backoff_bounds:
  assumes "sane cfg" and "observed conv cfg connect wait w = (r, w', ls)"
  shows "(\<forall>b. Waited b \<in> set ls \<longrightarrow> BackoffMin cfg \<le> b \<and> b \<le> BackoffMax cfg) \<and>
         (\<forall>k. backoff_at conv cfg (Suc k) = min (3 * backoff_at conv cfg k div 2) (BackoffMax cfg) \<and>
              backoff_at conv cfg k \<le> backoff_at conv cfg (Suc k))"
proof -
  from assms(2) Do_loop_shape [of 0 cfg conv connect wait None w r w' ls] attempts_pos [of cfg]
  obtain n where "run_shape conv cfg n r ls" by (auto simp: observed_def Do_def)
  then have "BackoffMin cfg \<le> b \<and> b \<le> BackoffMax cfg" if "Waited b \<in> set ls" for b
    using that assms(1) run_shape_waits backoff_at_range by metis
  with backoff_at_Suc [OF assms(1)] backoff_at_mono [OF assms(1)] show ?thesis by blast
qed

theorem retry_backoff_bounds_witness:
  "sane DefaultConfig \<and>
   observed id DefaultConfig (\<lambda>n::nat. if n = 0 then (Inl (ErrNew ''refused''), 1) else (Inr n, n))
     (\<lambda>b n. (None, n)) 0 = (Inr 1, 1, [Attempt, Waited 500000000, Attempt]) \<and>
   BackoffMin DefaultConfig \<le> 500000000 \<and> 500000000 \<le> BackoffMax DefaultConfig"
proof -
  have s: "sane DefaultConfig"
    by (simp add: sane_def DefaultConfig_def Millisecond_def Second_def)
  have o: "observed id DefaultConfig (\<lambda>n::nat. if n = 0 then (Inl (ErrNew ''refused''), 1) else (Inr n, n))
     (\<lambda>b n. (None, n)) 0 = (Inr 1, 1, [Attempt, Waited 500000000, Attempt])"
    by (simp add: observed_def Do_def attempts_def DefaultConfig_def Millisecond_def Do_loop.simps)
  show ?thesis using s o retry_backoff_bounds [OF s o] by simp
qed

text \<open>
  A failed run says why: its error wraps the error of the last allowed attempt, or the
  context error of a select, so errors.Is finds the cause through the retry wrapper.
\<close>

theorem retry_error_cause:
  assumes "scripted conv cfg oc wc = Inl f"
  shows "(\<exists>k e. int k + 1 = attempts cfg \<and> oc k = Inl e \<and> errors_is f e) \<or>
         (\<exists>k c. int k + 1 < attempts cfg \<and> wc k = Some c \<and> errors_is f (CtxErr c))"
proof -
  from scripted_stops [of cfg oc wc conv] assms obtain k where k: "stops_with cfg oc wc k (Inl f)" by auto
  then obtain e where e: "oc k = Inl e" by (auto simp: stops_with_def split: sum.splits)
  show ?thesis
  proof (cases "int k + 1 = attempts cfg")
    case True
    with k e have "errors_is f e" by (simp add: stops_with_def failed_err_def)
    with True e show ?thesis by blast
  next
    case False
    with k e obtain c where "int k + 1 < attempts cfg" "wc k = Some c" "errors_is f (CtxErr c)"
      by (auto simp: stops_with_def canceled_err_def)
    then show ?thesis by blast
  qed
qed

theorem retry_error_cause_witness:
  "scripted id DefaultConfig (\<lambda>k. Inl (LibErr ''dial'' ''refused'') :: unit res) (\<lambda>k. Some Canceled)
     = Inl (canceled_err 1 Canceled) \<and>
   errors_is (canceled_err 1 Canceled) (CtxErr Canceled)"
proof -
  have h: "scripted id DefaultConfig (\<lambda>k. Inl (LibErr ''dial'' ''refused'') :: unit res)
      (\<lambda>k. Some Canceled) = Inl (canceled_err 1 Canceled)"
    by (simp add: scripted_def Do_def attempts_def DefaultConfig_def Do_loop.simps
        script_connect_def script_wait_def)
  from retry_error_cause [OF h] h show ?thesis
    by (auto simp: canceled_err_def)
qed

text \<open>
  The first wait is BackoffMin even when BackoffMin exceeds BackoffMax: the cap is
  applied only when the backoff grows. A policy with a minimum of 10s and a maximum of 1s
  waits 10s before its second attempt.
\<close>

theorem retry_first_wait_not_capped:
  "observed conv \<lparr>MaxAttempts = 3, BackoffMin = 10 * Second, BackoffMax = Second\<rparr>
     (\<lambda>w. (Inl (ErrNew ''refused'') :: unit res, w)) (\<lambda>b w. (None, w)) w =
   (Inl (failed_err 3 (Some (ErrNew ''refused''))), w,
    [Attempt, Waited (10 * Second), Attempt, Waited Second, Attempt])"
  by (simp add: observed_def Do_def attempts_def Do_loop.simps next_backoff_def
      mul_backoff_exact Second_def Millisecond_def)

end
