(* ===== verification/Channel.thy ===== *)
theory Channel
  imports Prelude
begin

text \<open>
  Go's buffered channels and sync.Once, as far as the components use them. A channel is
  its queue, its capacity and whether it was closed; each operation says what happens
  now: it succeeds, it would block, or it panics.
\<close>


section \<open>Channels\<close>

record 'a chan =
  buf :: "'a list"
  cap :: nat
  closed :: bool

text \<open>\<^verbatim>\<open>make(chan T, n)\<close> panics (None) when n is negative or beyond the allocator's limit.\<close>

definition make_chan :: "int \<Rightarrow> int \<Rightarrow> 'a chan option" where
  "make_chan lim n =
     (if n < 0 \<or> lim < n then None else Some \<lparr>buf = [], cap = nat n, closed = False\<rparr>)"

datatype 'c sent = Sent 'c | SendBlocks | SendPanics

definition chan_send :: "'a \<Rightarrow> 'a chan \<Rightarrow> 'a chan sent" where
  "chan_send x c =
     (if closed c then SendPanics
      else if length (buf c) < cap c then Sent (c\<lparr>buf := buf c @ [x]\<rparr>)
      else SendBlocks)"

datatype ('a, 'c) received = Received 'a 'c | RecvClosed | RecvBlocks

definition chan_recv :: "'a chan \<Rightarrow> ('a, 'a chan) received" where
  "chan_recv c =
     (case buf c of
        x # xs \<Rightarrow> Received x (c\<lparr>buf := xs\<rparr>)
      | [] \<Rightarrow> (if closed c then RecvClosed else RecvBlocks))"

text \<open>Closing a closed channel panics.\<close>

definition chan_close :: "'a chan \<Rightarrow> 'a chan option" where
  "chan_close c = (if closed c then None else Some (c\<lparr>closed := True\<rparr>))"

definition chan_ok :: "'a chan \<Rightarrow> bool" where
  "chan_ok c \<longleftrightarrow> length (buf c) \<le> cap c"


section \<open>The queue contract of a channel\<close>

text \<open>
  What the users of a channel rely on: it is a bounded first-in first-out queue, a send
  that succeeds appends, a receive that succeeds takes the head, and a closed channel
  accepts nothing but still delivers what it holds.
\<close>

locale bounded_fifo =
  fixes send :: "'a \<Rightarrow> 'c \<Rightarrow> 'c sent" and recv :: "'c \<Rightarrow> ('a, 'c) received"
    and items :: "'c \<Rightarrow> 'a list" and room :: "'c \<Rightarrow> nat" and ok :: "'c \<Rightarrow> bool"
    and shut :: "'c \<Rightarrow> bool"
  assumes send_items: "send x c = Sent c' \<Longrightarrow> items c' = items c @ [x]"
    and send_frame: "send x c = Sent c' \<Longrightarrow> room c' = room c \<and> shut c' = shut c"
    and send_ok: "ok c \<Longrightarrow> send x c = Sent c' \<Longrightarrow> ok c'"
    and send_shut: "send x c = SendPanics \<longleftrightarrow> shut c"
    and recv_items: "recv c = Received x c' \<Longrightarrow> items c = x # items c'"
    and recv_frame: "recv c = Received x c' \<Longrightarrow> room c' = room c \<and> shut c' = shut c"
    and recv_ok: "ok c \<Longrightarrow> recv c = Received x c' \<Longrightarrow> ok c'"
    and recv_closed: "recv c = RecvClosed \<longleftrightarrow> items c = [] \<and> shut c"
    and ok_room: "ok c \<Longrightarrow> length (items c) \<le> room c"
begin

text \<open>Sending a list of values, as far as they fit.\<close>

fun send_all :: "'a list \<Rightarrow> 'c \<Rightarrow> 'c option" where
  "send_all [] c = Some c"
| "send_all (x # xs) c = (case send x c of Sent c' \<Rightarrow> send_all xs c' | _ \<Rightarrow> None)"

fun recv_all :: "nat \<Rightarrow> 'c \<Rightarrow> ('a list \<times> 'c) option" where
  "recv_all 0 c = Some ([], c)"
| "recv_all (Suc n) c =
     (case recv c of
        Received x c' \<Rightarrow> map_option (\<lambda>(xs, d). (x # xs, d)) (recv_all n c')
      | _ \<Rightarrow> None)"

lemma send_all_items: "send_all xs c = Some c' \<Longrightarrow> items c' = items c @ xs"
  by (induction xs arbitrary: c) (auto simp: send_items split: sent.splits)

lemma recv_all_items: "recv_all n c = Some (xs, d) \<Longrightarrow> items c = xs @ items d \<and> length xs = n"
  by (induction n arbitrary: c xs d) (auto dest: recv_items split: received.splits)

lemma fifo_round_trip:
  assumes "items c = []" and "send_all xs c = Some c'" and "recv_all (length xs) c' = Some (ys, d)"
  shows "ys = xs \<and> items d = []"
  using send_all_items [OF assms(2)] recv_all_items [OF assms(3)] assms(1) by auto

end

interpretation ch: bounded_fifo chan_send chan_recv buf cap chan_ok closed
  by unfold_locales
    (auto simp: chan_send_def chan_recv_def chan_ok_def split: if_splits list.splits)


section \<open>sync.Once\<close>

text \<open>
  \<^verbatim>\<open>once.Do(f)\<close> runs f the first time and never again: the flag says whether it ran.
\<close>

definition once_do :: "bool \<Rightarrow> ('w \<Rightarrow> 'w) \<Rightarrow> 'w \<Rightarrow> bool \<times> 'w" where
  "once_do done f w = (if done then (True, w) else (True, f w))"

lemma once_do_idem: "once_do done f w = (d, w') \<Longrightarrow> d \<and> once_do d g w' = (True, w')"
  by (auto simp: once_do_def split: if_splits)

end
