(* ===== verification/Entrypoint.thy ===== *)
theory Entrypoint
  imports Channel "HOL-Library.Sublist"
begin

text \<open>
  The lifecycle manager of \<^verbatim>\<open>pkg/core/entrypoint/entrypoint.go\<close> over the interfaces of
  \<^verbatim>\<open>pkg/core/service/service.go\<close>. The options, \<open>New\<close>, \<open>AddService\<close> and \<open>Shutdown\<close> are functions
  on the entrypoint; \<open>Run\<close> is a step function whose events are the actions of Run's own
  thread, of the hooks, of the Start and Stop goroutines, of the clock and of the outside world
  (signals, the caller's context), so that a list of events is one interleaving. To spawn a
  goroutine and the call of Start or Stop that it makes are two events, and so are the call of
  a hook and its return, which may never come. A ghost log records the calls of hooks, Start
  and Stop in the order in which they are made, with the context each one got.
\<close>


section \<open>Services, options, construction\<close>

text \<open>
  What the entrypoint can see of a service: every service has Start; whether it also
  implements Shutdown is found by a type assertion. What Start and Stop return is up to
  the service and arrives as an event.
\<close>

record service =
  svc_name :: string
  is_shutdown :: bool

type_synonym signal = string

record 'h entrypoint =
  services :: "service list"
  shutdownTimeout :: duration
  catchSignals :: "signal list"
  onPreStart :: "'h list"
  onPostStart :: "'h list"
  onPreStop :: "'h list"
  onPostStop :: "'h list"
  shutdownDone :: bool

datatype 'h ep_option =
    WithServices "service list"
  | WithShutdownTimeout duration
  | WithLogger
  | WithCatchSignals "signal list"
  | WithPreStart 'h
  | WithPostStart 'h
  | WithPreStop 'h
  | WithPostStop 'h

fun apply_option :: "'h ep_option \<Rightarrow> 'h entrypoint \<Rightarrow> 'h entrypoint" where
  "apply_option (WithServices svcs) e = e\<lparr>services := services e @ svcs\<rparr>"
| "apply_option (WithShutdownTimeout d) e = (if d > 0 then e\<lparr>shutdownTimeout := d\<rparr> else e)"
| "apply_option WithLogger e = e"
| "apply_option (WithCatchSignals sigs) e = e\<lparr>catchSignals := sigs\<rparr>"
| "apply_option (WithPreStart h) e = e\<lparr>onPreStart := onPreStart e @ [h]\<rparr>"
| "apply_option (WithPostStart h) e = e\<lparr>onPostStart := onPostStart e @ [h]\<rparr>"
| "apply_option (WithPreStop h) e = e\<lparr>onPreStop := onPreStop e @ [h]\<rparr>"
| "apply_option (WithPostStop h) e = e\<lparr>onPostStop := onPostStop e @ [h]\<rparr>"

definition defaultShutdownTimeout :: duration where
  "defaultShutdownTimeout = 60 * Second"

definition New :: "'h ep_option list \<Rightarrow> 'h entrypoint" where
  "New opts = fold apply_option opts
     \<lparr>services = [], shutdownTimeout = defaultShutdownTimeout,
      catchSignals = [''interrupt'', ''terminated''],
      onPreStart = [], onPostStart = [], onPreStop = [], onPostStop = [], shutdownDone = False\<rparr>"

definition AddService :: "service list \<Rightarrow> 'h entrypoint \<Rightarrow> 'h entrypoint" where
  "AddService svcs e = e\<lparr>services := services e @ svcs\<rparr>"

text \<open>Cancelling a canceled context is a no-op.\<close>

definition Shutdown :: "'h entrypoint \<Rightarrow> 'h entrypoint" where
  "Shutdown e = e\<lparr>shutdownDone := True\<rparr>"


section \<open>The state of Run\<close>

text \<open>Where Run's own thread is. The hook phases carry the hooks still to run.\<close>

datatype exit_path = FailedPreStart | FailedPostStart | ShutDown

datatype 'h phase =
    PreStart "'h list"
  | Launching nat
  | PostStart "'h list"
  | Waiting
  | PreStop "'h list"
  | Stopping nat
  | Draining
  | PostStop "'h list"
  | Finished exit_path "err option"

fun is_finished :: "'h phase \<Rightarrow> bool" where
  "is_finished (Finished x r) = True"
| "is_finished _ = False"

text \<open>The goroutine of a Start or a Stop: not there, spawned, in the call, returned.\<close>

datatype start_state = NotStarted | Spawned | Running | Returned

datatype stop_state = NotCalled | StopSpawned | InStop | Stopped

datatype hook_kind = HPreStart | HPostStart | HPreStop | HPostStop

datatype 'h obs = OHook hook_kind 'h ctx | OStart nat | OStop nat ctx

record 'h run =
  ep :: "'h entrypoint"
  pc :: "'h phase"
  inHook :: bool
  starts :: "start_state list"
  svcErrs :: "err chan"
  svcCanceled :: bool
  stops :: "stop_state list"
  parent :: ctx
  sigCh :: "signal option"
  now :: duration
  deadline :: duration
  cause :: "err option"
  log :: "'h obs list"

definition init_run :: "'h entrypoint \<Rightarrow> ctx \<Rightarrow> 'h run" where
  "init_run e c =
     \<lparr>ep = e, pc = PreStart (onPreStart e), inHook = False, starts = replicate (length (services e)) NotStarted,
      svcErrs = \<lparr>buf = [], cap = length (services e), closed = False\<rparr>, svcCanceled = False,
      stops = replicate (length (services e)) NotCalled, parent = c, sigCh = None,
      now = 0, deadline = 0, cause = None, log = []\<rparr>"

text \<open>\<^verbatim>\<open>svcCtx.Err() == nil\<close>: the service context is a child of the caller's context.\<close>

definition svcLive :: "'h run \<Rightarrow> bool" where
  "svcLive s \<longleftrightarrow> \<not> svcCanceled s \<and> parent s = None"

text \<open>
  \<^verbatim>\<open>stopCtx\<close> is detached from the caller's cancellation and has the deadline fixed when
  the stop phase began. The \<^verbatim>\<open>stopCancel\<close> deferred to the end of Run changes nothing that a Stop
  can see: before the deadline Run gets there only after every Stop has returned.
\<close>

definition stopCtx :: "'h run \<Rightarrow> ctx" where
  "stopCtx s = (if deadline s \<le> now s then Some DeadlineExceeded else None)"

text \<open>\<^verbatim>\<open>wg\<close> and \<^verbatim>\<open>stopWg\<close> are both at zero.\<close>

definition allDone :: "'h run \<Rightarrow> bool" where
  "allDone s \<longleftrightarrow> (\<forall>x \<in> set (starts s). x = Returned) \<and> (\<forall>x \<in> set (stops s). x = NotCalled \<or> x = Stopped)"


section \<open>Run\<close>

datatype event =
    Proceed
  | HookCall
  | HookDone "err option"
  | LaunchNext
  | StopNext
  | SelCtx
  | SelSignal
  | SelErr
  | SelShutdown
  | SelAllDone
  | SelTimeout
  | StartCalls nat
  | StartReturns nat "err option"
  | StopCalls nat
  | StopReturns nat "err option"
  | CtxEnds ctx_err
  | Signal signal
  | ShutdownCall
  | Tick duration

text \<open>\<^verbatim>\<open>fmt.Errorf("received signal: %v", sig)\<close> wraps nothing.\<close>

definition signal_err :: "signal \<Rightarrow> err" where
  "signal_err g = ErrNew (''received signal: '' @ g)"

text \<open>The end of the select in the middle of Run: cancel the services and set up the stop context.\<close>

definition begin_stop :: "err option \<Rightarrow> 'h run \<Rightarrow> 'h run" where
  "begin_stop c s = s\<lparr>cause := c, svcCanceled := True, pc := PreStop (onPreStop (ep s)),
     deadline := now s + shutdownTimeout (ep s)\<rparr>"

text \<open>
  Run's own thread. \<^verbatim>\<open>runHooks\<close> calls the hooks one after the other and stops at the first one
  that fails: a pre-start or post-start failure ends Run, a pre-stop or post-stop failure is only
  logged. \<open>HookDone\<close> is the return of the hook that is running.
\<close>

definition call_hook :: "hook_kind \<Rightarrow> 'h \<Rightarrow> ctx \<Rightarrow> 'h run \<Rightarrow> 'h run option" where
  "call_hook k h c s = (if inHook s then None else Some (s\<lparr>inHook := True, log := log s @ [OHook k h c]\<rparr>))"

fun run_thread :: "'h run \<Rightarrow> event \<Rightarrow> 'h run option" where
  "run_thread s HookCall =
     (case pc s of
        PreStart (h # hs) \<Rightarrow> call_hook HPreStart h (parent s) s
      | PostStart (h # hs) \<Rightarrow> call_hook HPostStart h (parent s) s
      | PreStop (h # hs) \<Rightarrow> call_hook HPreStop h (stopCtx s) s
      | PostStop (h # hs) \<Rightarrow> call_hook HPostStop h None s
      | _ \<Rightarrow> None)"
| "run_thread s (HookDone r) =
     (if \<not> inHook s then None
      else case pc s of
        PreStart (h # hs) \<Rightarrow>
          (case r of
             Some e \<Rightarrow> Some (s\<lparr>inHook := False, pc := Finished FailedPreStart (Some (Wrap ''pre-start'' e))\<rparr>)
           | None \<Rightarrow> Some (s\<lparr>inHook := False, pc := PreStart hs\<rparr>))
      | PostStart (h # hs) \<Rightarrow>
          (case r of
             Some e \<Rightarrow> Some (s\<lparr>inHook := False, svcCanceled := True,
                               pc := Finished FailedPostStart (Some (Wrap ''post-start'' e))\<rparr>)
           | None \<Rightarrow> Some (s\<lparr>inHook := False, pc := PostStart hs\<rparr>))
      | PreStop (h # hs) \<Rightarrow> Some (s\<lparr>inHook := False, pc := PreStop (if r = None then hs else [])\<rparr>)
      | PostStop (h # hs) \<Rightarrow> Some (s\<lparr>inHook := False, pc := PostStop (if r = None then hs else [])\<rparr>)
      | _ \<Rightarrow> None)"
| "run_thread s Proceed =
     (case pc s of
        PreStart [] \<Rightarrow> Some (s\<lparr>pc := Launching 0\<rparr>)
      | Launching i \<Rightarrow>
          (if i = length (services (ep s)) then Some (s\<lparr>pc := PostStart (onPostStart (ep s))\<rparr>) else None)
      | PostStart [] \<Rightarrow> Some (s\<lparr>pc := Waiting\<rparr>)
      | PreStop [] \<Rightarrow> Some (s\<lparr>pc := Stopping 0\<rparr>)
      | Stopping i \<Rightarrow> (if i = length (services (ep s)) then Some (s\<lparr>pc := Draining\<rparr>) else None)
      | PostStop [] \<Rightarrow> Some (s\<lparr>pc := Finished ShutDown (cause s)\<rparr>)
      | _ \<Rightarrow> None)"
| "run_thread s LaunchNext =
     (case pc s of
        Launching i \<Rightarrow>
          (if i < length (services (ep s))
           then Some (s\<lparr>pc := Launching (Suc i), starts := (starts s)[i := Spawned]\<rparr>) else None)
      | _ \<Rightarrow> None)"
| "run_thread s StopNext =
     (case pc s of
        Stopping i \<Rightarrow>
          (if i < length (services (ep s))
           then if is_shutdown (services (ep s) ! i)
                then Some (s\<lparr>pc := Stopping (Suc i), stops := (stops s)[i := StopSpawned]\<rparr>)
                else Some (s\<lparr>pc := Stopping (Suc i)\<rparr>)
           else None)
      | _ \<Rightarrow> None)"
| "run_thread s SelCtx =
     (case (pc s, parent s) of
        (Waiting, Some e) \<Rightarrow> Some (begin_stop (Some (CtxErr e)) s) | _ \<Rightarrow> None)"
| "run_thread s SelSignal =
     (case (pc s, sigCh s) of
        (Waiting, Some g) \<Rightarrow>
          Some (begin_stop (Some (signal_err g)) (s\<lparr>sigCh := None\<rparr>))
      | _ \<Rightarrow> None)"
| "run_thread s SelErr =
     (case (pc s, chan_recv (svcErrs s)) of
        (Waiting, Received e ch) \<Rightarrow> Some (begin_stop (Some e) (s\<lparr>svcErrs := ch\<rparr>)) | _ \<Rightarrow> None)"
| "run_thread s SelShutdown =
     (if pc s = Waiting \<and> shutdownDone (ep s) then Some (begin_stop None s) else None)"
| "run_thread s SelAllDone =
     (if pc s = Draining \<and> allDone s then Some (s\<lparr>pc := PostStop (onPostStop (ep s))\<rparr>) else None)"
| "run_thread s SelTimeout =
     (if pc s = Draining \<and> stopCtx s \<noteq> None
      then Some (s\<lparr>pc := PostStop (onPostStop (ep s))\<rparr>) else None)"
| "run_thread s _ = None"

text \<open>
  The goroutines, the clock and the outside world. A goroutine that was spawned calls Start or
  Stop at some later point, even when Run has gone on or has returned. A Start goroutine whose service failed
  while the service context was live sends the error; the send would block if the channel
  were full. \<^verbatim>\<open>signal.Notify\<close> never blocks: a signal that finds the one-slot channel full
  is dropped, and nothing is delivered once Run has returned.
\<close>

fun env_step :: "'h run \<Rightarrow> event \<Rightarrow> 'h run option" where
  "env_step s (StartCalls i) =
     (if i < length (starts s) \<and> starts s ! i = Spawned
      then Some (s\<lparr>starts := (starts s)[i := Running], log := log s @ [OStart i]\<rparr>) else None)"
| "env_step s (StopCalls i) =
     (if i < length (stops s) \<and> stops s ! i = StopSpawned
      then Some (s\<lparr>stops := (stops s)[i := InStop], log := log s @ [OStop i (stopCtx s)]\<rparr>) else None)"
| "env_step s (StartReturns i r) =
     (if i < length (starts s) \<and> starts s ! i = Running
      then (case r of
              Some e \<Rightarrow>
                if svcLive s
                then (case chan_send e (svcErrs s) of
                        Sent ch \<Rightarrow> Some (s\<lparr>svcErrs := ch, starts := (starts s)[i := Returned]\<rparr>)
                      | _ \<Rightarrow> None)
                else Some (s\<lparr>starts := (starts s)[i := Returned]\<rparr>)
            | None \<Rightarrow> Some (s\<lparr>starts := (starts s)[i := Returned]\<rparr>))
      else None)"
| "env_step s (StopReturns i r) =
     (if i < length (stops s) \<and> stops s ! i = InStop
      then Some (s\<lparr>stops := (stops s)[i := Stopped]\<rparr>) else None)"
| "env_step s (CtxEnds e) = (if parent s = None then Some (s\<lparr>parent := Some e\<rparr>) else None)"
| "env_step s (Signal g) =
     (if g \<in> set (catchSignals (ep s)) \<and> \<not> is_finished (pc s)
      then Some (if sigCh s = None then s\<lparr>sigCh := Some g\<rparr> else s) else None)"
| "env_step s ShutdownCall = Some (s\<lparr>ep := Shutdown (ep s)\<rparr>)"
| "env_step s (Tick d) = (if 0 \<le> d then Some (s\<lparr>now := now s + d\<rparr>) else None)"
| "env_step s _ = None"

fun own_event :: "event \<Rightarrow> bool" where
  "own_event (StartCalls i) = False"
| "own_event (StopCalls i) = False"
| "own_event (StartReturns i r) = False"
| "own_event (StopReturns i r) = False"
| "own_event (CtxEnds e) = False"
| "own_event (Signal g) = False"
| "own_event ShutdownCall = False"
| "own_event (Tick d) = False"
| "own_event _ = True"

definition Run_step :: "'h run \<Rightarrow> event \<Rightarrow> 'h run option" where
  "Run_step s e = (if own_event e then run_thread s e else env_step s e)"

definition Run :: "'h run \<Rightarrow> event list \<Rightarrow> 'h run option" where
  "Run = lts_run Run_step"


section \<open>Transitions\<close>

text \<open>
  The same actions of Run's thread as a relation with one rule per transition, for proofs
  by rule induction; \<open>run_thread_step\<close> shows that the step function makes no other move.
\<close>

fun hooks_left :: "'h phase \<Rightarrow> 'h list" where
  "hooks_left (PreStart hs) = hs"
| "hooks_left (PostStart hs) = hs"
| "hooks_left (PreStop hs) = hs"
| "hooks_left (PostStop hs) = hs"
| "hooks_left _ = []"

fun phase_kind :: "'h phase \<Rightarrow> hook_kind option" where
  "phase_kind (PreStart hs) = Some HPreStart"
| "phase_kind (PostStart hs) = Some HPostStart"
| "phase_kind (PreStop hs) = Some HPreStop"
| "phase_kind (PostStop hs) = Some HPostStop"
| "phase_kind _ = None"

fun hook_ctx :: "'h run \<Rightarrow> hook_kind \<Rightarrow> ctx \<Rightarrow> bool" where
  "hook_ctx s HPreStart c = (c = parent s)"
| "hook_ctx s HPostStart c = (c = parent s)"
| "hook_ctx s HPreStop c = (c = stopCtx s)"
| "hook_ctx s HPostStop c = (c = None)"

inductive own_step :: "'h run \<Rightarrow> 'h run \<Rightarrow> bool" where
  hook_call: "\<not> inHook s \<Longrightarrow> hooks_left (pc s) = h # hs \<Longrightarrow> phase_kind (pc s) = Some k \<Longrightarrow> hook_ctx s k c \<Longrightarrow>
     own_step s (s\<lparr>inHook := True, log := log s @ [OHook k h c]\<rparr>)"
| pre_ok: "inHook s \<Longrightarrow> pc s = PreStart (h # hs) \<Longrightarrow> own_step s (s\<lparr>inHook := False, pc := PreStart hs\<rparr>)"
| pre_fail: "inHook s \<Longrightarrow> pc s = PreStart (h # hs) \<Longrightarrow>
     own_step s (s\<lparr>inHook := False, pc := Finished FailedPreStart (Some (Wrap ''pre-start'' e))\<rparr>)"
| pre_end: "pc s = PreStart [] \<Longrightarrow> own_step s (s\<lparr>pc := Launching 0\<rparr>)"
| launch: "pc s = Launching i \<Longrightarrow> i < length (services (ep s)) \<Longrightarrow>
     own_step s (s\<lparr>pc := Launching (Suc i), starts := (starts s)[i := Spawned]\<rparr>)"
| launch_end: "pc s = Launching (length (services (ep s))) \<Longrightarrow>
     own_step s (s\<lparr>pc := PostStart (onPostStart (ep s))\<rparr>)"
| post_ok: "inHook s \<Longrightarrow> pc s = PostStart (h # hs) \<Longrightarrow> own_step s (s\<lparr>inHook := False, pc := PostStart hs\<rparr>)"
| post_fail: "inHook s \<Longrightarrow> pc s = PostStart (h # hs) \<Longrightarrow>
     own_step s (s\<lparr>inHook := False, svcCanceled := True,
                   pc := Finished FailedPostStart (Some (Wrap ''post-start'' e))\<rparr>)"
| post_end: "pc s = PostStart [] \<Longrightarrow> own_step s (s\<lparr>pc := Waiting\<rparr>)"
| sel_ctx: "pc s = Waiting \<Longrightarrow> parent s = Some e \<Longrightarrow> own_step s (begin_stop (Some (CtxErr e)) s)"
| sel_signal: "pc s = Waiting \<Longrightarrow> sigCh s = Some g \<Longrightarrow>
     own_step s (begin_stop (Some (signal_err g)) (s\<lparr>sigCh := None\<rparr>))"
| sel_err: "pc s = Waiting \<Longrightarrow> chan_recv (svcErrs s) = Received e ch \<Longrightarrow>
     own_step s (begin_stop (Some e) (s\<lparr>svcErrs := ch\<rparr>))"
| sel_shutdown: "pc s = Waiting \<Longrightarrow> shutdownDone (ep s) \<Longrightarrow> own_step s (begin_stop None s)"
| prestop_hook: "inHook s \<Longrightarrow> pc s = PreStop (h # hs) \<Longrightarrow> hs' = hs \<or> hs' = [] \<Longrightarrow>
     own_step s (s\<lparr>inHook := False, pc := PreStop hs'\<rparr>)"
| prestop_end: "pc s = PreStop [] \<Longrightarrow> own_step s (s\<lparr>pc := Stopping 0\<rparr>)"
| stop_spawn: "pc s = Stopping i \<Longrightarrow> i < length (services (ep s)) \<Longrightarrow> is_shutdown (services (ep s) ! i) \<Longrightarrow>
     own_step s (s\<lparr>pc := Stopping (Suc i), stops := (stops s)[i := StopSpawned]\<rparr>)"
| stop_skip: "pc s = Stopping i \<Longrightarrow> i < length (services (ep s)) \<Longrightarrow>
     \<not> is_shutdown (services (ep s) ! i) \<Longrightarrow> own_step s (s\<lparr>pc := Stopping (Suc i)\<rparr>)"
| stop_end: "pc s = Stopping (length (services (ep s))) \<Longrightarrow> own_step s (s\<lparr>pc := Draining\<rparr>)"
| drained: "pc s = Draining \<Longrightarrow> allDone s \<or> stopCtx s \<noteq> None \<Longrightarrow>
     own_step s (s\<lparr>pc := PostStop (onPostStop (ep s))\<rparr>)"
| poststop_hook: "inHook s \<Longrightarrow> pc s = PostStop (h # hs) \<Longrightarrow> hs' = hs \<or> hs' = [] \<Longrightarrow>
     own_step s (s\<lparr>inHook := False, pc := PostStop hs'\<rparr>)"
| poststop_end: "pc s = PostStop [] \<Longrightarrow> own_step s (s\<lparr>pc := Finished ShutDown (cause s)\<rparr>)"

inductive env_rel :: "'h run \<Rightarrow> 'h run \<Rightarrow> bool" where
  start_call: "i < length (starts s) \<Longrightarrow> starts s ! i = Spawned \<Longrightarrow>
     env_rel s (s\<lparr>starts := (starts s)[i := Running], log := log s @ [OStart i]\<rparr>)"
| stop_call: "i < length (stops s) \<Longrightarrow> stops s ! i = StopSpawned \<Longrightarrow>
     env_rel s (s\<lparr>stops := (stops s)[i := InStop], log := log s @ [OStop i (stopCtx s)]\<rparr>)"
| start_err: "i < length (starts s) \<Longrightarrow> starts s ! i = Running \<Longrightarrow> svcLive s \<Longrightarrow>
     chan_send e (svcErrs s) = Sent ch \<Longrightarrow>
     env_rel s (s\<lparr>svcErrs := ch, starts := (starts s)[i := Returned]\<rparr>)"
| start_done: "i < length (starts s) \<Longrightarrow> starts s ! i = Running \<Longrightarrow>
     env_rel s (s\<lparr>starts := (starts s)[i := Returned]\<rparr>)"
| stop_done: "i < length (stops s) \<Longrightarrow> stops s ! i = InStop \<Longrightarrow>
     env_rel s (s\<lparr>stops := (stops s)[i := Stopped]\<rparr>)"
| ctx_ends: "parent s = None \<Longrightarrow> env_rel s (s\<lparr>parent := Some e\<rparr>)"
| signal_in: "g \<in> set (catchSignals (ep s)) \<Longrightarrow> env_rel s (s\<lparr>sigCh := Some g\<rparr>)"
| signal_dropped: "env_rel s s"
| shutdown: "env_rel s (s\<lparr>ep := Shutdown (ep s)\<rparr>)"
| tick: "0 \<le> d \<Longrightarrow> env_rel s (s\<lparr>now := now s + d\<rparr>)"

lemma run_thread_step: "run_thread s e = Some t \<Longrightarrow> own_step s t"
proof (cases e)
  case HookCall
  moreover assume "run_thread s e = Some t"
  ultimately show ?thesis
    by (auto simp: call_hook_def split: phase.splits list.splits if_splits intro!: own_step.hook_call)
next
  case (HookDone r)
  moreover assume "run_thread s e = Some t"
  ultimately show ?thesis
    by (cases r) (auto split: phase.splits list.splits if_splits intro: own_step.intros)
next
  case SelErr
  moreover assume "run_thread s e = Some t"
  ultimately show ?thesis
    by (auto split: phase.splits received.splits intro: own_step.intros)
qed (auto split: phase.splits list.splits if_splits option.splits intro: own_step.intros)

lemma env_step_rel: "env_step s e = Some t \<Longrightarrow> env_rel s t"
  by (cases e) (auto split: if_splits option.splits sent.splits intro: env_rel.intros)

lemma Run_step_rel: "Run_step s e = Some t \<Longrightarrow> own_step s t \<or> env_rel s t"
  by (auto simp: Run_step_def split: if_splits intro: run_thread_step env_step_rel)


section \<open>Invariants\<close>

subsection \<open>Order of the calls\<close>

text \<open>The earliest phase in which a call can be made.\<close>

fun hook_stage :: "hook_kind \<Rightarrow> nat" where
  "hook_stage HPreStart = 1"
| "hook_stage HPostStart = 3"
| "hook_stage HPreStop = 4"
| "hook_stage HPostStop = 6"

fun stage :: "'h obs \<Rightarrow> nat" where
  "stage (OHook k h c) = hook_stage k"
| "stage (OStart i) = 2"
| "stage (OStop i c) = 5"

fun phase_stage :: "'h phase \<Rightarrow> nat" where
  "phase_stage (PreStart hs) = 1"
| "phase_stage (Launching i) = 2"
| "phase_stage (PostStart hs) = 3"
| "phase_stage Waiting = 3"
| "phase_stage (PreStop hs) = 4"
| "phase_stage (Stopping i) = 5"
| "phase_stage Draining = 5"
| "phase_stage (PostStop hs) = 6"
| "phase_stage (Finished FailedPreStart r) = 1"
| "phase_stage (Finished FailedPostStart r) = 3"
| "phase_stage (Finished ShutDown r) = 6"

text \<open>
  Which call must come before which other one: the hooks are ordered among each other and
  before the Starts and Stops that are spawned after them. The call of a Start or a Stop is
  ordered before nothing.
\<close>

fun before :: "'h obs \<Rightarrow> 'h obs \<Rightarrow> bool" where
  "before (OHook k h c) x = (hook_stage k < stage x)"
| "before _ x = False"

definition ordered :: "'h run \<Rightarrow> bool" where
  "ordered s \<longleftrightarrow> sorted_wrt (\<lambda>x y. \<not> before y x) (log s) \<and> (\<forall>x \<in> set (log s). stage x \<le> phase_stage (pc s)) \<and>
     ((\<exists>i < length (starts s). starts s ! i \<noteq> NotStarted) \<longrightarrow> 2 \<le> phase_stage (pc s)) \<and>
     ((\<exists>i < length (stops s). stops s ! i \<noteq> NotCalled) \<longrightarrow> 5 \<le> phase_stage (pc s))"

lemma own_step_log:
  "own_step s t \<Longrightarrow> phase_stage (pc s) \<le> phase_stage (pc t) \<and>
     (log t = log s \<or> (\<exists>k h c. log t = log s @ [OHook k h c] \<and> hook_stage k = phase_stage (pc s)))"
  by (induction rule: own_step.induct) (auto simp: begin_stop_def elim: phase_kind.elims)

lemma own_step_spawns:
  "own_step s t \<Longrightarrow>
     (starts t = starts s \<or> (\<exists>i. starts t = (starts s)[i := Spawned] \<and> 2 \<le> phase_stage (pc s))) \<and>
     (stops t = stops s \<or> (\<exists>i. stops t = (stops s)[i := StopSpawned] \<and> 5 \<le> phase_stage (pc s)))"
  by (induction rule: own_step.induct) (auto simp: begin_stop_def)

lemma env_rel_frame:
  "env_rel s t \<Longrightarrow> pc t = pc s \<and> inHook t = inHook s \<and> cause t = cause s \<and> svcCanceled t = svcCanceled s \<and>
     deadline t = deadline s \<and> now s \<le> now t"
  by (induction rule: env_rel.induct) auto

lemma ordered_step: "ordered s \<Longrightarrow> own_step s t \<Longrightarrow> ordered t"
proof -
  assume o: "ordered s" and st: "own_step s t"
  then have le: "phase_stage (pc s) \<le> phase_stage (pc t)"
    and l: "log t = log s \<or> (\<exists>k h c. log t = log s @ [OHook k h c] \<and> hook_stage k = phase_stage (pc s))"
    by (auto dest: own_step_log)
  have "sorted_wrt (\<lambda>x y. \<not> before y x) (log t) \<and> (\<forall>x \<in> set (log t). stage x \<le> phase_stage (pc t))"
    using l o le by (force simp: ordered_def sorted_wrt_append)
  moreover have "(\<exists>i < length (starts t). starts t ! i \<noteq> NotStarted) \<longrightarrow> 2 \<le> phase_stage (pc t)"
    "(\<exists>i < length (stops t). stops t ! i \<noteq> NotCalled) \<longrightarrow> 5 \<le> phase_stage (pc t)"
    using own_step_spawns [OF st] o le by (auto simp: ordered_def)
  ultimately show ?thesis by (simp add: ordered_def)
qed

lemma ordered_env: "env_rel s t \<Longrightarrow> ordered s \<Longrightarrow> ordered t"
proof (induction rule: env_rel.induct)
  case (start_call i s)
  then have "2 \<le> phase_stage (pc s)" by (auto simp: ordered_def)
  with start_call show ?case by (auto simp: ordered_def sorted_wrt_append nth_list_update split: if_splits)
next
  case (stop_call i s)
  then have "5 \<le> phase_stage (pc s)" by (auto simp: ordered_def)
  with stop_call show ?case by (auto simp: ordered_def sorted_wrt_append nth_list_update split: if_splits)
next
  case (start_err i s e ch)
  then have "2 \<le> phase_stage (pc s)" by (auto simp: ordered_def)
  with start_err show ?case by (auto simp: ordered_def)
next
  case (start_done i s)
  then have "2 \<le> phase_stage (pc s)" by (auto simp: ordered_def)
  with start_done show ?case by (auto simp: ordered_def)
next
  case (stop_done i s)
  then have "5 \<le> phase_stage (pc s)" by (auto simp: ordered_def)
  with stop_done show ?case by (auto simp: ordered_def)
qed (auto simp: ordered_def)

interpretation ord: lts_invariant Run_step ordered
  by unfold_locales (auto dest!: Run_step_rel intro: ordered_step ordered_env)

subsection \<open>Hooks run in order and completely\<close>

fun registered :: "hook_kind \<Rightarrow> 'h entrypoint \<Rightarrow> 'h list" where
  "registered HPreStart e = onPreStart e"
| "registered HPostStart e = onPostStart e"
| "registered HPreStop e = onPreStop e"
| "registered HPostStop e = onPostStop e"

fun hook_of :: "hook_kind \<Rightarrow> 'h obs \<Rightarrow> 'h list" where
  "hook_of k (OHook k' h c) = (if k' = k then [h] else [])"
| "hook_of k _ = []"

definition hooks_of :: "hook_kind \<Rightarrow> 'h obs list \<Rightarrow> 'h list" where
  "hooks_of k l = concat (map (hook_of k) l)"

text \<open>The hooks of the current phase that have not been called.\<close>

definition uncalled :: "'h run \<Rightarrow> 'h list" where
  "uncalled s = (if inHook s then tl (hooks_left (pc s)) else hooks_left (pc s))"

definition hooks_ok :: "'h run \<Rightarrow> bool" where
  "hooks_ok s \<longleftrightarrow>
     (\<forall>k. prefix (hooks_of k (log s)) (registered k (ep s))) \<and>
     (\<forall>k. phase_kind (pc s) = Some k \<longrightarrow> prefix (hooks_of k (log s) @ uncalled s) (registered k (ep s))) \<and>
     (\<forall>k \<in> {HPreStart, HPostStart}. phase_kind (pc s) = Some k \<longrightarrow> hooks_of k (log s) @ uncalled s = registered k (ep s)) \<and>
     (2 \<le> phase_stage (pc s) \<longrightarrow> hooks_of HPreStart (log s) = onPreStart (ep s)) \<and>
     (pc s = Waiting \<or> 4 \<le> phase_stage (pc s) \<longrightarrow> hooks_of HPostStart (log s) = onPostStart (ep s)) \<and>
     (inHook s \<longrightarrow> hooks_left (pc s) \<noteq> [])"

lemma hooks_of_snoc [simp]: "hooks_of k (l @ [x]) = hooks_of k l @ hook_of k x"
  by (simp add: hooks_of_def)

lemma not_yet: "ordered s \<Longrightarrow> phase_stage (pc s) < hook_stage k \<Longrightarrow> hooks_of k (log s) = []"
proof -
  assume o: "ordered s" and k: "phase_stage (pc s) < hook_stage k"
  have "hook_of k x = []" if "x \<in> set (log s)" for x
    using o k that by (cases x) (force simp: ordered_def)+
  then show ?thesis by (simp add: hooks_of_def)
qed

lemma hooks_ok_own: "own_step s t \<Longrightarrow> ordered s \<Longrightarrow> hooks_ok s \<Longrightarrow> hooks_ok t"
proof (induction rule: own_step.induct)
  case (hook_call s h hs k c)
  then have u: "uncalled s = h # hs" "uncalled (s\<lparr>inHook := True, log := log s @ [OHook k h c]\<rparr>) = hs"
    by (simp_all add: uncalled_def)
  have "prefix (hooks_of k (log s) @ [h]) (registered k (ep s))"
    using hook_call u by (auto simp: hooks_ok_def prefix_def)
  then show ?case using hook_call u by (auto simp: hooks_ok_def elim: phase_kind.elims)
next
  case (launch_end s)
  then show ?case using not_yet [of s HPostStart] by (auto simp: hooks_ok_def uncalled_def)
next
  case (drained s)
  then show ?case using not_yet [of s HPostStop] by (auto simp: hooks_ok_def uncalled_def)
next
  case (sel_ctx s e)
  then show ?case using not_yet [of s HPreStop] by (auto simp: hooks_ok_def uncalled_def begin_stop_def)
next
  case (sel_signal s g)
  then show ?case using not_yet [of s HPreStop] by (auto simp: hooks_ok_def uncalled_def begin_stop_def)
next
  case (sel_err s e ch)
  then show ?case using not_yet [of s HPreStop] by (auto simp: hooks_ok_def uncalled_def begin_stop_def)
next
  case (sel_shutdown s)
  then show ?case using not_yet [of s HPreStop] by (auto simp: hooks_ok_def uncalled_def begin_stop_def)
qed (auto simp: hooks_ok_def uncalled_def dest: append_prefixD)

lemma env_rel_hooks:
  "env_rel s t \<Longrightarrow> hooks_of k (log t) = hooks_of k (log s) \<and> registered k (ep t) = registered k (ep s)"
  by (induction rule: env_rel.induct) (cases k; simp add: Shutdown_def)+

lemma hooks_ok_env: "env_rel s t \<Longrightarrow> hooks_ok s \<Longrightarrow> hooks_ok t"
proof -
  assume r: "env_rel s t" and h: "hooks_ok s"
  from env_rel_hooks [OF r] have l: "hooks_of k (log t) = hooks_of k (log s)"
    and g: "registered k (ep t) = registered k (ep s)" for k by auto
  from env_rel_frame [OF r] have f: "pc t = pc s" "inHook t = inHook s" "uncalled t = uncalled s"
    by (simp_all add: uncalled_def)
  from g [of HPreStart] g [of HPostStart] have o: "onPreStart (ep t) = onPreStart (ep s)"
    "onPostStart (ep t) = onPostStart (ep s)" by simp_all
  show ?thesis using h unfolding hooks_ok_def l g f o .
qed

interpretation hks: lts_invariant Run_step "\<lambda>s. ordered s \<and> hooks_ok s"
  by unfold_locales (auto dest!: Run_step_rel intro: ordered_step ordered_env hooks_ok_own hooks_ok_env)

subsection \<open>Goroutines and calls\<close>

text \<open>How many services Run has spawned the Start of, and how many it has looked at for their Stop.\<close>

fun launched :: "nat \<Rightarrow> 'h phase \<Rightarrow> nat" where
  "launched n (PreStart hs) = 0"
| "launched n (Finished FailedPreStart r) = 0"
| "launched n (Launching i) = i"
| "launched n _ = n"

fun visited :: "nat \<Rightarrow> 'h phase \<Rightarrow> nat" where
  "visited n (Stopping i) = i"
| "visited n Draining = n"
| "visited n (PostStop hs) = n"
| "visited n (Finished ShutDown r) = n"
| "visited n _ = 0"

definition nsvc :: "'h run \<Rightarrow> nat" where
  "nsvc s = length (services (ep s))"

definition stoppable :: "service list \<Rightarrow> nat \<Rightarrow> bool" where
  "stoppable svcs i \<longleftrightarrow> is_shutdown (svcs ! i)"

text \<open>Calls of the Start and of the Stop of a service.\<close>

fun is_start :: "nat \<Rightarrow> 'h obs \<Rightarrow> bool" where
  "is_start i (OStart j) = (j = i)"
| "is_start i _ = False"

fun is_stop :: "nat \<Rightarrow> 'h obs \<Rightarrow> bool" where
  "is_stop i (OStop j c) = (j = i)"
| "is_stop i _ = False"

definition start_calls :: "nat \<Rightarrow> 'h obs list \<Rightarrow> nat" where
  "start_calls i l = length (filter (is_start i) l)"

definition stop_calls :: "nat \<Rightarrow> 'h obs list \<Rightarrow> nat" where
  "stop_calls i l = length (filter (is_stop i) l)"

lemma calls_snoc [simp]:
  "start_calls i (l @ [x]) = start_calls i l + (if is_start i x then 1 else 0)"
  "stop_calls i (l @ [x]) = stop_calls i l + (if is_stop i x then 1 else 0)"
  by (simp_all add: start_calls_def stop_calls_def)

text \<open>
  Each list of goroutine states agrees with how far Run's thread is and with the calls in
  the log, and the error channel has room for every service that has not returned.
\<close>

definition starts_ok :: "nat \<Rightarrow> nat \<Rightarrow> start_state list \<Rightarrow> 'h obs list \<Rightarrow> bool" where
  "starts_ok n m xs l \<longleftrightarrow> length xs = n \<and> m \<le> n \<and>
     (\<forall>i. i < n \<longrightarrow> (xs ! i = NotStarted \<longleftrightarrow> m \<le> i)) \<and>
     (\<forall>i. start_calls i l = (if i < n \<and> xs ! i \<in> {Running, Returned} then 1 else 0))"

definition stops_ok :: "service list \<Rightarrow> nat \<Rightarrow> stop_state list \<Rightarrow> 'h obs list \<Rightarrow> bool" where
  "stops_ok svcs m xs l \<longleftrightarrow> length xs = length svcs \<and> m \<le> length svcs \<and>
     (\<forall>i. i < length svcs \<longrightarrow> (xs ! i = NotCalled \<longleftrightarrow> \<not> (i < m \<and> stoppable svcs i))) \<and>
     (\<forall>i. stop_calls i l = (if i < length svcs \<and> xs ! i \<in> {InStop, Stopped} then 1 else 0))"

definition errs_ok :: "nat \<Rightarrow> start_state list \<Rightarrow> err chan \<Rightarrow> bool" where
  "errs_ok n xs ch \<longleftrightarrow> \<not> closed ch \<and> cap ch = n \<and> length (buf ch) \<le> count_list xs Returned"

definition goroutines_ok :: "'h run \<Rightarrow> bool" where
  "goroutines_ok s \<longleftrightarrow>
     starts_ok (nsvc s) (launched (nsvc s) (pc s)) (starts s) (log s) \<and>
     stops_ok (services (ep s)) (visited (nsvc s) (pc s)) (stops s) (log s) \<and>
     errs_ok (nsvc s) (starts s) (svcErrs s)"

lemma count_list_move: "i < length xs \<Longrightarrow> xs ! i \<noteq> b \<Longrightarrow> a \<noteq> b \<Longrightarrow> count_list (xs[i := a]) b = count_list xs b"
  using count_list_update [of i xs a b] by simp

lemma starts_spawn:
  "starts_ok n m xs l \<Longrightarrow> m < n \<Longrightarrow> starts_ok n (Suc m) (xs[m := Spawned]) l \<and> xs ! m = NotStarted"
  by (auto simp: starts_ok_def nth_list_update)

lemma starts_call:
  "starts_ok n m xs l \<Longrightarrow> i < length xs \<Longrightarrow> xs ! i = Spawned \<Longrightarrow> starts_ok n m (xs[i := Running]) (l @ [OStart i])"
  by (auto simp: starts_ok_def nth_list_update)

lemma starts_return:
  "starts_ok n m xs l \<Longrightarrow> i < length xs \<Longrightarrow> xs ! i = Running \<Longrightarrow> starts_ok n m (xs[i := Returned]) l"
  by (auto simp: starts_ok_def nth_list_update)

lemma stops_spawn:
  "stops_ok svcs m xs l \<Longrightarrow> m < length svcs \<Longrightarrow> stoppable svcs m \<Longrightarrow> stops_ok svcs (Suc m) (xs[m := StopSpawned]) l"
  by (auto simp: stops_ok_def nth_list_update less_Suc_eq)

lemma stops_skip:
  "stops_ok svcs m xs l \<Longrightarrow> m < length svcs \<Longrightarrow> \<not> stoppable svcs m \<Longrightarrow> stops_ok svcs (Suc m) xs l"
  by (auto simp: stops_ok_def less_Suc_eq)

lemma stops_call:
  "stops_ok svcs m xs l \<Longrightarrow> i < length xs \<Longrightarrow> xs ! i = StopSpawned \<Longrightarrow> stops_ok svcs m (xs[i := InStop]) (l @ [OStop i c])"
  by (auto simp: stops_ok_def nth_list_update)

lemma stops_return:
  "stops_ok svcs m xs l \<Longrightarrow> i < length xs \<Longrightarrow> xs ! i = InStop \<Longrightarrow> stops_ok svcs m (xs[i := Stopped]) l"
  by (auto simp: stops_ok_def nth_list_update)

lemma goroutines_log:
  "starts_ok n m xs (l @ [OHook k h c]) = starts_ok n m xs l" "stops_ok svcs m ys (l @ [OHook k h c]) = stops_ok svcs m ys l"
  "starts_ok n m xs (l @ [OStop i c]) = starts_ok n m xs l" "stops_ok svcs m ys (l @ [OStart i]) = stops_ok svcs m ys l"
  by (simp_all add: starts_ok_def stops_ok_def)

lemma errs_recv: "errs_ok n xs ch \<Longrightarrow> chan_recv ch = Received e ch' \<Longrightarrow> errs_ok n xs ch'"
  by (auto simp: errs_ok_def chan_recv_def split: list.splits if_splits)

lemma errs_return: "errs_ok n xs ch \<Longrightarrow> i < length xs \<Longrightarrow> xs ! i = Running \<Longrightarrow> errs_ok n (xs[i := Returned]) ch"
  using count_list_update [of i xs Returned Returned] by (auto simp: errs_ok_def)

lemma errs_send:
  "errs_ok n xs ch \<Longrightarrow> i < length xs \<Longrightarrow> xs ! i = Running \<Longrightarrow> chan_send e ch = Sent ch' \<Longrightarrow>
   errs_ok n (xs[i := Returned]) ch'"
  using count_list_update [of i xs Returned Returned] by (auto simp: errs_ok_def chan_send_def split: if_splits)

lemma goroutines_own: "own_step s t \<Longrightarrow> goroutines_ok s \<Longrightarrow> goroutines_ok t"
proof (induction rule: own_step.induct)
  case (launch s i)
  then have "starts_ok (nsvc s) (Suc i) ((starts s)[i := Spawned]) (log s)" "starts s ! i = NotStarted"
    "i < length (starts s)" using starts_spawn [of "nsvc s" i "starts s" "log s"]
    by (auto simp: goroutines_ok_def nsvc_def starts_ok_def)
  with launch show ?case by (simp add: goroutines_ok_def nsvc_def errs_ok_def count_list_move)
next
  case (stop_spawn s i)
  then have "stops_ok (services (ep s)) (Suc i) ((stops s)[i := StopSpawned]) (log s)"
    by (intro stops_spawn) (auto simp: goroutines_ok_def stoppable_def)
  with stop_spawn show ?case by (simp add: goroutines_ok_def nsvc_def)
next
  case (stop_skip s i)
  then have "stops_ok (services (ep s)) (Suc i) (stops s) (log s)"
    by (intro stops_skip) (auto simp: goroutines_ok_def stoppable_def)
  with stop_skip show ?case by (simp add: goroutines_ok_def nsvc_def)
next
  case (sel_err s e ch)
  then have "errs_ok (nsvc s) (starts s) ch" by (auto simp: goroutines_ok_def intro: errs_recv)
  with sel_err show ?case by (simp add: goroutines_ok_def nsvc_def begin_stop_def)
qed (simp_all add: goroutines_ok_def nsvc_def begin_stop_def goroutines_log)

lemma goroutines_env: "env_rel s t \<Longrightarrow> goroutines_ok s \<Longrightarrow> goroutines_ok t"
proof (induction rule: env_rel.induct)
  case (start_call i s)
  then show ?case
    by (auto simp: goroutines_ok_def nsvc_def goroutines_log errs_ok_def count_list_move intro!: starts_call)
qed (auto simp: goroutines_ok_def nsvc_def goroutines_log Shutdown_def
    intro: starts_return stops_call stops_return errs_return errs_send)

interpretation gor: lts_invariant Run_step goroutines_ok
  by unfold_locales (auto dest!: Run_step_rel intro: goroutines_own goroutines_env)


subsection \<open>Why Run stopped\<close>

text \<open>Some service's Start returned this error.\<close>

definition start_failed :: "event list \<Rightarrow> err \<Rightarrow> bool" where
  "start_failed es e \<longleftrightarrow> (\<exists>i. StartReturns i (Some e) \<in> set es)"

lemma start_failed_snoc [simp]:
  "start_failed (es @ [x]) e \<longleftrightarrow> start_failed es e \<or> (\<exists>i. x = StartReturns i (Some e))"
  by (auto simp: start_failed_def)

text \<open>A shutdown cause is accounted for by an event of the run (or by the initial state).\<close>

definition explained :: "'h entrypoint \<Rightarrow> ctx \<Rightarrow> event list \<Rightarrow> err option \<Rightarrow> bool" where
  "explained e0 c0 es c \<longleftrightarrow>
     (case c of
        None \<Rightarrow> shutdownDone e0 \<or> ShutdownCall \<in> set es
      | Some e \<Rightarrow>
          (\<exists>x. e = CtxErr x \<and> (c0 = Some x \<or> CtxEnds x \<in> set es)) \<or>
          (\<exists>g. e = signal_err g \<and> g \<in> set (catchSignals e0) \<and> Signal g \<in> set es) \<or>
          start_failed es e)"

definition sources_ok :: "'h entrypoint \<Rightarrow> ctx \<Rightarrow> event list \<Rightarrow> 'h run \<Rightarrow> bool" where
  "sources_ok e0 c0 es s \<longleftrightarrow>
     catchSignals (ep s) = catchSignals e0 \<and>
     (shutdownDone (ep s) \<longrightarrow> shutdownDone e0 \<or> ShutdownCall \<in> set es) \<and>
     (\<forall>x. parent s = Some x \<longrightarrow> c0 = Some x \<or> CtxEnds x \<in> set es) \<and>
     (\<forall>g. sigCh s = Some g \<longrightarrow> g \<in> set (catchSignals e0) \<and> Signal g \<in> set es) \<and>
     (\<forall>e \<in> set (buf (svcErrs s)). start_failed es e)"

definition result_ok :: "'h entrypoint \<Rightarrow> ctx \<Rightarrow> event list \<Rightarrow> 'h run \<Rightarrow> bool" where
  "result_ok e0 c0 es s \<longleftrightarrow>
     (4 \<le> phase_stage (pc s) \<longrightarrow> explained e0 c0 es (cause s) \<and> svcCanceled s) \<and>
     (\<forall>x r. pc s = Finished x r \<longrightarrow>
        (case x of
           FailedPreStart \<Rightarrow> \<exists>e. r = Some (Wrap ''pre-start'' e) \<and> HookDone (Some e) \<in> set es
         | FailedPostStart \<Rightarrow> svcCanceled s \<and> (\<exists>e. r = Some (Wrap ''post-start'' e) \<and> HookDone (Some e) \<in> set es)
         | ShutDown \<Rightarrow> r = cause s))"

lemma explained_snoc: "explained e0 c0 es c \<Longrightarrow> explained e0 c0 (es @ [x]) c"
  by (auto simp: explained_def split: option.splits)

lemma sources_ok_snoc: "sources_ok e0 c0 es s \<Longrightarrow> sources_ok e0 c0 (es @ [x]) s"
  by (auto simp: sources_ok_def)

lemma own_step_frame:
  "own_step s t \<Longrightarrow> ep t = ep s \<and> parent t = parent s \<and> now t = now s \<and>
     (sigCh t = sigCh s \<or> sigCh t = None) \<and> set (buf (svcErrs t)) \<subseteq> set (buf (svcErrs s))"
  by (induction rule: own_step.induct)
    (auto simp: begin_stop_def chan_recv_def split: list.splits if_splits)

lemma sources_ok_own:
  assumes "own_step s t" and "sources_ok e0 c0 es s"
  shows "sources_ok e0 c0 es t"
proof -
  from own_step_frame [OF assms(1)]
  have "ep t = ep s" "parent t = parent s" "sigCh t = sigCh s \<or> sigCh t = None"
    "set (buf (svcErrs t)) \<subseteq> set (buf (svcErrs s))" by auto
  with assms(2) show ?thesis by (auto simp: sources_ok_def)
qed

lemma sources_ok_env:
  assumes "env_step s e = Some t" and "sources_ok e0 c0 es s"
  shows "sources_ok e0 c0 (es @ [e]) t"
proof (cases e)
  case (StartReturns i r)
  with assms(1) have "parent t = parent s" "ep t = ep s" "sigCh t = sigCh s"
    "buf (svcErrs t) = buf (svcErrs s) \<or> (\<exists>x. r = Some x \<and> buf (svcErrs t) = buf (svcErrs s) @ [x])"
    by (auto simp: chan_send_def split: if_splits option.splits)
  with sources_ok_snoc [OF assms(2), of e] StartReturns show ?thesis
    by (auto simp: sources_ok_def)
next
  case (Signal g)
  with assms show ?thesis by (auto simp: sources_ok_def split: if_splits)
qed (use assms in \<open>auto simp: sources_ok_def Shutdown_def split: if_splits\<close>)

lemma result_ok_env:
  assumes "env_step s e = Some t" and "result_ok e0 c0 es s"
  shows "result_ok e0 c0 (es @ [e]) t"
proof -
  from env_rel_frame [OF env_step_rel [OF assms(1)]]
  have f: "pc t = pc s" "cause t = cause s" "svcCanceled t = svcCanceled s" by auto
  with assms(2) show ?thesis
    unfolding result_ok_def f by (auto split: exit_path.splits intro: explained_snoc)
qed

text \<open>The transitions of Run's own thread, with the one event that carries a result.\<close>

lemma run_thread_hook_fail:
  assumes "run_thread s e = Some t" and "pc t = Finished x r" and "x \<noteq> ShutDown"
  shows "\<exists>f. e = HookDone (Some f) \<and>
     (x = FailedPreStart \<and> r = Some (Wrap ''pre-start'' f) \<or>
      x = FailedPostStart \<and> r = Some (Wrap ''post-start'' f) \<and> svcCanceled t)"
proof (cases e)
  case (HookDone h)
  with assms show ?thesis
    by (cases h) (auto simp: Let_def split: phase.splits list.splits if_splits)
next
  case SelErr
  with assms show ?thesis
    by (auto simp: begin_stop_def split: phase.splits received.splits)
qed (use assms in \<open>auto simp: begin_stop_def call_hook_def split: phase.splits list.splits if_splits option.splits\<close>)

lemma own_step_cause:
  "own_step s t \<Longrightarrow> 4 \<le> phase_stage (pc t) \<Longrightarrow>
     (4 \<le> phase_stage (pc s) \<and> cause t = cause s \<and> svcCanceled t = svcCanceled s) \<or>
     (svcCanceled t \<and>
       ((\<exists>x. parent s = Some x \<and> cause t = Some (CtxErr x)) \<or>
        (\<exists>g. sigCh s = Some g \<and> cause t = Some (signal_err g)) \<or>
        (\<exists>e \<in> set (buf (svcErrs s)). cause t = Some e) \<or>
        (shutdownDone (ep s) \<and> cause t = None)))"
  by (induction rule: own_step.induct)
    (auto simp: begin_stop_def chan_recv_def split: list.splits if_splits)

lemma own_step_finished: "own_step s t \<Longrightarrow> pc t = Finished ShutDown r \<Longrightarrow> r = cause t"
  by (induction rule: own_step.induct) (auto simp: begin_stop_def)

lemma result_ok_own:
  assumes "run_thread s e = Some t" and "sources_ok e0 c0 es s" and "result_ok e0 c0 es s"
  shows "result_ok e0 c0 (es @ [e]) t"
proof -
  from assms(1) have o: "own_step s t" by (rule run_thread_step)
  have "explained e0 c0 (es @ [e]) (cause t) \<and> svcCanceled t" if "4 \<le> phase_stage (pc t)"
  proof -
    have "explained e0 c0 es (cause t) \<and> svcCanceled t"
      using own_step_cause [OF o that] assms(2,3)
      by (auto simp: explained_def sources_ok_def result_ok_def)
    then show ?thesis by (blast intro: explained_snoc)
  qed
  moreover have "\<exists>f. e = HookDone (Some f) \<and>
     (x = FailedPreStart \<and> r = Some (Wrap ''pre-start'' f) \<or>
      x = FailedPostStart \<and> r = Some (Wrap ''post-start'' f) \<and> svcCanceled t)"
    if "pc t = Finished x r" and "x \<noteq> ShutDown" for x r
    using run_thread_hook_fail [OF assms(1) that] .
  ultimately show ?thesis
    using own_step_finished [OF o] unfolding result_ok_def
    by (auto split: exit_path.splits)
qed

interpretation why: lts_history Run_step "\<lambda>es s. sources_ok e0 c0 es s \<and> result_ok e0 c0 es s" for e0 c0
proof
  fix es s e t
  assume "sources_ok e0 c0 es s \<and> result_ok e0 c0 es s" and "Run_step s e = Some t"
  then show "sources_ok e0 c0 (es @ [e]) t \<and> result_ok e0 c0 (es @ [e]) t"
    by (cases "own_event e")
      (auto simp: Run_step_def intro: sources_ok_env result_ok_env result_ok_own
        sources_ok_snoc sources_ok_own run_thread_step)
qed

lemma why_init: "sources_ok e0 c0 [] (init_run e0 c0) \<and> result_ok e0 c0 [] (init_run e0 c0)"
  by (simp add: sources_ok_def result_ok_def init_run_def)


subsection \<open>How the stop phase ends\<close>

fun past_drain :: "'h phase \<Rightarrow> bool" where
  "past_drain (PostStop hs) = True"
| "past_drain (Finished ShutDown r) = True"
| "past_drain _ = False"

fun stop_ctx_ok :: "'h obs \<Rightarrow> bool" where
  "stop_ctx_ok (OHook HPreStop h c) = (c \<noteq> Some Canceled)"
| "stop_ctx_ok (OStop i c) = (c \<noteq> Some Canceled)"
| "stop_ctx_ok (OHook HPostStop h c) = (c = None)"
| "stop_ctx_ok _ = True"

definition stop_ok :: "'h run \<Rightarrow> bool" where
  "stop_ok s \<longleftrightarrow> (past_drain (pc s) \<longrightarrow> allDone s \<or> deadline s \<le> now s) \<and>
     (\<forall>x \<in> set (log s). stop_ctx_ok x)"

lemma stopCtx_not_canceled [simp]: "stopCtx s \<noteq> Some Canceled"
  by (simp add: stopCtx_def)

lemma allDone_update:
  "allDone (s\<lparr>pc := p\<rparr>) = allDone s" "allDone (s\<lparr>log := l\<rparr>) = allDone s" "allDone (s\<lparr>inHook := b\<rparr>) = allDone s"
  by (simp_all add: allDone_def)

lemma allDone_nth:
  "allDone s \<Longrightarrow> (i < length (starts s) \<longrightarrow> starts s ! i = Returned) \<and>
     (i < length (stops s) \<longrightarrow> stops s ! i = NotCalled \<or> stops s ! i = Stopped)"
  by (auto simp: allDone_def)

lemma hook_ctx_ok: "hook_ctx s k c \<Longrightarrow> stop_ctx_ok (OHook k h c)"
  by (cases k) auto

lemma stop_ok_own: "own_step s t \<Longrightarrow> stop_ok s \<Longrightarrow> stop_ok t"
  by (induction rule: own_step.induct)
    (auto simp: stop_ok_def begin_stop_def allDone_update hook_ctx_ok, auto simp: stopCtx_def split: if_splits)

lemma env_rel_allDone: "env_rel s t \<Longrightarrow> allDone s \<Longrightarrow> allDone t"
proof (induction rule: env_rel.induct)
  case (start_call i s)
  then have "Spawned \<in> set (starts s)" by (metis nth_mem)
  with start_call show ?case by (auto simp: allDone_def)
next
  case (stop_call i s)
  then have "StopSpawned \<in> set (stops s)" by (metis nth_mem)
  with stop_call show ?case by (auto simp: allDone_def)
qed (auto simp: allDone_def dest: set_update_subset_insert [THEN subsetD])

lemma stop_ok_env: "env_rel s t \<Longrightarrow> stop_ok s \<Longrightarrow> stop_ok t"
proof -
  assume r: "env_rel s t" and s: "stop_ok s"
  have "\<forall>x \<in> set (log t). stop_ctx_ok x"
    using r s by (induction rule: env_rel.induct) (auto simp: stop_ok_def)
  then show ?thesis
    using s env_rel_frame [OF r] env_rel_allDone [OF r] by (auto simp: stop_ok_def)
qed

interpretation stp: lts_invariant Run_step stop_ok
  by unfold_locales (auto dest!: Run_step_rel intro: stop_ok_own stop_ok_env)


subsection \<open>Progress of Run's thread\<close>

text \<open>How many actions of its own Run has left.\<close>

fun own_msr :: "'h entrypoint \<Rightarrow> 'h phase \<Rightarrow> nat" where
  "own_msr e (Finished x r) = 0"
| "own_msr e (PostStop hs) = length hs + 1"
| "own_msr e Draining = length (onPostStop e) + 2"
| "own_msr e (Stopping i) = (length (services e) - i) + length (onPostStop e) + 3"
| "own_msr e (PreStop hs) = length hs + length (services e) + length (onPostStop e) + 4"
| "own_msr e Waiting = length (onPreStop e) + length (services e) + length (onPostStop e) + 5"
| "own_msr e (PostStart hs) =
     length hs + length (onPreStop e) + length (services e) + length (onPostStop e) + 6"
| "own_msr e (Launching i) = (length (services e) - i) + length (onPostStart e) +
     length (onPreStop e) + length (services e) + length (onPostStop e) + 7"
| "own_msr e (PreStart hs) = length hs + length (services e) + length (onPostStart e) +
     length (onPreStop e) + length (services e) + length (onPostStop e) + 8"

text \<open>A hook takes two actions, its call and its return.\<close>

definition budget :: "'h run \<Rightarrow> nat" where
  "budget s = 2 * own_msr (ep s) (pc s) + (if inHook s then 0 else 1)"

lemma own_step_msr: "own_step s t \<Longrightarrow> budget t < budget s"
  by (induction rule: own_step.induct) (auto simp: begin_stop_def budget_def)

lemma own_msr_Shutdown [simp]: "own_msr (Shutdown e) p = own_msr e p"
  by (cases p) (simp_all add: Shutdown_def)

lemma env_rel_msr: "env_rel s t \<Longrightarrow> budget t = budget s"
  by (induction rule: env_rel.induct) (auto simp: budget_def)

interpretation bud: lts_budget Run_step "\<lambda>s. True" budget own_event
  by unfold_locales
    (auto simp: Run_step_def dest!: run_thread_step env_step_rel intro: own_step_msr simp: env_rel_msr)

text \<open>Something Run waits for has happened.\<close>

definition triggered :: "'h run \<Rightarrow> bool" where
  "triggered s \<longleftrightarrow> parent s \<noteq> None \<or> sigCh s \<noteq> None \<or> buf (svcErrs s) \<noteq> [] \<or> shutdownDone (ep s)"

text \<open>
  Run's thread can act by itself. The return of a hook is not counted: it is up to the hook,
  which Run calls without a bound on its time.
\<close>

definition can_move :: "'h run \<Rightarrow> bool" where
  "can_move s \<longleftrightarrow> (\<exists>e. own_event e \<and> (\<forall>r. e \<noteq> HookDone r) \<and> Run_step s e \<noteq> None)"

lemma own_enabled: "own_event e \<Longrightarrow> \<forall>r. e \<noteq> HookDone r \<Longrightarrow> run_thread s e \<noteq> None \<Longrightarrow> can_move s"
  unfolding can_move_def Run_step_def by auto

lemmas proceeds = own_enabled [where e = Proceed, simplified] own_enabled [where e = HookCall, simplified]
  own_enabled [where e = LaunchNext, simplified] own_enabled [where e = StopNext, simplified]
  own_enabled [where e = SelCtx, simplified] own_enabled [where e = SelSignal, simplified]
  own_enabled [where e = SelErr, simplified] own_enabled [where e = SelShutdown, simplified]
  own_enabled [where e = SelAllDone, simplified] own_enabled [where e = SelTimeout, simplified]

lemma run_progress:
  assumes "goroutines_ok s" and "\<not> is_finished (pc s)" and "\<not> inHook s"
    and "pc s = Waiting \<Longrightarrow> triggered s" and "pc s = Draining \<Longrightarrow> allDone s \<or> deadline s \<le> now s"
  shows "can_move s"
proof (cases "pc s")
  case (PreStart hs)
  with assms(3) show ?thesis by (cases hs) (auto simp: call_hook_def intro: proceeds(1,2))
next
  case (Launching i)
  with assms(1) have "i \<le> length (services (ep s))" by (simp add: goroutines_ok_def starts_ok_def nsvc_def)
  with Launching show ?thesis
    by (cases "i = length (services (ep s))") (auto intro: proceeds(1,3))
next
  case (PostStart hs)
  with assms(3) show ?thesis by (cases hs) (auto simp: call_hook_def intro: proceeds(1,2))
next
  case Waiting
  with assms(4) consider "parent s \<noteq> None" | "sigCh s \<noteq> None" | "buf (svcErrs s) \<noteq> []" | "shutdownDone (ep s)"
    by (auto simp: triggered_def)
  then show ?thesis
    using Waiting by cases (auto simp: chan_recv_def neq_Nil_conv intro: proceeds(5-8))
next
  case (PreStop hs)
  with assms(3) show ?thesis by (cases hs) (auto simp: call_hook_def intro: proceeds(1,2))
next
  case (Stopping i)
  with assms(1) have "i \<le> length (services (ep s))" by (simp add: goroutines_ok_def stops_ok_def)
  with Stopping show ?thesis
    by (cases "i = length (services (ep s))"; cases "is_shutdown (services (ep s) ! i)")
      (auto intro: proceeds(1,4))
next
  case Draining
  with assms(5) show ?thesis by (auto simp: stopCtx_def intro: proceeds(9,10))
next
  case (PostStop hs)
  with assms(3) show ?thesis by (cases hs) (auto simp: call_hook_def intro: proceeds(1,2))
qed (use assms(2) in simp)


subsection \<open>The clock\<close>

text \<open>The time that passes in a sequence of events, and the events by which Run leaves its select.\<close>

fun tick :: "event \<Rightarrow> duration" where
  "tick (Tick d) = d"
| "tick _ = 0"

definition elapsed :: "event list \<Rightarrow> duration" where
  "elapsed es = sum_list (map tick es)"

definition is_trigger :: "event \<Rightarrow> bool" where
  "is_trigger x \<longleftrightarrow> x \<in> {SelCtx, SelSignal, SelErr, SelShutdown}"

lemma elapsed_simps [simp]:
  "elapsed [] = 0" "elapsed (x # es) = tick x + elapsed es" "elapsed (es @ fs) = elapsed es + elapsed fs"
  by (simp_all add: elapsed_def)

lemma tick_trigger: "is_trigger x \<Longrightarrow> tick x = 0"
  by (auto simp: is_trigger_def)

text \<open>The deadline of the stop context is the time of the trigger plus the shutdown timeout.\<close>

definition deadline_set :: "'h entrypoint \<Rightarrow> event list \<Rightarrow> duration \<Rightarrow> bool" where
  "deadline_set e es d \<longleftrightarrow>
     (\<exists>es1 x es2. es = es1 @ x # es2 \<and> is_trigger x \<and> d = elapsed es1 + shutdownTimeout e)"

definition timing :: "'h entrypoint \<Rightarrow> event list \<Rightarrow> 'h run \<Rightarrow> bool" where
  "timing e es s \<longleftrightarrow> now s = elapsed es \<and> shutdownTimeout (ep s) = shutdownTimeout e \<and>
     (4 \<le> phase_stage (pc s) \<longrightarrow> deadline_set e es (deadline s)) \<and>
     (past_drain (pc s) \<longrightarrow> allDone s \<or> SelTimeout \<in> set es)"

lemma deadline_set_snoc: "deadline_set e es d \<Longrightarrow> deadline_set e (es @ [y]) d"
  unfolding deadline_set_def by (metis append.assoc append_Cons)

lemma run_thread_deadline:
  "run_thread s x = Some t \<Longrightarrow> 4 \<le> phase_stage (pc t) \<Longrightarrow>
     is_trigger x \<and> deadline t = now s + shutdownTimeout (ep s) \<or> 4 \<le> phase_stage (pc s) \<and> deadline t = deadline s"
  by (cases x) (auto simp: call_hook_def begin_stop_def is_trigger_def
      split: phase.splits list.splits if_splits option.splits received.splits)

lemma run_thread_drained:
  "run_thread s x = Some t \<Longrightarrow> past_drain (pc t) \<Longrightarrow> x \<noteq> SelTimeout \<Longrightarrow> allDone t \<or> past_drain (pc s) \<and> allDone t = allDone s"
  by (cases x) (auto simp: call_hook_def begin_stop_def allDone_def
      split: phase.splits list.splits if_splits option.splits received.splits)

lemma run_thread_tick: "run_thread s x = Some t \<Longrightarrow> tick x = 0"
  by (cases x) auto

lemma env_step_now:
  "env_step s x = Some t \<Longrightarrow> now t = now s + tick x \<and> shutdownTimeout (ep t) = shutdownTimeout (ep s)"
  by (cases x) (auto simp: Shutdown_def split: if_splits option.splits sent.splits)

lemma timing_own:
  assumes "run_thread s x = Some t" and "timing e es s"
  shows "timing e (es @ [x]) t"
proof -
  from own_step_frame [OF run_thread_step [OF assms(1)]] have f: "now t = now s" "ep t = ep s" by auto
  have n: "now s = elapsed es" "shutdownTimeout (ep s) = shutdownTimeout e" using assms(2) by (auto simp: timing_def)
  have "deadline_set e (es @ [x]) (deadline t)" if "4 \<le> phase_stage (pc t)"
    using run_thread_deadline [OF assms(1) that]
  proof
    assume "is_trigger x \<and> deadline t = now s + shutdownTimeout (ep s)"
    then show ?thesis unfolding deadline_set_def n by blast
  next
    assume "4 \<le> phase_stage (pc s) \<and> deadline t = deadline s"
    with assms(2) show ?thesis by (auto simp: timing_def intro: deadline_set_snoc)
  qed
  moreover have "past_drain (pc t) \<longrightarrow> allDone t \<or> SelTimeout \<in> set (es @ [x])"
    using run_thread_drained [OF assms(1)] assms(2) by (auto simp: timing_def)
  ultimately show ?thesis using f n run_thread_tick [OF assms(1)] by (simp add: timing_def)
qed

lemma timing_env:
  assumes "env_step s x = Some t" and "timing e es s"
  shows "timing e (es @ [x]) t"
proof -
  note r = env_step_rel [OF assms(1)]
  from env_rel_frame [OF r] have f: "pc t = pc s" "deadline t = deadline s" by auto
  with assms(2) env_step_now [OF assms(1)] env_rel_allDone [OF r] show ?thesis
    by (auto simp: timing_def deadline_set_snoc)
qed

interpretation tmg: lts_history Run_step "timing e" for e
  by unfold_locales (auto simp: Run_step_def split: if_splits intro: timing_own timing_env)


subsection \<open>What holds of every run\<close>

lemma init_goroutines: "goroutines_ok (init_run e c)"
  by (simp add: goroutines_ok_def starts_ok_def stops_ok_def errs_ok_def init_run_def nsvc_def
      start_calls_def stop_calls_def)

lemma init_hooks: "ordered (init_run e c) \<and> hooks_ok (init_run e c)"
  by (auto simp: ordered_def hooks_ok_def init_run_def hooks_of_def uncalled_def)

lemma reached:
  assumes "Run (init_run e c) es = Some s"
  shows "ordered s" and "hooks_ok s" and "goroutines_ok s" and "stop_ok s" and "timing e es s"
    and "sources_ok e c es s" and "result_ok e c es s"
    and "length (filter own_event es) \<le> 2 * own_msr e (PreStart (onPreStart e)) + 1"
proof -
  from assms have run: "lts_run Run_step (init_run e c) es = Some s" by (simp add: Run_def)
  show "ordered s" and "hooks_ok s" using hks.run_inv [OF init_hooks run] by auto
  show "goroutines_ok s" by (rule gor.run_inv [OF init_goroutines run])
  show "stop_ok s" by (rule stp.run_inv [OF _ run]) (simp add: stop_ok_def init_run_def)
  show "timing e es s" by (rule tmg.run_hist [OF _ run]) (simp add: timing_def init_run_def)
  show "sources_ok e c es s" and "result_ok e c es s" using why.run_hist [OF why_init run] by auto
  show "length (filter own_event es) \<le> 2 * own_msr e (PreStart (onPreStart e)) + 1"
    using bud.run_budget [OF TrueI run] by (simp add: init_run_def budget_def)
qed

text \<open>What was registered does not change during Run.\<close>

definition same_setup :: "'h entrypoint \<Rightarrow> 'h run \<Rightarrow> bool" where
  "same_setup e s \<longleftrightarrow> services (ep s) = services e \<and> (\<forall>k. registered k (ep s) = registered k e)"

lemma setup_own: "own_step s t \<Longrightarrow> same_setup e s \<Longrightarrow> same_setup e t"
  by (auto dest: own_step_frame simp: same_setup_def)

lemma setup_env: "env_rel s t \<Longrightarrow> same_setup e s \<Longrightarrow> same_setup e t"
  using env_rel_hooks [of s t] by (auto elim!: env_rel.cases simp: Shutdown_def same_setup_def)

interpretation sv: lts_invariant Run_step "same_setup e" for e
  by unfold_locales (metis Run_step_rel setup_own setup_env)

lemma setup_const:
  assumes "Run (init_run e c) es = Some s"
  shows "services (ep s) = services e" and "registered k (ep s) = registered k e"
proof -
  have "same_setup e s"
  proof (rule sv.run_inv)
    show "lts_run Run_step (init_run e c) es = Some s" using assms by (simp add: Run_def)
  qed (simp add: same_setup_def init_run_def)
  then show "services (ep s) = services e" and "registered k (ep s) = registered k e"
    by (simp_all add: same_setup_def)
qed


section \<open>Properties\<close>

text \<open>
  A run used by the witnesses: two services of which the first implements Shutdown, one
  hook of each kind; the second Start is called while the post-start hook already runs, and the
  second service fails, which shuts everything down.
\<close>

definition demo_ep :: "nat entrypoint" where
  "demo_ep = New [WithServices [\<lparr>svc_name = ''http'', is_shutdown = True\<rparr>],
     WithServices [\<lparr>svc_name = ''job'', is_shutdown = False\<rparr>],
     WithPreStart 1, WithPostStart 2, WithPreStop 3, WithPostStop 4, WithShutdownTimeout 10]"

definition demo_up :: "event list" where
  "demo_up = [HookCall, HookDone None, Proceed, LaunchNext, LaunchNext, StartCalls 0, Proceed,
     HookCall, StartCalls 1, HookDone None, Proceed]"

definition demo_down :: "event list" where
  "demo_down = [StartReturns 1 (Some (ErrNew ''boom'')), Tick 3, SelErr, HookCall, HookDone None, Proceed,
     StopNext, StopNext, Proceed, StopCalls 0, StartReturns 0 None, StopReturns 0 None, SelAllDone,
     HookCall, HookDone None, Proceed]"

definition demo_end :: "nat run" where
  "demo_end = \<lparr>ep = demo_ep, pc = Finished ShutDown (Some (ErrNew ''boom'')), inHook = False,
     starts = [Returned, Returned], svcErrs = \<lparr>buf = [], cap = 2, closed = False\<rparr>,
     svcCanceled = True, stops = [Stopped, NotCalled], parent = None, sigCh = None, now = 3,
     deadline = 13, cause = Some (ErrNew ''boom''),
     log = [OHook HPreStart 1 None, OStart 0, OHook HPostStart 2 None, OStart 1,
            OHook HPreStop 3 None, OStop 0 None, OHook HPostStop 4 None]\<rparr>"

lemmas demo_simps = demo_ep_def demo_up_def demo_down_def demo_end_def New_def init_run_def
  Run_def Run_step_def begin_stop_def chan_recv_def chan_send_def svcLive_def allDone_def stopCtx_def call_hook_def

lemma ep_demo_run: "Run (init_run demo_ep None) (demo_up @ demo_down) = Some demo_end"
  by (simp add: demo_simps numeral_2_eq_2)

text \<open>
  C1. The lifecycle order that Run guarantees, in every interleaving of Run's thread, the
  hooks, the Start and Stop goroutines, the signals and the clock. A pre-start hook is never
  called after any other call; a post-start hook never after a pre-stop hook, a Stop or a
  post-stop hook; a pre-stop hook never after a Stop or a post-stop hook. The hooks of each kind
  are called in the order of their registration, each at most once. Before the first Start
  (and every later kind of call) all pre-start hooks were called, and before the first pre-stop hook, Stop or
  post-stop hook all post-start hooks. A Start is not ordered before the post-start hooks, nor a
  Stop before the post-stop hooks: their goroutines may be late.
\<close>

theorem entrypoint_order:
  assumes "Run (init_run e c) es = Some s"
  shows "sorted_wrt (\<lambda>x y. \<not> before y x) (log s) \<and>
         (\<forall>k. prefix (hooks_of k (log s)) (registered k e)) \<and>
         (\<forall>x \<in> set (log s). 2 \<le> stage x \<longrightarrow> hooks_of HPreStart (log s) = onPreStart e) \<and>
         (\<forall>x \<in> set (log s). 4 \<le> stage x \<longrightarrow> hooks_of HPostStart (log s) = onPostStart e)"
proof -
  have r: "registered k (ep s) = registered k e" for k by (rule setup_const [OF assms])
  have o: "onPreStart (ep s) = onPreStart e" "onPostStart (ep s) = onPostStart e"
    using r [of HPreStart] r [of HPostStart] by simp_all
  have "\<forall>x \<in> set (log s). stage x \<le> phase_stage (pc s)"
    using reached(1) [OF assms] by (simp add: ordered_def)
  then show ?thesis
    using reached(1,2) [OF assms] unfolding ordered_def hooks_ok_def r o by (meson order_trans)
qed

theorem entrypoint_order_witness:
  "Run (init_run demo_ep None) (demo_up @ demo_down) = Some demo_end \<and>
   hooks_of HPreStart (log demo_end) = [1] \<and> hooks_of HPostStart (log demo_end) = [2] \<and>
   sorted_wrt (\<lambda>x y. \<not> before y x) (log demo_end)"
proof -
  have "OStop 0 None \<in> set (log demo_end)" by (simp add: demo_end_def)
  moreover have "onPreStart demo_ep = [1]" "onPostStart demo_ep = [2]" by (simp_all add: demo_ep_def New_def)
  ultimately show ?thesis using ep_demo_run entrypoint_order [OF ep_demo_run] by force
qed

text \<open>
  C2. Which calls were made when Run has returned. No Start and no Stop is ever called twice.
  After a pre-start failure no service was started, and only a regular shutdown stops services, and
  only those that implement Shutdown. Otherwise every Start (and at a regular shutdown every Stop)
  was called, or its goroutine was spawned and has not come to the call yet. When the regular
  shutdown did not run into its timeout, every service's Start was called exactly once and has
  returned, and so was and has the Stop of every service that implements Shutdown. In the two
  failure cases no pre-stop and no post-stop hook ran.
\<close>

theorem entrypoint_calls:
  assumes "Run (init_run e c) es = Some s" and "pc s = Finished x r"
  shows "(\<forall>i. start_calls i (log s) \<le> (if x \<noteq> FailedPreStart \<and> i < length (services e) then 1 else 0) \<and>
              stop_calls i (log s) \<le>
                (if x = ShutDown \<and> i < length (services e) \<and> stoppable (services e) i then 1 else 0)) \<and>
         (\<forall>i < length (services e).
            (x \<noteq> FailedPreStart \<longrightarrow> start_calls i (log s) = 1 \<or> starts s ! i = Spawned) \<and>
            (x = ShutDown \<and> stoppable (services e) i \<longrightarrow> stop_calls i (log s) = 1 \<or> stops s ! i = StopSpawned) \<and>
            (x = ShutDown \<and> SelTimeout \<notin> set es \<longrightarrow>
               start_calls i (log s) = 1 \<and> starts s ! i = Returned \<and>
               (stoppable (services e) i \<longrightarrow> stop_calls i (log s) = 1 \<and> stops s ! i = Stopped))) \<and>
         (x \<noteq> ShutDown \<longrightarrow> hooks_of HPreStop (log s) = [] \<and> hooks_of HPostStop (log s) = [])"
proof -
  note sv = setup_const(1) [OF assms(1)]
  have st: "starts_ok (length (services e)) (launched (length (services e)) (pc s)) (starts s) (log s)"
    and sp: "stops_ok (services e) (visited (length (services e)) (pc s)) (stops s) (log s)"
    using reached(3) [OF assms(1)] sv by (simp_all add: goroutines_ok_def nsvc_def)
  have late: "start_calls i (log s) = 1 \<or> starts s ! i = Spawned"
    if "i < length (services e)" "x \<noteq> FailedPreStart" for i
    using st that assms(2) by (cases x; cases "starts s ! i") (auto simp: starts_ok_def)
  have lates: "stop_calls i (log s) = 1 \<or> stops s ! i = StopSpawned"
    if "i < length (services e)" "x = ShutDown" "stoppable (services e) i" for i
    using sp that assms(2) by (cases "stops s ! i") (auto simp: stops_ok_def)
  have d: "allDone s" if "x = ShutDown" "SelTimeout \<notin> set es"
    using reached(5) [OF assms(1)] assms(2) that by (auto simp: timing_def)
  have all: "start_calls i (log s) = 1 \<and> starts s ! i = Returned \<and>
      (stoppable (services e) i \<longrightarrow> stop_calls i (log s) = 1 \<and> stops s ! i = Stopped)"
    if "i < length (services e)" "x = ShutDown" "SelTimeout \<notin> set es" for i
    using allDone_nth [OF d [OF that(2,3)], of i] that(1,2) st sp assms(2)
    by (auto simp: starts_ok_def stops_ok_def)
  have "start_calls i (log s) \<le> (if x \<noteq> FailedPreStart \<and> i < length (services e) then 1 else 0)" for i
    using st assms(2) by (cases x) (auto simp: starts_ok_def)
  moreover have "stop_calls i (log s) \<le>
      (if x = ShutDown \<and> i < length (services e) \<and> stoppable (services e) i then 1 else 0)" for i
    using sp assms(2) by (cases x) (auto simp: stops_ok_def)
  moreover have "hooks_of HPreStop (log s) = [] \<and> hooks_of HPostStop (log s) = []" if "x \<noteq> ShutDown"
    using not_yet [OF reached(1) [OF assms(1)]] assms(2) that by (cases x) auto
  ultimately show ?thesis using late lates all by blast
qed

theorem entrypoint_calls_witness:
  "pc demo_end = Finished ShutDown (Some (ErrNew ''boom'')) \<and> SelTimeout \<notin> set (demo_up @ demo_down) \<and>
   start_calls 0 (log demo_end) = 1 \<and> start_calls 1 (log demo_end) = 1 \<and> stop_calls 0 (log demo_end) = 1 \<and>
   stop_calls 1 (log demo_end) = 0"
proof -
  have p: "pc demo_end = Finished ShutDown (Some (ErrNew ''boom''))" by (simp add: demo_end_def)
  have t: "SelTimeout \<notin> set (demo_up @ demo_down)" by (simp add: demo_up_def demo_down_def)
  have n: "length (services demo_ep) = 2" "stoppable (services demo_ep) 0" "\<not> stoppable (services demo_ep) 1"
    by (simp_all add: demo_ep_def New_def stoppable_def)
  note c = entrypoint_calls [OF ep_demo_run p]
  from c t n have "start_calls 0 (log demo_end) = 1" "start_calls 1 (log demo_end) = 1"
    "stop_calls 0 (log demo_end) = 1" by auto
  moreover from c n have "stop_calls 1 (log demo_end) \<le> 0" by (metis)
  ultimately show ?thesis using p t by simp
qed

text \<open>
  C3. Run's return value says why it stopped: the wrapped error of the failing pre-start
  or post-start hook, or else the shutdown cause, which is the error of the ended caller
  context, a caught signal that arrived, an error some service's Start returned, or nil
  after a call of Shutdown. After the shutdown began the service context is canceled.
\<close>

theorem entrypoint_result:
  assumes "Run (init_run e c) es = Some s" and "pc s = Finished x r"
  shows "case x of
           FailedPreStart \<Rightarrow> \<exists>f. r = Some (Wrap ''pre-start'' f) \<and> HookDone (Some f) \<in> set es
         | FailedPostStart \<Rightarrow>
             svcCanceled s \<and> (\<exists>f. r = Some (Wrap ''post-start'' f) \<and> HookDone (Some f) \<in> set es)
         | ShutDown \<Rightarrow> svcCanceled s \<and> explained e c es r"
  using reached(7) [OF assms(1)] assms(2) by (auto simp: result_ok_def split: exit_path.splits)

theorem entrypoint_result_witness:
  "pc demo_end = Finished ShutDown (Some (ErrNew ''boom'')) \<and>
   explained demo_ep None (demo_up @ demo_down) (Some (ErrNew ''boom''))"
proof -
  have "pc demo_end = Finished ShutDown (Some (ErrNew ''boom''))" by (simp add: demo_end_def)
  from entrypoint_result [OF ep_demo_run this] this show ?thesis by simp
qed

text \<open>
  No Start goroutine ever blocks on reporting its error: in every reachable state a
  running service can return, with any result, because the error channel has a slot left
  for each service that is still running.
\<close>

theorem entrypoint_errors_never_block:
  assumes "Run (init_run e c) es = Some s" and "i < length (starts s)" and "starts s ! i = Running"
  shows "Run_step s (StartReturns i r) \<noteq> None"
proof -
  from reached(3) [OF assms(1)] have g: "goroutines_ok s" .
  have "count_list (starts s) Returned < length (starts s)"
    using assms(2,3) by (intro count_list_less) auto
  with g have "length (buf (svcErrs s)) < cap (svcErrs s)" and "\<not> closed (svcErrs s)"
    by (auto simp: goroutines_ok_def errs_ok_def starts_ok_def)
  with assms(2,3) show ?thesis by (cases r) (simp_all add: Run_step_def chan_send_def)
qed

theorem entrypoint_errors_never_block_witness:
  "\<exists>s. Run (init_run demo_ep None) demo_up = Some s \<and> starts s = [Running, Running] \<and>
     Run_step s (StartReturns 0 (Some (ErrNew ''late''))) \<noteq> None"
proof -
  obtain s where s: "Run (init_run demo_ep None) demo_up = Some s" "starts s = [Running, Running]"
    by (simp add: demo_simps numeral_2_eq_2)
  with entrypoint_errors_never_block [OF s(1), of 0] show ?thesis by auto
qed

text \<open>
  C5. The stop phase is graceful: Run goes on to the post-stop hooks only when every
  service's Start has returned and every Stop has returned, or when the shutdown deadline
  has passed. Every pre-stop hook and every Stop gets a context that is not canceled, even
  when the caller's context is (at most its own deadline may have expired), and post-stop
  hooks get a live one.
\<close>

theorem entrypoint_graceful_stop:
  assumes "Run (init_run e c) es = Some s"
  shows "(past_drain (pc s) \<longrightarrow> allDone s \<or> deadline s \<le> now s) \<and> (\<forall>x \<in> set (log s). stop_ctx_ok x)"
  using reached(4) [OF assms] by (simp add: stop_ok_def)

theorem entrypoint_graceful_stop_witness:
  "past_drain (pc demo_end) \<and> now demo_end < deadline demo_end \<and> allDone demo_end"
  using entrypoint_graceful_stop [OF ep_demo_run] by (simp add: demo_end_def allDone_def)

text \<open>
  C4. Shutdown is bounded. In any interleaving Run's own thread makes at most a fixed
  number of actions (a hook counts twice, for its call and its return), and before Run has
  returned it can be held up in three places only: in a hook that has not returned, which Run
  does not bound; in its select, while no trigger has occurred; and in the drain phase, while a
  service is still running and since the trigger was selected less time has passed than the shutdown
  timeout.
\<close>

theorem entrypoint_bounded_shutdown:
  assumes "Run (init_run e c) es = Some s"
  shows "length (filter own_event es) \<le> 2 * own_msr e (PreStart (onPreStart e)) + 1 \<and>
         (is_finished (pc s) \<or> can_move s \<or>
          inHook s \<and> hooks_left (pc s) \<noteq> [] \<or>
          pc s = Waiting \<and> \<not> triggered s \<or>
          pc s = Draining \<and> \<not> allDone s \<and>
            (\<exists>es1 x es2. es = es1 @ x # es2 \<and> is_trigger x \<and> elapsed es2 < shutdownTimeout e))"
proof -
  have "is_finished (pc s) \<or> can_move s \<or> inHook s \<or> pc s = Waiting \<and> \<not> triggered s \<or>
          pc s = Draining \<and> \<not> allDone s \<and> now s < deadline s"
    using run_progress [OF reached(3) [OF assms]] by (meson not_le)
  moreover have "inHook s \<longrightarrow> hooks_left (pc s) \<noteq> []"
    using reached(2) [OF assms] by (simp add: hooks_ok_def)
  moreover have "\<exists>es1 x es2. es = es1 @ x # es2 \<and> is_trigger x \<and> elapsed es2 < shutdownTimeout e"
    if "pc s = Draining" "now s < deadline s"
  proof -
    from reached(5) [OF assms] that obtain es1 x es2 where "es = es1 @ x # es2" "is_trigger x"
      "deadline s = elapsed es1 + shutdownTimeout e" "now s = elapsed es"
      by (auto simp: timing_def deadline_set_def)
    with that(2) tick_trigger [of x] show ?thesis by (intro exI [of _ es1] exI [of _ x] exI [of _ es2]) simp
  qed
  ultimately show ?thesis using reached(8) [OF assms] by blast
qed

theorem entrypoint_bounded_shutdown_witness:
  "\<exists>s. Run (init_run demo_ep None) (demo_up @ [ShutdownCall, SelShutdown, HookCall, HookDone None, Proceed,
       StopNext, StopNext, Proceed, Tick 10]) = Some s \<and>
     pc s = Draining \<and> starts s = [Running, Running] \<and> can_move s"
proof -
  let ?es = "demo_up @ [ShutdownCall, SelShutdown, HookCall, HookDone None, Proceed,
       StopNext, StopNext, Proceed, Tick 10]"
  obtain s where s: "Run (init_run demo_ep None) ?es = Some s"
    and p: "pc s = Draining" "starts s = [Running, Running]" "\<not> inHook s"
    by (simp add: demo_simps Shutdown_def numeral_2_eq_2)
  have "\<not> (\<exists>es1 x es2. ?es = es1 @ x # es2 \<and> is_trigger x \<and> elapsed es2 < shutdownTimeout demo_ep)"
    by (auto simp: demo_up_def demo_ep_def New_def is_trigger_def append_eq_Cons_conv Cons_eq_append_conv)
  with entrypoint_bounded_shutdown [OF s] s p show ?thesis by auto
qed

end
