(* ===== verification/WorkerPool.thy ===== *)
theory WorkerPool
  imports Channel
begin

text \<open>
  The bounded goroutine pool of \<^verbatim>\<open>pkg/workerpool/pool.go\<close>. \<open>New\<close> and the options build the
  pool; \<open>pool_step\<close> is one action of Start, of one worker goroutine or of a submitter, so a
  list of events is an interleaving; \<open>Submit\<close> and \<open>Stop\<close> are the calls of the clients. Three
  ghost fields record which tasks were accepted, begun and finished, in that order.
\<close>


section \<open>The pool and its options\<close>

datatype 't worker = Idle | Busy 't | Exited

record 't pool =
  psize :: int
  tasks :: "'t chan"
  drainOnStop :: bool
  workers :: "'t worker list"
  started :: bool
  ctxDone :: bool
  returned :: bool
  accepted :: "'t list"
  begun :: "'t list"
  finished :: "'t list"

datatype pool_option = WithQueueSize int | WithDrainOnStop | WithLogger

text \<open>\<open>lim\<close> is the largest channel the allocator grants. None is a panic of make.\<close>

fun apply_option :: "int \<Rightarrow> pool_option \<Rightarrow> 't pool \<Rightarrow> 't pool option" where
  "apply_option lim (WithQueueSize n) p = map_option (\<lambda>c. p\<lparr>tasks := c\<rparr>) (make_chan lim n)"
| "apply_option lim WithDrainOnStop p = Some (p\<lparr>drainOnStop := True\<rparr>)"
| "apply_option lim WithLogger p = Some p"

fun apply_options :: "int \<Rightarrow> pool_option list \<Rightarrow> 't pool \<Rightarrow> 't pool option" where
  "apply_options lim [] p = Some p"
| "apply_options lim (x # xs) p = Option.bind (apply_option lim x p) (apply_options lim xs)"

definition New :: "int \<Rightarrow> int \<Rightarrow> pool_option list \<Rightarrow> 't pool option" where
  "New lim n opts =
     Option.bind (make_chan lim (wrap64 (n * 2))) (\<lambda>c.
       apply_options lim opts
         \<lparr>psize = n, tasks = c, drainOnStop = False, workers = [], started = False,
          ctxDone = False, returned = False, accepted = [], begun = [], finished = []\<rparr>)"


section \<open>Submit and Stop\<close>

text \<open>
  A select takes one of its ready cases: \<open>PickSend\<close> the send into the buffer (or into the
  closed channel, which panics and is recovered), \<open>PickHandoff i\<close> the send to worker i that
  is blocked in its receive, \<open>PickCtx\<close> the end of the caller's context. None says that the
  picked case is not ready.
\<close>

datatype submit_pick = PickSend | PickHandoff nat | PickCtx

definition recovered :: "ctx \<Rightarrow> err" where
  "recovered c =
     (case c of Some e \<Rightarrow> Wrap ''submit'' (CtxErr e) | None \<Rightarrow> ErrNew ''pool stopped'')"

definition Submit :: "submit_pick \<Rightarrow> ctx \<Rightarrow> 't \<Rightarrow> 't pool \<Rightarrow> (unit res \<times> 't pool) option" where
  "Submit pick c t p =
     (case pick of
        PickSend \<Rightarrow>
          (case chan_send t (tasks p) of
             Sent ch \<Rightarrow> Some (Inr (), p\<lparr>tasks := ch, accepted := accepted p @ [t]\<rparr>)
           | SendPanics \<Rightarrow> Some (Inl (recovered c), p)
           | SendBlocks \<Rightarrow> None)
      | PickHandoff i \<Rightarrow>
          (if \<not> closed (tasks p) \<and> buf (tasks p) = [] \<and> i < length (workers p) \<and> workers p ! i = Idle
           then Some (Inr (), p\<lparr>workers := (workers p)[i := Busy t],
                                accepted := accepted p @ [t], begun := begun p @ [t]\<rparr>)
           else None)
      | PickCtx \<Rightarrow>
          (case c of
             Some e \<Rightarrow> Some (Inl (Wrap ''submit'' (CtxErr e)), p)
           | None \<Rightarrow> None))"

text \<open>\<^verbatim>\<open>p.wg\<close> counts the worker goroutines that have not returned.\<close>

definition wg :: "'t pool \<Rightarrow> nat" where
  "wg p = length (filter (\<lambda>w. w \<noteq> Exited) (workers p))"

datatype stop_pick = PickDone | PickDeadline

definition Stop :: "stop_pick \<Rightarrow> ctx \<Rightarrow> 't pool \<Rightarrow> unit res option" where
  "Stop pick c p =
     (if \<not> drainOnStop p then Some (Inr ())
      else case pick of
             PickDone \<Rightarrow> (if wg p = 0 then Some (Inr ()) else None)
           | PickDeadline \<Rightarrow>
               (case c of Some e \<Rightarrow> Some (Inl (Wrap ''pool stop'' (CtxErr e))) | None \<Rightarrow> None))"


section \<open>Start and its workers\<close>

datatype 't event =
    StartWorkers
  | CtxEnds
  | CloseTasks
  | StartReturns
  | Take nat
  | Finish nat
  | Exit nat
  | SubmitCall submit_pick ctx 't

text \<open>
  One action. Start spawns \<^verbatim>\<open>size\<close> workers (\<open>for range\<close> over a negative count runs zero
  times), waits for its context, closes the channel and, when it drains, waits for the
  workers. A worker receives while the channel has a value or is open, and returns once it
  is closed and empty.
\<close>

definition pool_step :: "'t pool \<Rightarrow> 't event \<Rightarrow> 't pool option" where
  "pool_step p e =
     (case e of
        StartWorkers \<Rightarrow>
          (if started p then None
           else Some (p\<lparr>started := True, workers := replicate (nat (psize p)) Idle\<rparr>))
      | CtxEnds \<Rightarrow> Some (p\<lparr>ctxDone := True\<rparr>)
      | CloseTasks \<Rightarrow>
          (if started p \<and> ctxDone p
           then map_option (\<lambda>ch. p\<lparr>tasks := ch\<rparr>) (chan_close (tasks p)) else None)
      | StartReturns \<Rightarrow>
          (if closed (tasks p) \<and> \<not> returned p \<and> (drainOnStop p \<longrightarrow> wg p = 0)
           then Some (p\<lparr>returned := True\<rparr>) else None)
      | Take i \<Rightarrow>
          (if i < length (workers p) \<and> workers p ! i = Idle
           then (case chan_recv (tasks p) of
                   Received t ch \<Rightarrow>
                     Some (p\<lparr>tasks := ch, workers := (workers p)[i := Busy t], begun := begun p @ [t]\<rparr>)
                 | _ \<Rightarrow> None)
           else None)
      | Finish i \<Rightarrow>
          (if i < length (workers p)
           then (case workers p ! i of
                   Busy t \<Rightarrow>
                     Some (p\<lparr>workers := (workers p)[i := Idle], finished := finished p @ [t]\<rparr>)
                 | _ \<Rightarrow> None)
           else None)
      | Exit i \<Rightarrow>
          (if i < length (workers p) \<and> workers p ! i = Idle \<and> chan_recv (tasks p) = RecvClosed
           then Some (p\<lparr>workers := (workers p)[i := Exited]\<rparr>) else None)
      | SubmitCall pick c t \<Rightarrow> map_option snd (Submit pick c t p))"

definition pool_run :: "'t pool \<Rightarrow> 't event list \<Rightarrow> 't pool option" where
  "pool_run = lts_run pool_step"



section \<open>The invariant\<close>

text \<open>The tasks the workers are executing now.\<close>

fun task_of :: "'t worker \<Rightarrow> 't list" where
  "task_of (Busy t) = [t]"
| "task_of w = []"

definition busy :: "'t worker list \<Rightarrow> 't list" where
  "busy ws = concat (map task_of ws)"

text \<open>
  Tasks are neither lost nor run twice nor reordered: what was accepted is what was begun
  followed by what is queued, and what was begun is what has finished plus what is running.
\<close>

definition conserved :: "'t pool \<Rightarrow> bool" where
  "conserved p \<longleftrightarrow> accepted p = begun p @ buf (tasks p) \<and>
     mset (begun p) = mset (finished p) + mset (busy (workers p))"

definition shape :: "'t pool \<Rightarrow> bool" where
  "shape p \<longleftrightarrow> length (workers p) = (if started p then nat (psize p) else 0) \<and>
     chan_ok (tasks p) \<and>
     (Exited \<in> set (workers p) \<longrightarrow> closed (tasks p) \<and> buf (tasks p) = []) \<and>
     (closed (tasks p) \<longrightarrow> started p \<and> ctxDone p) \<and>
     (returned p \<longrightarrow> closed (tasks p) \<and> (drainOnStop p \<longrightarrow> wg p = 0))"

definition pool_inv :: "'t pool \<Rightarrow> bool" where
  "pool_inv p \<longleftrightarrow> conserved p \<and> shape p"

lemma mset_busy_update:
  assumes "i < length ws"
  shows "mset (busy (ws[i := w])) + mset (task_of (ws ! i)) = mset (busy ws) + mset (task_of w)"
proof -
  have split: "ws = take i ws @ ws ! i # drop (Suc i) ws"
    using assms by (rule id_take_nth_drop)
  show ?thesis
    unfolding busy_def by (subst (3) split) (simp add: upd_conv_take_nth_drop assms)
qed

lemma mset_busy_start [simp]:
  "i < length ws \<Longrightarrow> ws ! i = Idle \<Longrightarrow> mset (busy (ws[i := Busy t])) = add_mset t (mset (busy ws))"
  using mset_busy_update [of i ws "Busy t"] by simp

lemma mset_busy_finish:
  "i < length ws \<Longrightarrow> ws ! i = Busy t \<Longrightarrow> mset (busy ws) = add_mset t (mset (busy (ws[i := Idle])))"
  using mset_busy_update [of i ws Idle] by simp

lemma mset_busy_exit [simp]:
  "i < length ws \<Longrightarrow> ws ! i = Idle \<Longrightarrow> mset (busy (ws[i := Exited])) = mset (busy ws)"
  using mset_busy_update [of i ws Exited] by simp

lemma busy_replicate [simp]: "busy (replicate n Idle) = []"
  by (induction n) (simp_all add: busy_def)

lemma busy_Nil [simp]: "busy [] = []"
  by (simp add: busy_def)

lemma length_busy: "length (busy ws) \<le> length ws"
proof (induction ws)
  case (Cons w ws)
  then show ?case by (cases w) (simp_all add: busy_def)
qed simp

lemma wg_0: "wg p = 0 \<longleftrightarrow> set (workers p) \<subseteq> {Exited}"
  by (auto simp: wg_def filter_empty_conv)

lemma busy_all_exited: "set ws \<subseteq> {Exited} \<Longrightarrow> busy ws = []"
  by (induction ws) (auto simp: busy_def)

lemma wg_live: "i < length (workers p) \<Longrightarrow> workers p ! i \<noteq> Exited \<Longrightarrow> wg p \<noteq> 0"
  unfolding wg_0 using nth_mem by fastforce

lemma exited_update: "Exited \<in> set (ws[i := w]) \<Longrightarrow> w \<noteq> Exited \<Longrightarrow> Exited \<in> set ws"
  using set_update_subset_insert [of ws i w] by auto

text \<open>Each kind of step keeps both halves of the invariant.\<close>

lemmas pool_unfold = pool_step_def Submit_def chan_send_def chan_recv_def chan_close_def

lemma conserved_step:
  assumes "conserved p" and "shape p" and "pool_step p e = Some q"
  shows "conserved q"
proof (cases e)
  case (Finish i)
  with assms obtain t where t: "i < length (workers p)" "workers p ! i = Busy t"
      "q = p\<lparr>workers := (workers p)[i := Idle], finished := finished p @ [t]\<rparr>"
    by (auto simp: pool_step_def split: if_splits worker.splits)
  with assms(1) mset_busy_finish [OF t(1,2)] show ?thesis by (simp add: conserved_def)
next
  case (SubmitCall pick c t)
  with assms show ?thesis
    by (cases pick) (auto simp: pool_unfold conserved_def split: if_splits option.splits)
next
  case StartWorkers
  with assms show ?thesis
    by (auto simp: pool_unfold conserved_def shape_def split: if_splits)
qed (use assms in \<open>auto simp: pool_unfold conserved_def split: if_splits list.splits\<close>)

lemma shape_chan: "shape p \<Longrightarrow> chan_ok (tasks p)"
  by (simp add: shape_def)

text \<open>A worker that is still alive may change state: nothing the shape speaks of is lost.\<close>

lemma shape_worker:
  assumes "shape p" and "i < length (workers p)" and "workers p ! i \<noteq> Exited" and "w \<noteq> Exited"
    and "chan_ok ch" and "closed ch = closed (tasks p)" and "buf (tasks p) = [] \<Longrightarrow> buf ch = []"
    and "q = p\<lparr>tasks := ch, workers := (workers p)[i := w], accepted := a, begun := b, finished := f\<rparr>"
  shows "shape q"
proof -
  have "wg p \<noteq> 0" using assms(2,3) by (rule wg_live)
  with assms(1) have r: "\<not> (returned p \<and> drainOnStop p)" by (auto simp: shape_def)
  show ?thesis
    using assms r by (auto simp: shape_def dest!: exited_update)
qed

lemma shape_step:
  assumes "shape p" and "pool_step p e = Some q"
  shows "shape q"
proof (cases e)
  case (SubmitCall pick c t)
  show ?thesis
  proof (cases pick)
    case PickSend
    with SubmitCall assms show ?thesis
      by (auto simp: pool_unfold shape_def chan_ok_def wg_def split: if_splits)
  next
    case (PickHandoff i)
    with SubmitCall assms(2) have h: "i < length (workers p)" "workers p ! i \<noteq> Exited"
      and q: "q = p\<lparr>workers := (workers p)[i := Busy t], accepted := accepted p @ [t], begun := begun p @ [t]\<rparr>"
      by (auto simp: pool_unfold split: if_splits)
    show ?thesis
      by (rule shape_worker [OF assms(1) h, where w = "Busy t" and ch = "tasks p" and
            a = "accepted p @ [t]" and b = "begun p @ [t]" and f = "finished p"]) (simp_all add: q shape_chan assms(1))
  next
    case PickCtx
    with SubmitCall assms show ?thesis by (auto simp: pool_unfold split: option.splits)
  qed
next
  case (Take i)
  with assms(2) obtain t ts where h: "i < length (workers p)" "workers p ! i \<noteq> Exited"
    and b: "buf (tasks p) = t # ts"
    and q: "q = p\<lparr>tasks := (tasks p)\<lparr>buf := ts\<rparr>, workers := (workers p)[i := Busy t], begun := begun p @ [t]\<rparr>"
    by (auto simp: pool_unfold split: if_splits list.splits)
  show ?thesis
    by (rule shape_worker [OF assms(1) h, where w = "Busy t" and ch = "(tasks p)\<lparr>buf := ts\<rparr>" and
          a = "accepted p" and b = "begun p @ [t]" and f = "finished p"])
      (use shape_chan [OF assms(1)] in \<open>simp_all add: q b chan_ok_def\<close>)
next
  case (Finish i)
  with assms(2) obtain t where h: "i < length (workers p)" "workers p ! i \<noteq> Exited"
    and q: "q = p\<lparr>workers := (workers p)[i := Idle], finished := finished p @ [t]\<rparr>"
    by (auto simp: pool_unfold split: if_splits worker.splits)
  show ?thesis
    by (rule shape_worker [OF assms(1) h, where w = Idle and ch = "tasks p" and
          a = "accepted p" and b = "begun p" and f = "finished p @ [t]"]) (simp_all add: q shape_chan assms(1))
next
  case (Exit i)
  with assms(2) have e: "i < length (workers p)" "workers p ! i \<noteq> Exited" "buf (tasks p) = []"
    "closed (tasks p)" "q = p\<lparr>workers := (workers p)[i := Exited]\<rparr>"
    by (auto simp: pool_unfold split: if_splits list.splits)
  with wg_live [of i p] assms(1) show ?thesis by (auto simp: shape_def)
qed (use assms in \<open>auto simp: pool_unfold shape_def chan_ok_def wg_def split: if_splits\<close>)

interpretation pl: lts_invariant pool_step pool_inv
  by unfold_locales (auto simp: pool_inv_def intro: conserved_step shape_step)


section \<open>Construction and frame\<close>

definition fresh :: "int \<Rightarrow> 't pool \<Rightarrow> bool" where
  "fresh n p \<longleftrightarrow> psize p = n \<and> buf (tasks p) = [] \<and> \<not> closed (tasks p) \<and> workers p = [] \<and>
     \<not> started p \<and> \<not> returned p \<and> accepted p = [] \<and> begun p = [] \<and> finished p = []"

lemma apply_options_fresh: "fresh n p \<Longrightarrow> apply_options lim opts p = Some q \<Longrightarrow> fresh n q"
proof (induction opts arbitrary: p)
  case (Cons x xs)
  then obtain p1 where x: "apply_option lim x p = Some p1" and xs: "apply_options lim xs p1 = Some q"
    by (auto split: Option.bind_splits)
  from x Cons.prems(1) have "fresh n p1"
    by (cases x) (auto simp: fresh_def make_chan_def split: if_splits)
  from Cons.IH [OF this xs] show ?case .
qed simp

lemma New_fresh:
  assumes "New lim n opts = Some p"
  shows "fresh n p"
proof -
  from assms obtain c p1 where c: "make_chan lim (wrap64 (n * 2)) = Some c"
    and p1: "p1 = \<lparr>psize = n, tasks = c, drainOnStop = False, workers = [], started = False,
      ctxDone = False, returned = False, accepted = [], begun = [], finished = []\<rparr>"
    and opts: "apply_options lim opts p1 = Some p"
    by (auto simp: New_def split: Option.bind_splits)
  have "fresh n p1" using c by (auto simp: p1 fresh_def make_chan_def split: if_splits)
  from apply_options_fresh [OF this opts] show ?thesis .
qed

lemma fresh_inv: "fresh n p \<Longrightarrow> pool_inv p"
  by (simp add: fresh_def pool_inv_def conserved_def shape_def chan_ok_def)

lemma pool_step_frame: "pool_step p e = Some q \<Longrightarrow> psize q = psize p \<and> drainOnStop q = drainOnStop p"
  by (cases e) (auto simp: pool_unfold split: if_splits list.splits worker.splits submit_pick.splits
      option.splits sent.splits)

interpretation fr: lts_invariant pool_step "\<lambda>p. psize p = n \<and> drainOnStop p = d" for n d
  by unfold_locales (auto dest: pool_step_frame)

lemma pool_reached:
  assumes "New lim n opts = Some p0" and "pool_run p0 es = Some p"
  shows "pool_inv p \<and> psize p = n"
proof -
  from assms(1) have f: "fresh n p0" by (rule New_fresh)
  from assms(2) have run: "lts_run pool_step p0 es = Some p" by (simp add: pool_run_def)
  from fresh_inv [OF f] run have "pool_inv p" by (rule pl.run_inv)
  moreover have "psize p0 = n \<and> drainOnStop p0 = drainOnStop p0" using f by (simp add: fresh_def)
  from fr.run_inv [OF this run] have "psize p = n" by simp
  ultimately show ?thesis by simp
qed


section \<open>Draining\<close>

fun worker_event :: "'t event \<Rightarrow> bool" where
  "worker_event (Take i) = True"
| "worker_event (Finish i) = True"
| "worker_event (Exit i) = True"
| "worker_event e = False"

fun weight :: "'t worker \<Rightarrow> nat" where
  "weight Idle = 1"
| "weight (Busy t) = 2"
| "weight Exited = 0"

text \<open>How many worker actions the pool can still make without a new submission.\<close>

definition drain_msr :: "'t pool \<Rightarrow> nat" where
  "drain_msr p = 2 * length (buf (tasks p)) + sum_list (map weight (workers p))"

lemma sum_weight_update:
  assumes "i < length ws"
  shows "sum_list (map weight (ws[i := w])) + weight (ws ! i) = sum_list (map weight ws) + weight w"
proof -
  have split: "ws = take i ws @ ws ! i # drop (Suc i) ws"
    using assms by (rule id_take_nth_drop)
  show ?thesis by (subst (3) split) (simp add: upd_conv_take_nth_drop assms)
qed

lemma worker_step_msr: "worker_event e \<Longrightarrow> pool_step p e = Some q \<Longrightarrow> drain_msr q < drain_msr p"
proof (cases e)
  case (Take i)
  moreover assume "pool_step p e = Some q"
  ultimately obtain t ts where "i < length (workers p)" "workers p ! i = Idle" "buf (tasks p) = t # ts"
    "q = p\<lparr>tasks := (tasks p)\<lparr>buf := ts\<rparr>, workers := (workers p)[i := Busy t], begun := begun p @ [t]\<rparr>"
    by (auto simp: pool_unfold split: if_splits list.splits)
  with sum_weight_update [of i "workers p" "Busy t"] show ?thesis by (simp add: drain_msr_def)
next
  case (Finish i)
  moreover assume "pool_step p e = Some q"
  ultimately obtain t where "i < length (workers p)" "workers p ! i = Busy t"
    "q = p\<lparr>workers := (workers p)[i := Idle], finished := finished p @ [t]\<rparr>"
    by (auto simp: pool_unfold split: if_splits worker.splits)
  with sum_weight_update [of i "workers p" Idle] show ?thesis by (simp add: drain_msr_def)
next
  case (Exit i)
  moreover assume "pool_step p e = Some q"
  ultimately have "i < length (workers p)" "workers p ! i = Idle"
    "q = p\<lparr>workers := (workers p)[i := Exited]\<rparr>"
    by (auto simp: pool_unfold split: if_splits list.splits)
  with sum_weight_update [of i "workers p" Exited] show ?thesis by (simp add: drain_msr_def)
qed auto

interpretation dr: lts_measure pool_step pool_inv drain_msr worker_event
  by unfold_locales (rule worker_step_msr)

lemma worker_keeps_closed: "worker_event e \<Longrightarrow> pool_step p e = Some q \<Longrightarrow> closed (tasks p) \<Longrightarrow> closed (tasks q)"
  by (cases e) (auto simp: pool_unfold split: if_splits list.splits worker.splits)

lemma worker_run_closed:
  "list_all worker_event es \<Longrightarrow> pool_run p es = Some q \<Longrightarrow> closed (tasks p) \<Longrightarrow> closed (tasks q)"
  unfolding pool_run_def
  by (induction es arbitrary: p) (auto simp: lts_run_Cons_Some simp del: lts_run.simps(2)
      intro: worker_keeps_closed)

text \<open>While a worker is alive and the channel is closed, some worker can act.\<close>

lemma worker_progress:
  assumes "closed (tasks p)" and "wg p \<noteq> 0"
  shows "\<exists>e q. worker_event e \<and> pool_step p e = Some q"
proof -
  from assms(2) obtain w where "w \<in> set (workers p)" and w: "w \<noteq> Exited" by (auto simp: wg_0)
  then obtain i where i: "i < length (workers p)" "workers p ! i = w" by (auto simp: in_set_conv_nth)
  show ?thesis
  proof (cases w)
    case (Busy t)
    with i have "pool_step p (Finish i) \<noteq> None" by (simp add: pool_step_def)
    then show ?thesis by (intro exI [of _ "Finish i"]) auto
  next
    case Idle
    show ?thesis
    proof (cases "buf (tasks p)")
      case Nil
      with i Idle assms(1) have "pool_step p (Exit i) \<noteq> None" by (simp add: pool_unfold)
      then show ?thesis by (intro exI [of _ "Exit i"]) auto
    next
      case Cons
      with i Idle have "pool_step p (Take i) \<noteq> None" by (simp add: pool_unfold)
      then show ?thesis by (intro exI [of _ "Take i"]) auto
    qed
  qed (use w in simp)
qed

lemma all_exited_stuck:
  assumes "wg p = 0" and "worker_event e"
  shows "pool_step p e = None"
proof -
  have "workers p ! i = Exited" if "i < length (workers p)" for i
    using wg_live [OF that] assms(1) by blast
  with assms(2) show ?thesis by (cases e) (auto simp: pool_step_def)
qed

lemma all_exited_done:
  assumes "pool_inv p" and "wg p = 0" and "0 < psize p" and "closed (tasks p)"
  shows "mset (finished p) = mset (accepted p) \<and> buf (tasks p) = []"
proof -
  from assms have "length (workers p) = nat (psize p)" by (auto simp: pool_inv_def shape_def)
  with assms(3) have "workers p \<noteq> []" by auto
  with assms(2) have "Exited \<in> set (workers p)" by (cases "workers p") (auto simp: wg_0)
  moreover have "busy (workers p) = []" using assms(2) by (simp add: wg_0 busy_all_exited)
  ultimately show ?thesis using assms(1) by (auto simp: pool_inv_def conserved_def shape_def)
qed


section \<open>Properties\<close>

text \<open>
  C9. No task is lost, run twice or reordered, and both bounds of the pool hold, in every
  interleaving of submitters, workers and shutdown: the accepted tasks are the begun ones
  followed by the queued ones in submission order, every begun task has finished or is
  running on exactly one worker, the queue never exceeds its capacity and at most n tasks
  run at the same time.
\<close>

theorem pool_exactly_once:
  assumes "New lim n opts = Some p0" and "pool_run p0 es = Some p"
  shows "accepted p = begun p @ buf (tasks p) \<and>
         mset (begun p) = mset (finished p) + mset (busy (workers p)) \<and>
         length (buf (tasks p)) \<le> cap (tasks p) \<and> length (busy (workers p)) \<le> nat n"
proof -
  from pool_reached [OF assms] have inv: "pool_inv p" and n: "psize p = n" by auto
  then have "length (workers p) \<le> nat n" by (auto simp: pool_inv_def shape_def)
  with length_busy [of "workers p"] inv show ?thesis
    by (auto simp: pool_inv_def conserved_def shape_def chan_ok_def)
qed

text \<open>A run used by the witnesses: two workers, three tasks, shutdown while one is queued.\<close>

definition demo_events :: "nat event list" where
  "demo_events = [StartWorkers, SubmitCall PickSend None 1, Take 0, SubmitCall (PickHandoff 1) None 2,
     SubmitCall PickSend None 3, CtxEnds, CloseTasks]"

definition demo_drain :: "nat event list" where
  "demo_drain = [Finish 0, Take 0, Finish 1, Exit 1, Finish 0, Exit 0]"

lemmas demo_simps = demo_events_def demo_drain_def New_def make_chan_def wrap64_def pool_run_def
  pool_unfold wg_def

definition demo_pool :: "bool \<Rightarrow> nat pool" where
  "demo_pool d = \<lparr>psize = 2, tasks = \<lparr>buf = [3], cap = 4, closed = True\<rparr>, drainOnStop = d,
     workers = [Busy 1, Busy 2], started = True, ctxDone = True, returned = False,
     accepted = [1, 2, 3], begun = [1, 2], finished = []\<rparr>"

definition demo_new :: "bool \<Rightarrow> nat pool" where
  "demo_new d = \<lparr>psize = 2, tasks = \<lparr>buf = [], cap = 4, closed = False\<rparr>, drainOnStop = d,
     workers = [], started = False, ctxDone = False, returned = False,
     accepted = [], begun = [], finished = []\<rparr>"

lemma demo_New: "New 100 2 [] = Some (demo_new False)" "New 100 2 [WithDrainOnStop] = Some (demo_new True)"
  by (simp_all add: demo_simps demo_new_def)

lemma pool_demo_run: "pool_run (demo_new d) demo_events = Some (demo_pool d)"
  by (simp add: demo_simps demo_new_def demo_pool_def numeral_2_eq_2)

theorem pool_exactly_once_witness:
  "pool_run (demo_new False) demo_events = Some (demo_pool False) \<and>
   accepted (demo_pool False) = [1, 2] @ [3] \<and> length (busy (workers (demo_pool False))) \<le> 2"
  using pool_demo_run [of False] pool_exactly_once [OF demo_New(1) pool_demo_run]
  by (simp add: demo_pool_def)

text \<open>
  C10. With WithDrainOnStop and at least one worker, once Start has returned every task that
  Submit accepted has been executed to the end and the queue is empty.
\<close>

theorem pool_drain_on_stop:
  assumes "New lim n opts = Some p0" and "pool_run p0 es = Some p"
    and "0 < n" and "drainOnStop p" and "returned p"
  shows "mset (finished p) = mset (accepted p) \<and> buf (tasks p) = []"
proof -
  from pool_reached [OF assms(1,2)] have inv: "pool_inv p" and n: "psize p = n" by auto
  with assms(4,5) have "wg p = 0" and "closed (tasks p)" by (auto simp: pool_inv_def shape_def)
  with inv n assms(3) show ?thesis by (intro all_exited_done) auto
qed

theorem pool_drain_on_stop_witness:
  "\<exists>p. pool_run (demo_new True) (demo_events @ demo_drain @ [StartReturns]) = Some p \<and>
     returned p \<and> mset (finished p) = mset (accepted p) \<and> accepted p = [1, 2, 3]"
proof -
  obtain p where p: "pool_run (demo_new True) (demo_events @ demo_drain @ [StartReturns]) = Some p"
    and r: "returned p" "drainOnStop p" "accepted p = [1, 2, 3]"
    using pool_demo_run [of True]
    by (simp add: pool_run_def lts_run_append demo_drain_def demo_pool_def pool_unfold wg_def)
  from pool_drain_on_stop [OF demo_New(2) p _ r(2,1)] p r show ?thesis by auto
qed

text \<open>
  C11. Draining terminates under every schedule. From any reachable state in which the
  channel is closed, the workers can make at most drain_msr further actions, and when no
  worker can act any more every accepted task has been executed.
\<close>

theorem pool_drain_completes:
  assumes "New lim n opts = Some p0" and "pool_run p0 es = Some p" and "closed (tasks p)" and "0 < n"
    and "list_all worker_event fs" and "pool_run p fs = Some q"
  shows "length fs \<le> drain_msr p \<and>
         ((\<forall>e. worker_event e \<longrightarrow> pool_step q e = None) \<longrightarrow> mset (finished q) = mset (accepted q))"
proof -
  from pool_reached [OF assms(1,2)] have inv: "pool_inv p" by simp
  from assms(6) have run: "lts_run pool_step p fs = Some q" by (simp add: pool_run_def)
  from dr.run_length [OF inv assms(5) run] have len: "length fs \<le> drain_msr p" by simp
  have "pool_run p0 (es @ fs) = Some q"
    using assms(2) run by (simp add: pool_run_def lts_run_append)
  from pool_reached [OF assms(1) this] have q: "pool_inv q" "psize q = n" by auto
  have cl: "closed (tasks q)" using worker_run_closed assms(3,5,6) by blast
  have "mset (finished q) = mset (accepted q)" if "\<forall>e. worker_event e \<longrightarrow> pool_step q e = None"
  proof -
    from that worker_progress [OF cl] have "wg q = 0" by force
    with q cl assms(4) show ?thesis by (simp add: all_exited_done)
  qed
  with len show ?thesis by blast
qed

theorem pool_drain_completes_witness:
  "closed (tasks (demo_pool False)) \<and> drain_msr (demo_pool False) = 6 \<and>
   (\<exists>q. pool_run (demo_pool False) demo_drain = Some q \<and> mset (finished q) = mset (accepted q))"
proof -
  obtain q where q: "pool_run (demo_pool False) demo_drain = Some q"
    and w: "workers q = [Exited, Exited]"
    by (simp add: demo_simps demo_pool_def)
  have "wg q = 0" by (simp add: wg_def w)
  then have none: "\<forall>e. worker_event e \<longrightarrow> pool_step q e = None"
    by (simp add: all_exited_stuck)
  have "closed (tasks (demo_pool False))" and "list_all worker_event demo_drain"
    and "drain_msr (demo_pool False) = 6"
    by (simp_all add: demo_pool_def demo_drain_def drain_msr_def)
  with pool_drain_completes [OF demo_New(1) pool_demo_run _ _ _ q] none q show ?thesis by auto
qed

text \<open>
  Submit never panics and reports truthfully. It returns nil exactly when the task was
  accepted, which needs an open channel; otherwise the pool is unchanged and the error is
  the caller's context error or "pool stopped". It blocks exactly while the caller's
  context is live, the channel is open, the buffer is full and no worker is waiting.
\<close>

theorem pool_submit:
  "(\<forall>pick r q. Submit pick c t p = Some (r, q) \<longrightarrow>
      (r = Inr () \<and> \<not> closed (tasks p) \<and> accepted q = accepted p @ [t]) \<or>
      (q = p \<and> (case c of Some e \<Rightarrow> r = Inl (Wrap ''submit'' (CtxErr e))
                 | None \<Rightarrow> r = Inl (ErrNew ''pool stopped'') \<and> closed (tasks p)))) \<and>
   ((\<forall>pick. Submit pick c t p = None) \<longleftrightarrow>
      c = None \<and> \<not> closed (tasks p) \<and> cap (tasks p) \<le> length (buf (tasks p)) \<and>
      (buf (tasks p) = [] \<longrightarrow> Idle \<notin> set (workers p)))"
proof (intro conjI allI impI)
  fix pick r q
  assume "Submit pick c t p = Some (r, q)"
  then show "(r = Inr () \<and> \<not> closed (tasks p) \<and> accepted q = accepted p @ [t]) \<or>
      (q = p \<and> (case c of Some e \<Rightarrow> r = Inl (Wrap ''submit'' (CtxErr e))
                 | None \<Rightarrow> r = Inl (ErrNew ''pool stopped'') \<and> closed (tasks p)))"
    by (cases pick) (auto simp: Submit_def chan_send_def recovered_def split: if_splits option.splits)
next
  have all: "(\<forall>pick. Submit pick c t p = None) \<longleftrightarrow>
      Submit PickSend c t p = None \<and> Submit PickCtx c t p = None \<and> (\<forall>i. Submit (PickHandoff i) c t p = None)"
    using submit_pick.exhaust by metis
  show "(\<forall>pick. Submit pick c t p = None) \<longleftrightarrow>
      c = None \<and> \<not> closed (tasks p) \<and> cap (tasks p) \<le> length (buf (tasks p)) \<and>
      (buf (tasks p) = [] \<longrightarrow> Idle \<notin> set (workers p))"
    unfolding all by (auto simp: Submit_def chan_send_def in_set_conv_nth split: option.splits if_splits)
qed

theorem pool_submit_witness:
  "Submit PickSend None 7 (demo_pool False) = Some (Inl (ErrNew ''pool stopped''), demo_pool False) \<and>
   closed (tasks (demo_pool False))"
proof -
  have "Submit PickSend None 7 (demo_pool False) =
      Some (Inl (ErrNew ''pool stopped''), demo_pool False)"
    by (simp add: Submit_def chan_send_def recovered_def demo_pool_def)
  with pool_submit [of None 7 "demo_pool False"] show ?thesis by fastforce
qed

text \<open>
  Without WithDrainOnStop the buffered tasks are not left unprocessed: Start returns
  at once, but its workers keep receiving from the closed channel, so a task that was
  still queued when Start returned is executed afterwards.
\<close>

theorem pool_no_drain_still_runs:
  "\<exists>p q. pool_run (demo_new False) (demo_events @ [StartReturns]) = Some p \<and>
     \<not> drainOnStop p \<and> returned p \<and> buf (tasks p) = [3] \<and> finished p = [] \<and>
     pool_run p demo_drain = Some q \<and> finished q = [1, 2, 3] \<and> buf (tasks q) = []"
  using pool_demo_run [of False]
  by (simp add: pool_run_def lts_run_append demo_drain_def demo_pool_def pool_unfold)

end
