(* ===== verification/Periodic.thy ===== *)
theory Periodic
  imports Prelude
begin

text \<open>
  The periodic runner of \<^verbatim>\<open>pkg/periodic/service.go\<close>. \<open>Start\<close> is a step function over the loop
  of \<^verbatim>\<open>runNonOverlapping\<close> or \<^verbatim>\<open>runOverlapping\<close>, its ticker, its context and the goroutines it
  spawned; the atomic flag busy and the wait group are kept apart, because a goroutine
  clears the flag before it leaves the group.
\<close>


section \<open>The service and its options\<close>

record periodic =
  interval :: duration
  overlapping :: bool
  immediateStart :: bool

datatype periodic_option = WithOverlapping | WithImmediateStart | WithLogger

fun apply_option :: "periodic_option \<Rightarrow> periodic \<Rightarrow> periodic" where
  "apply_option WithOverlapping s = s\<lparr>overlapping := True\<rparr>"
| "apply_option WithImmediateStart s = s\<lparr>immediateStart := True\<rparr>"
| "apply_option WithLogger s = s"

definition New :: "duration \<Rightarrow> periodic_option list \<Rightarrow> periodic" where
  "New d opts = fold apply_option opts \<lparr>interval = d, overlapping = False, immediateStart = False\<rparr>"


section \<open>Start\<close>

text \<open>
  Where Start is: calling fn once before the first tick, in its select loop, in the
  deferred \<^verbatim>\<open>wg.Wait()\<close>, returned (always with nil), or ended by the panic of
  \<^verbatim>\<open>time.NewTicker\<close> on a non-positive interval. A goroutine runs fn, then clears busy
  (only in the non-overlapping loop), then leaves the wait group.
\<close>

datatype phase = Immediate | MakeTicker | Loop | Waiting | Returned | Panicked

datatype goroutine = InFn | ClearBusy | Leave | Gone

record state =
  svc :: periodic
  pc :: phase
  tick :: bool
  ctxDone :: bool
  busy :: bool
  gs :: "goroutine list"
  runs :: nat
  skipped :: nat
  fnErrs :: "err list"

definition init :: "periodic \<Rightarrow> bool \<Rightarrow> state" where
  "init p c = \<lparr>svc = p, pc = (if immediateStart p then Immediate else MakeTicker), tick = False,
     ctxDone = c, busy = False, gs = [], runs = 0, skipped = 0, fnErrs = []\<rparr>"

datatype event =
    FnReturns "err option"
  | NewTicker
  | TimerFires
  | CtxEnds
  | SelTick
  | SelDone
  | FnDone nat "err option"
  | Goroutine nat
  | WgWait

text \<open>An error of fn is only reported to the logger.\<close>

definition report :: "err option \<Rightarrow> err list \<Rightarrow> err list" where
  "report r es = (case r of None \<Rightarrow> es | Some e \<Rightarrow> es @ [e])"

text \<open>
  The select may take either case when both are ready. The ticker's channel holds one
  tick; a tick that finds it full is dropped. FnDone is the return of fn in the goroutine
  with that number, Goroutine its next action after that: the deferred \<^verbatim>\<open>busy.Store(false)\<close>,
  then the \<^verbatim>\<open>Done\<close> of the wait group.
\<close>

definition runNonOverlapping :: "state \<Rightarrow> state" where
  "runNonOverlapping s =
     (if busy s then s\<lparr>tick := False, skipped := skipped s + 1\<rparr>
      else s\<lparr>tick := False, busy := True, gs := gs s @ [InFn], runs := runs s + 1\<rparr>)"

definition runOverlapping :: "state \<Rightarrow> state" where
  "runOverlapping s = s\<lparr>tick := False, gs := gs s @ [InFn], runs := runs s + 1\<rparr>"

definition fn_done :: "nat \<Rightarrow> err option \<Rightarrow> state \<Rightarrow> state" where
  "fn_done i r s =
     s\<lparr>gs := (gs s)[i := if overlapping (svc s) then Leave else ClearBusy], fnErrs := report r (fnErrs s)\<rparr>"

definition step :: "state \<Rightarrow> event \<Rightarrow> state option" where
  "step s e =
     (case e of
        FnReturns r \<Rightarrow>
          (if pc s = Immediate
           then Some (s\<lparr>pc := MakeTicker, runs := runs s + 1, fnErrs := report r (fnErrs s)\<rparr>) else None)
      | NewTicker \<Rightarrow>
          (if pc s = MakeTicker
           then Some (s\<lparr>pc := if interval (svc s) \<le> 0 then Panicked else Loop\<rparr>) else None)
      | TimerFires \<Rightarrow> (if pc s = Loop then Some (s\<lparr>tick := True\<rparr>) else None)
      | CtxEnds \<Rightarrow> Some (s\<lparr>ctxDone := True\<rparr>)
      | SelTick \<Rightarrow>
          (if pc s = Loop \<and> tick s
           then Some (if overlapping (svc s) then runOverlapping s else runNonOverlapping s) else None)
      | SelDone \<Rightarrow> (if pc s = Loop \<and> ctxDone s then Some (s\<lparr>pc := Waiting\<rparr>) else None)
      | FnDone i r \<Rightarrow> (if i < length (gs s) \<and> gs s ! i = InFn then Some (fn_done i r s) else None)
      | Goroutine i \<Rightarrow>
          (if i < length (gs s) \<and> gs s ! i = ClearBusy
           then Some (s\<lparr>gs := (gs s)[i := Leave], busy := False\<rparr>)
           else if i < length (gs s) \<and> gs s ! i = Leave then Some (s\<lparr>gs := (gs s)[i := Gone]\<rparr>)
           else None)
      | WgWait \<Rightarrow>
          (if pc s = Waiting \<and> list_all (\<lambda>g. g = Gone) (gs s) then Some (s\<lparr>pc := Returned\<rparr>) else None))"

definition Start :: "periodic \<Rightarrow> bool \<Rightarrow> event list \<Rightarrow> state option" where
  "Start p c es = lts_run step (init p c) es"

lemmas round_defs = runNonOverlapping_def runOverlapping_def fn_done_def


section \<open>Invariants\<close>

text \<open>How many goroutines are between the tick and the moment busy is cleared.\<close>

definition holders :: "state \<Rightarrow> nat" where
  "holders s = count_list (gs s) InFn + count_list (gs s) ClearBusy"

definition exclusive :: "state \<Rightarrow> bool" where
  "exclusive s \<longleftrightarrow> (\<not> overlapping (svc s) \<longrightarrow> holders s = (if busy s then 1 else 0)) \<and>
     (overlapping (svc s) \<longrightarrow> count_list (gs s) ClearBusy = 0 \<and> \<not> busy s \<and> skipped s = 0)"

definition extra :: "periodic \<Rightarrow> nat" where
  "extra p = (if immediateStart p then 1 else 0)"

definition settled :: "state \<Rightarrow> bool" where
  "settled s \<longleftrightarrow>
     (case pc s of
        Immediate \<Rightarrow> gs s = [] \<and> runs s = 0 \<and> immediateStart (svc s)
      | MakeTicker \<Rightarrow> gs s = [] \<and> runs s = extra (svc s)
      | Panicked \<Rightarrow> gs s = [] \<and> runs s = extra (svc s) \<and> interval (svc s) \<le> 0
      | Loop \<Rightarrow> 0 < interval (svc s) \<and> runs s = length (gs s) + extra (svc s)
      | Waiting \<Rightarrow> 0 < interval (svc s) \<and> runs s = length (gs s) + extra (svc s) \<and> ctxDone s
      | Returned \<Rightarrow> 0 < interval (svc s) \<and> runs s = length (gs s) + extra (svc s) \<and> ctxDone s \<and>
          list_all (\<lambda>g. g = Gone) (gs s))"

lemma exclusive_update:
  assumes "exclusive s" and i: "i < length (gs s)"
    and "gs s ! i = InFn \<and> a = (if overlapping (svc s) then Leave else ClearBusy) \<and> b = busy s \<or>
         gs s ! i = ClearBusy \<and> a = Leave \<and> b = False \<or> gs s ! i = Leave \<and> a = Gone \<and> b = busy s"
  shows "exclusive (s\<lparr>gs := (gs s)[i := a], busy := b\<rparr>)"
  using assms count_list_update [OF i, of a InFn] count_list_update [OF i, of a ClearBusy]
  by (auto simp: exclusive_def holders_def split: if_splits)

lemma exclusive_frame [simp]:
  "exclusive (s\<lparr>fnErrs := es\<rparr>) = exclusive s" "exclusive (s\<lparr>pc := q\<rparr>) = exclusive s"
  "exclusive (s\<lparr>tick := b\<rparr>) = exclusive s" "exclusive (s\<lparr>ctxDone := b\<rparr>) = exclusive s"
  "exclusive (s\<lparr>runs := n\<rparr>) = exclusive s"
  by (simp_all add: exclusive_def holders_def)

lemma exclusive_step: "exclusive s \<Longrightarrow> step s e = Some t \<Longrightarrow> exclusive t"
proof (cases e)
  case (FnDone i r)
  moreover assume "exclusive s" "step s e = Some t"
  ultimately show ?thesis
    using exclusive_update [of s i "if overlapping (svc s) then Leave else ClearBusy" "busy s"]
    by (auto simp: step_def fn_done_def split: if_splits)
next
  case (Goroutine i)
  moreover assume "exclusive s" "step s e = Some t"
  ultimately show ?thesis
    using exclusive_update [of s i Leave False] exclusive_update [of s i Gone "busy s"]
    by (auto simp: step_def split: if_splits)
qed (auto simp: step_def round_defs exclusive_def holders_def split: if_splits)

lemma settled_update:
  assumes "settled s" and "i < length (gs s)" and "gs s ! i \<noteq> Gone"
  shows "settled (s\<lparr>gs := (gs s)[i := a], busy := b, fnErrs := es\<rparr>)"
proof -
  from assms(2,3) have "\<not> list_all (\<lambda>g. g = Gone) (gs s)" "gs s \<noteq> []"
    by (auto simp: list_all_length)
  with assms(1) show ?thesis by (cases "pc s") (simp_all add: settled_def)
qed

lemma settled_step: "settled s \<Longrightarrow> step s e = Some t \<Longrightarrow> settled t"
proof (cases e)
  case (FnDone i r)
  moreover assume "settled s" "step s e = Some t"
  ultimately show ?thesis
    using settled_update [of s i, where a = "if overlapping (svc s) then Leave else ClearBusy"
        and b = "busy s" and es = "report r (fnErrs s)"]
    by (auto simp: step_def fn_done_def split: if_splits)
next
  case (Goroutine i)
  moreover assume "settled s" "step s e = Some t"
  ultimately show ?thesis
    using settled_update [of s i, where a = Leave and b = False and es = "fnErrs s"]
      settled_update [of s i, where a = Gone and b = "busy s" and es = "fnErrs s"]
    by (auto simp: step_def split: if_splits)
next
  case CtxEnds
  moreover assume "settled s" "step s e = Some t"
  ultimately show ?thesis by (cases "pc s") (auto simp: step_def settled_def)
qed (auto simp: step_def round_defs settled_def extra_def split: if_splits)

interpretation per: lts_invariant step "\<lambda>s. exclusive s \<and> settled s"
  by unfold_locales (auto intro: exclusive_step settled_step)

lemma init_inv [simp]: "exclusive (init p c) \<and> settled (init p c)"
  by (simp add: init_def exclusive_def holders_def settled_def extra_def)

text \<open>The service itself never changes.\<close>

interpretation fixed: lts_invariant step "\<lambda>s. svc s = p" for p
  by unfold_locales (auto simp: step_def round_defs split: event.splits if_splits)


section \<open>After the context has ended\<close>

text \<open>
  What is left of a goroutine, and of a Start that has left its loop. The events of that
  phase are the returns of the invocations, the goroutines' own actions and \<^verbatim>\<open>wg.Wait\<close>.
\<close>

fun left :: "goroutine \<Rightarrow> nat" where
  "left InFn = 3"
| "left ClearBusy = 2"
| "left Leave = 1"
| "left Gone = 0"

definition remaining :: "state \<Rightarrow> nat" where
  "remaining s = sum_list (map left (gs s)) + (if pc s = Waiting then 1 else 0)"

fun finishing :: "event \<Rightarrow> bool" where
  "finishing (FnDone i r) = True"
| "finishing (Goroutine i) = True"
| "finishing WgWait = True"
| "finishing e = False"

lemma left_update:
  "i < length xs \<Longrightarrow> left a < left (xs ! i) \<Longrightarrow>
   sum_list (map left (xs[i := a])) < sum_list (map left xs)"
  by (induction xs arbitrary: i) (auto simp: nth_Cons split: nat.splits)

interpretation fin: lts_measure step "\<lambda>s. exclusive s \<and> settled s" remaining finishing
proof
  fix s e t
  assume "finishing e" "step s e = Some t"
  then show "remaining t < remaining s"
    by (cases e) (auto simp: step_def fn_done_def remaining_def intro!: left_update split: if_splits)
qed

lemma not_stuck:
  assumes "pc s = Waiting"
  shows "\<exists>e. finishing e \<and> (\<exists>t. step s e = Some t)"
proof (cases "list_all (\<lambda>g. g = Gone) (gs s)")
  case True
  with assms have "step s WgWait = Some (s\<lparr>pc := Returned\<rparr>)" by (simp add: step_def)
  then show ?thesis using finishing.simps(3) by blast
next
  case False
  then obtain i where i: "i < length (gs s)" "gs s ! i \<noteq> Gone" by (auto simp: list_all_length)
  then consider "gs s ! i = InFn" | "gs s ! i = ClearBusy \<or> gs s ! i = Leave"
    by (cases "gs s ! i") auto
  then show ?thesis
  proof cases
    case 1
    with i(1) have "step s (FnDone i None) = Some (fn_done i None s)" by (simp add: step_def)
    then show ?thesis using finishing.simps(1) by blast
  next
    case 2
    with i(1) have "\<exists>t. step s (Goroutine i) = Some t" by (auto simp: step_def)
    then show ?thesis using finishing.simps(2) by blast
  qed
qed

interpretation leaving: lts_invariant step "\<lambda>s. pc s \<in> {Waiting, Returned}"
  by unfold_locales (auto simp: step_def round_defs split: event.splits if_splits)


section \<open>Properties\<close>

lemma exclusive_one:
  "exclusive s \<Longrightarrow> \<not> overlapping (svc s) \<Longrightarrow>
   count_list (gs s) InFn \<le> 1 \<and> (busy s \<longleftrightarrow> 0 < holders s)"
  by (cases "busy s") (simp_all add: exclusive_def holders_def)

lemma exclusive_none: "exclusive s \<Longrightarrow> overlapping (svc s) \<Longrightarrow> skipped s = 0"
  by (simp add: exclusive_def)

text \<open>How a run has used its ticks.\<close>

definition tally :: "event list \<Rightarrow> state \<Rightarrow> bool" where
  "tally es s \<longleftrightarrow> length (gs s) + skipped s = count_list es SelTick"

interpretation tal: lts_history step tally
proof
  fix es s e t
  assume "tally es s" "step s e = Some t"
  then show "tally (es @ [e]) t"
    by (cases e) (auto simp: step_def round_defs tally_def split: if_splits)
qed

text \<open>
  C15. In the default mode at most one invocation of the callback started by a tick is
  running at any moment of any run, and the busy flag is set exactly while such an
  invocation has not yet cleared it; with WithOverlapping no tick is ever skipped. Each tick
  taken is either skipped or starts one invocation, and WithImmediateStart adds one.
\<close>
theorem periodic_overlap:
  assumes "Start p c es = Some s"
  shows "(\<not> overlapping p \<longrightarrow> count_list (gs s) InFn \<le> 1 \<and> (busy s \<longleftrightarrow> 0 < holders s)) \<and>
    (overlapping p \<longrightarrow> skipped s = 0) \<and>
    runs s + skipped s =
      count_list es SelTick + (if immediateStart p \<and> pc s \<noteq> Immediate then 1 else 0)"
proof -
  from assms have run: "lts_run step (init p c) es = Some s" by (simp add: Start_def)
  have "exclusive s \<and> settled s" by (rule per.run_inv [OF init_inv run])
  moreover have "svc s = p" by (rule fixed.run_inv [OF _ run]) (simp add: init_def)
  moreover have "tally es s" by (rule tal.run_hist [OF _ run]) (simp add: tally_def init_def)
  ultimately show ?thesis
    using exclusive_one [of s] exclusive_none [of s]
    by (cases "pc s") (simp_all add: settled_def tally_def extra_def)
qed

theorem periodic_overlap_witness:
  "\<exists>s. Start (New 5 [WithImmediateStart]) False
     [FnReturns None, NewTicker, TimerFires, SelTick, TimerFires, SelTick] = Some s \<and>
     skipped s = 1 \<and> runs s = 2 \<and> count_list (gs s) InFn \<le> 1"
proof -
  obtain s where s: "Start (New 5 [WithImmediateStart]) False
     [FnReturns None, NewTicker, TimerFires, SelTick, TimerFires, SelTick] = Some s"
    and "skipped s = 1" "runs s = 2"
    by (simp add: Start_def init_def New_def step_def round_defs)
  with periodic_overlap [OF s] show ?thesis by (simp add: New_def)
qed

text \<open>
  C16. Start returns only after its context has ended and only once every invocation it
  started has finished; it then returns nil whatever the invocations returned, since their
  errors only go to the logger. It never leaves the loop by panicking: the one panic is
  that of the ticker for an interval that is not positive, before any tick.
\<close>
theorem periodic_stop:
  assumes "Start p c es = Some s"
  shows "(pc s = Returned \<longrightarrow> ctxDone s \<and> list_all (\<lambda>g. g = Gone) (gs s)) \<and>
    (pc s = Panicked \<longrightarrow> interval p \<le> 0 \<and> gs s = [] \<and> runs s \<le> 1) \<and>
    (interval p \<le> 0 \<longrightarrow> pc s \<in> {Immediate, MakeTicker, Panicked})"
proof -
  from assms have run: "lts_run step (init p c) es = Some s" by (simp add: Start_def)
  have "exclusive s \<and> settled s" by (rule per.run_inv [OF init_inv run])
  moreover have "svc s = p" by (rule fixed.run_inv [OF _ run]) (simp add: init_def)
  ultimately show ?thesis
    by (cases "pc s") (simp_all add: settled_def extra_def)
qed

theorem periodic_stop_witness:
  "\<exists>s. Start (New 5 []) False [NewTicker, TimerFires, SelTick, CtxEnds, SelDone,
     FnDone 0 (Some (ErrNew ''boom'')), Goroutine 0, Goroutine 0, WgWait] = Some s \<and>
     pc s = Returned \<and> ctxDone s \<and> gs s = [Gone]"
proof -
  obtain s where s: "Start (New 5 []) False [NewTicker, TimerFires, SelTick, CtxEnds, SelDone,
     FnDone 0 (Some (ErrNew ''boom'')), Goroutine 0, Goroutine 0, WgWait] = Some s"
    and "pc s = Returned" "gs s = [Gone]"
    by (simp add: Start_def init_def New_def step_def round_defs)
  with periodic_stop [OF s] show ?thesis by simp
qed

text \<open>
  Once the loop has seen the end of its context, Start cannot hang on its own: as long
  as it has not returned, an invocation can return, a goroutine can go on or the wait can
  end, and any sequence of such steps is at most three per invocation and one for the wait.
\<close>
theorem periodic_stop_terminates:
  assumes "Start p c es = Some s" and "pc s = Waiting"
    and "list_all finishing fs" and "lts_run step s fs = Some t"
  shows "length fs \<le> 3 * length (gs s) + 1 \<and>
    (pc t = Returned \<or> (\<exists>e u. finishing e \<and> step t e = Some u))"
proof -
  from assms(1) have run: "lts_run step (init p c) es = Some s" by (simp add: Start_def)
  have inv: "exclusive s \<and> settled s" by (rule per.run_inv [OF init_inv run])
  have "sum_list (map left xs) \<le> 3 * length xs" for xs
  proof (induction xs)
    case (Cons x xs)
    then show ?case by (cases x) auto
  qed simp
  from this [of "gs s"] have "remaining s \<le> 3 * length (gs s) + 1" by (simp add: remaining_def)
  moreover have "length fs + remaining t \<le> remaining s"
    by (rule fin.run_length [OF inv assms(3,4)])
  moreover have "pc t \<in> {Waiting, Returned}"
    by (rule leaving.run_inv [OF _ assms(4)]) (simp add: assms(2))
  ultimately show ?thesis using not_stuck [of t] by auto
qed

theorem periodic_stop_terminates_witness:
  "\<exists>s. Start (New 5 []) False [NewTicker, TimerFires, SelTick, CtxEnds, SelDone] = Some s \<and>
     length (gs s) = 1 \<and> length [FnDone 0 None, Goroutine 0, Goroutine 0, WgWait] \<le> 3 * length (gs s) + 1"
proof -
  obtain s where s: "Start (New 5 []) False [NewTicker, TimerFires, SelTick, CtxEnds, SelDone] = Some s"
    and p: "pc s = Waiting" and l: "length (gs s) = 1"
    and t: "\<exists>t. lts_run step s [FnDone 0 None, Goroutine 0, Goroutine 0, WgWait] = Some t"
    by (simp add: Start_def init_def New_def step_def round_defs)
  from t obtain t where t: "lts_run step s [FnDone 0 None, Goroutine 0, Goroutine 0, WgWait] = Some t" ..
  from s l periodic_stop_terminates [OF s p _ t] show ?thesis by simp
qed

end
