(* ===== verification/Ledger.thy ===== *)
theory Ledger
  imports Retry
begin

text \<open>
  Ledgers for the clients and pools a service opens through a package outside the
  repository: the instrumented package appends to the ledger what it opens and what it closes.
  A connection routine that keeps the ledger balanced is then an instance of the retry
  loop's contract.
\<close>

record 'p ledger =
  opened :: "'p list"
  shut :: "'p list"

definition no_handles :: "'p ledger" where
  "no_handles = \<lparr>opened = [], shut = []\<rparr>"

definition track_wait :: "(duration \<Rightarrow> 'w \<Rightarrow> ctx \<times> 'w) \<Rightarrow> duration \<Rightarrow> 'w \<times> 'l \<Rightarrow> ctx \<times> ('w \<times> 'l)" where
  "track_wait wait b = (\<lambda>(w, l). case wait b w of (c, w1) \<Rightarrow> (c, (w1, l)))"

text \<open>Nothing is open, or nothing but p.\<close>

definition balanced :: "'w \<times> 'p ledger \<Rightarrow> bool" where
  "balanced wl \<longleftrightarrow> opened (snd wl) = shut (snd wl)"

definition only_open :: "'p \<Rightarrow> 'w \<times> 'p ledger \<Rightarrow> bool" where
  "only_open p wl \<longleftrightarrow> opened (snd wl) = shut (snd wl) @ [p]"

lemma balanced_no_handles [simp]: "balanced (w, no_handles)"
  by (simp add: balanced_def no_handles_def)

end
