(* ===== verification/Prom.thy ===== *)
theory Prom
  imports Prelude
begin

text \<open>
  Metric registration, \<^verbatim>\<open>pkg/internal/prom/register.go\<close>, and the vocabulary of metric updates
  the services emit. The Prometheus registry is not part of the repository: it is the
  parameter \<open>reg\<close>, an operation on a registry state of an arbitrary type.
\<close>


section \<open>Collectors\<close>

datatype collector_kind = CounterVec | GaugeVec | HistogramVec

text \<open>
  A collector as the New...Vec call made it: histogram buckets are in thousandths, and
  serial tells two collectors with the same description apart (they are pointers).
\<close>

record collector =
  kind :: collector_kind
  cname :: string
  chelp :: string
  label_names :: "string list"
  buckets :: "nat list"
  serial :: nat

text \<open>What the registry compares: everything but the identity.\<close>

definition desc :: "collector \<Rightarrow> collector_kind \<times> string \<times> string \<times> string list" where
  "desc c = (kind c, cname c, chelp c, label_names c)"

datatype reg_result = RegOk | AlreadyRegistered collector | RegErr err

type_synonym 'r registerer = "collector \<Rightarrow> 'r \<Rightarrow> reg_result \<times> 'r"

text \<open>None is a panic: any other registration error, or a failed type assertion.\<close>

definition RegisterOrReuse :: "'r registerer \<Rightarrow> collector \<Rightarrow> 'r \<Rightarrow> collector option \<times> 'r" where
  "RegisterOrReuse reg c r =
     (case reg c r of
        (RegOk, r1) \<Rightarrow> (Some c, r1)
      | (AlreadyRegistered e, r1) \<Rightarrow> (if kind e = kind c then Some e else None, r1)
      | (RegErr e, r1) \<Rightarrow> (None, r1))"

text \<open>The shape of every initMetrics: one registration after the other.\<close>

fun register_all :: "'r registerer \<Rightarrow> collector list \<Rightarrow> 'r \<Rightarrow> collector list option \<times> 'r" where
  "register_all reg [] r = (Some [], r)"
| "register_all reg (c # cs) r =
     (case RegisterOrReuse reg c r of
        (None, r1) \<Rightarrow> (None, r1)
      | (Some x, r1) \<Rightarrow>
          (case register_all reg cs r1 of
             (None, r2) \<Rightarrow> (None, r2)
           | (Some xs, r2) \<Rightarrow> (Some (x # xs), r2)))"

definition histogram_buckets :: "nat list" where
  "histogram_buckets = [1, 5, 10, 25, 50, 100, 250, 500, 1000, 2500, 5000]"


section \<open>Metric updates\<close>

text \<open>
  Observe is a latency, whose value is left out; ObserveSize carries a byte count, and a
  gauge value is rounded to int.
\<close>

datatype metric =
    Inc string "string list"
  | Dec string "string list"
  | Observe string "string list"
  | ObserveSize string "string list" int
  | SetGauge string "string list" int


section \<open>The registry's contract\<close>

text \<open>
  The documented behaviour of Prometheus' Register, over the collectors the registry holds:
  a description it holds yields that collector, any other one is added or refused.
\<close>

definition reg_contract ::
  "'r registerer \<Rightarrow> ('r \<Rightarrow> collector_kind \<times> string \<times> string \<times> string list \<Rightarrow> collector option) \<Rightarrow> bool"
where
  "reg_contract reg view \<longleftrightarrow>
     (\<forall>c r e. view r (desc c) = Some e \<longrightarrow>
        kind e = kind c \<and> fst (reg c r) = AlreadyRegistered e \<and> view (snd (reg c r)) = view r) \<and>
     (\<forall>c r. view r (desc c) = None \<longrightarrow>
        reg c r = (RegOk, snd (reg c r)) \<and> view (snd (reg c r)) = (view r)(desc c \<mapsto> c) \<or>
        (\<exists>x. fst (reg c r) = RegErr x) \<and> view (snd (reg c r)) = view r)"

lemma reg_known:
  assumes "reg_contract reg view" and "view r (desc c) = Some e"
  shows "fst (RegisterOrReuse reg c r) = Some e \<and> view (snd (RegisterOrReuse reg c r)) = view r"
proof -
  have "kind e = kind c \<and> fst (reg c r) = AlreadyRegistered e \<and> view (snd (reg c r)) = view r"
    using assms unfolding reg_contract_def by blast
  then show ?thesis by (cases "reg c r") (simp add: RegisterOrReuse_def)
qed

lemma reg_new:
  assumes "reg_contract reg view" and "view r (desc c) = None"
    and "RegisterOrReuse reg c r = (Some x, r')"
  shows "x = c \<and> view r' = (view r)(desc c \<mapsto> c)"
proof -
  have "reg c r = (RegOk, snd (reg c r)) \<and> view (snd (reg c r)) = (view r)(desc c \<mapsto> c) \<or>
        (\<exists>x. fst (reg c r) = RegErr x) \<and> view (snd (reg c r)) = view r"
    using assms(1,2) unfolding reg_contract_def by blast
  with assms(3) show ?thesis
    by (cases "reg c r"; cases "fst (reg c r)") (auto simp: RegisterOrReuse_def)
qed

lemma RegisterOrReuse_view:
  assumes "reg_contract reg view" and "RegisterOrReuse reg c r = (Some x, r')"
  shows "view r' (desc c) = Some x \<and> view r \<subseteq>\<^sub>m view r'"
proof (cases "view r (desc c)")
  case None
  with reg_new [OF assms(1) None assms(2)] show ?thesis by (auto simp: map_le_def)
next
  case (Some e)
  with reg_known [OF assms(1) Some] assms(2) show ?thesis by auto
qed

lemma register_all_view:
  "reg_contract reg view \<Longrightarrow> register_all reg cs r = (Some xs, r') \<Longrightarrow>
   length xs = length cs \<and> view r \<subseteq>\<^sub>m view r' \<and>
   list_all2 (\<lambda>c x. view r' (desc c) = Some x) cs xs"
proof (induction cs arbitrary: r xs)
  case Nil
  then show ?case by simp
next
  case (Cons c cs)
  from Cons.prems(2) obtain x r1 ys where
    c: "RegisterOrReuse reg c r = (Some x, r1)" and
    cs: "register_all reg cs r1 = (Some ys, r')" and xs: "xs = x # ys"
    by (auto split: prod.splits option.splits)
  from RegisterOrReuse_view [OF Cons.prems(1) c] have
    x: "view r1 (desc c) = Some x" and le: "view r \<subseteq>\<^sub>m view r1" by auto
  from Cons.IH [OF Cons.prems(1) cs] have
    *: "length ys = length cs" "view r1 \<subseteq>\<^sub>m view r'"
       "list_all2 (\<lambda>c x. view r' (desc c) = Some x) cs ys" by auto
  from x *(2) have "view r' (desc c) = Some x" by (blast intro: map_le_Some)
  with * xs le show ?case by (auto intro: map_le_trans)
qed

lemma register_all_known:
  "reg_contract reg view \<Longrightarrow> list_all2 (\<lambda>c x. view r (desc c) = Some x) cs xs \<Longrightarrow>
   fst (register_all reg cs r) = Some xs"
proof (induction cs arbitrary: r xs)
  case Nil
  then show ?case by simp
next
  case (Cons c cs)
  from Cons.prems(2) obtain x ys where xs: "xs = x # ys" and x: "view r (desc c) = Some x"
    and ys: "list_all2 (\<lambda>c x. view r (desc c) = Some x) cs ys"
    by (auto simp: list_all2_Cons1)
  obtain r1 where c: "RegisterOrReuse reg c r = (Some x, r1)" and v: "view r1 = view r"
    using reg_known [OF Cons.prems(1) x] by (metis prod.collapse)
  have "fst (register_all reg cs r1) = Some ys"
    by (rule Cons.IH [OF Cons.prems(1)]) (use ys v in simp)
  with c xs show ?case by (auto split: prod.splits)
qed


section \<open>Properties\<close>

text \<open>
  Registering metrics is idempotent across services that share a registry: once one
  service has registered its collectors, any later service that registers collectors with the
  same descriptions gets those very collectors and does not panic, whatever was registered
  in between.
\<close>
theorem prom_shared:
  assumes "reg_contract reg view"
    and "register_all reg cs r = (Some xs, ra)"
    and "register_all reg other ra = (Some ys, rb)"
    and "map desc cs' = map desc cs"
  shows "fst (register_all reg cs' rb) = Some xs"
proof (rule register_all_known [OF assms(1)])
  from register_all_view [OF assms(1,2)] have
    "list_all2 (\<lambda>c x. view ra (desc c) = Some x) cs xs" by blast
  moreover from register_all_view [OF assms(1,3)] have "view ra \<subseteq>\<^sub>m view rb" by blast
  ultimately have "list_all2 (\<lambda>c x. view rb (desc c) = Some x) cs xs"
    by (auto elim!: list_all2_mono intro: map_le_Some)
  then show "list_all2 (\<lambda>c x. view rb (desc c) = Some x) cs' xs"
    using assms(4) by (auto simp: list_all2_conv_all_nth dest: map_eq_imp_length_eq)
      (metis nth_map map_eq_imp_length_eq)
qed

text \<open>A registry that keeps its collectors in a map.\<close>

definition map_reg ::
  "(collector_kind \<times> string \<times> string \<times> string list \<Rightarrow> collector option) registerer"
where
  "map_reg c m = (case m (desc c) of
     Some e \<Rightarrow> (if desc e = desc c then AlreadyRegistered e else RegErr (ErrNew ''corrupt''), m)
   | None \<Rightarrow> (RegOk, m(desc c \<mapsto> c)))"

definition demo_collector :: "nat \<Rightarrow> collector" where
  "demo_collector n = \<lparr>kind = CounterVec, cname = ''hits'', chelp = '''', label_names = [], buckets = [],
     serial = n\<rparr>"

theorem prom_shared_witness:
  "fst (register_all map_reg [demo_collector 2] [desc (demo_collector 1) \<mapsto> demo_collector 1]) =
     Some [demo_collector 1]"
proof (rule prom_shared [where view = "\<lambda>m d. case m d of Some e \<Rightarrow> if desc e = d then Some e else None | None \<Rightarrow> None"
      and other = "[]" and cs = "[demo_collector 1]" and r = Map.empty and ys = "[]"
      and ra = "[desc (demo_collector 1) \<mapsto> demo_collector 1]"])
qed (simp_all add: reg_contract_def map_reg_def desc_def demo_collector_def RegisterOrReuse_def fun_eq_iff
      split: option.splits)

end
