(* ===== verification/DbService.thy ===== *)
theory DbService
  imports Ledger Prom Channel
begin

text \<open>
  The managed PostgreSQL pool of \<^verbatim>\<open>pkg/dbservice/service.go\<close>. The pgxpool package is a
  parameter (\<open>pgxpool\<close>, a record of its functions over a world of an arbitrary type);
  \<open>track\<close> instruments it with a ledger of the pools it opened and closed. \<open>connectOnce\<close>
  and \<open>connect\<close> are the sequential part of Start; \<open>step\<close> interleaves the rest of Start with
  any number of Stop calls and their goroutines.
\<close>


section \<open>The service and its options\<close>

record db_service =
  dsn :: string
  maxConns :: int
  minConns :: int
  appName :: string
  retry :: Config
  metricsInterval :: duration

datatype db_option =
    WithMaxConns int
  | WithMinConns int
  | WithRetry Config
  | WithMetricsInterval duration
  | WithAppName string
  | WithLogger
  | WithPrometheusRegisterer

fun apply_option :: "db_option \<Rightarrow> db_service \<Rightarrow> db_service" where
  "apply_option (WithMaxConns n) s = s\<lparr>maxConns := n\<rparr>"
| "apply_option (WithMinConns n) s = s\<lparr>minConns := n\<rparr>"
| "apply_option (WithRetry cfg) s = s\<lparr>retry := cfg\<rparr>"
| "apply_option (WithMetricsInterval d) s = s\<lparr>metricsInterval := d\<rparr>"
| "apply_option (WithAppName n) s = s\<lparr>appName := n\<rparr>"
| "apply_option WithLogger s = s"
| "apply_option WithPrometheusRegisterer s = s"

definition New :: "string \<Rightarrow> db_option list \<Rightarrow> db_service" where
  "New d opts = fold apply_option opts
     \<lparr>dsn = d, maxConns = 10, minConns = 2, appName = '''', retry = DefaultConfig,
      metricsInterval = 15 * Second\<rparr>"


section \<open>The pool package\<close>

record 'x pgx_config =
  MaxConns :: int
  MinConns :: int
  settings :: 'x

record pool_stat =
  TotalConns :: int
  IdleConns :: int
  AcquiredConns :: int
  ConstructingConns :: int
  StatMaxConns :: int
  AcquireCount :: int

record ('w, 'x, 'p) pgxpool =
  ParseConfig :: "string \<Rightarrow> 'x pgx_config res"
  NewWithConfig :: "'x pgx_config \<Rightarrow> ('w, 'p) op"
  Ping :: "'p \<Rightarrow> 'w \<Rightarrow> err option \<times> 'w"
  Close :: "'p \<Rightarrow> 'w \<Rightarrow> 'w"
  Stat :: "'p \<Rightarrow> 'w \<Rightarrow> pool_stat"

definition track :: "('w, 'x, 'p) pgxpool \<Rightarrow> ('w \<times> 'p ledger, 'x, 'p) pgxpool" where
  "track api =
     \<lparr>ParseConfig = ParseConfig api,
      NewWithConfig = (\<lambda>cfg (w, l). case NewWithConfig api cfg w of
          (Inl e, w1) \<Rightarrow> (Inl e, (w1, l))
        | (Inr p, w1) \<Rightarrow> (Inr p, (w1, l\<lparr>opened := opened l @ [p]\<rparr>))),
      Ping = (\<lambda>p (w, l). case Ping api p w of (r, w1) \<Rightarrow> (r, (w1, l))),
      Close = (\<lambda>p (w, l). (Close api p w, l\<lparr>shut := shut l @ [p]\<rparr>)),
      Stat = (\<lambda>p (w, l). Stat api p w)\<rparr>"


section \<open>Connecting\<close>

definition connectOnce :: "('w, 'x, 'p) pgxpool \<Rightarrow> 'x pgx_config \<Rightarrow> ('w, 'p) op" where
  "connectOnce api cfg w =
     (case NewWithConfig api cfg w of
        (Inl e, w1) \<Rightarrow> (Inl (Wrap ''dbservice: create pool'' e), w1)
      | (Inr p, w1) \<Rightarrow>
          (case Ping api p w1 of
             (Some e, w2) \<Rightarrow> (Inl (Wrap ''dbservice: ping'' e), Close api p w2)
           | (None, w2) \<Rightarrow> (Inr p, w2)))"

text \<open>The beginning of Start: the pool, or the error Start returns.\<close>

definition connect ::
  "(int \<Rightarrow> int) \<Rightarrow> ('w, 'x, 'p) pgxpool \<Rightarrow> (duration \<Rightarrow> 'w \<Rightarrow> ctx \<times> 'w) \<Rightarrow> db_service \<Rightarrow> ('w, 'p) op"
where
  "connect conv api wait s w =
     (case ParseConfig api (dsn s) of
        Inl e \<Rightarrow> (Inl (Wrap ''dbservice: parse dsn'' e), w)
      | Inr cfg \<Rightarrow>
          (let cfg' = cfg\<lparr>MaxConns := maxConns s, MinConns := minConns s\<rparr>
           in case Do conv (retry s) (connectOnce api cfg') wait w of
                (Inl e, w1) \<Rightarrow> (Inl (Wrap ''dbservice: connect'' e), w1)
              | (Inr p, w1) \<Rightarrow> (Inr p, w1)))"

text \<open>
  One attempt keeps the books balanced: after a failed attempt every pool it opened is
  closed, after a successful one exactly the returned pool is open.
\<close>

interpretation dbc: retried "connectOnce (track api) cfg" "track_wait wait" balanced only_open
  for api :: "('w, 'x, 'p) pgxpool" and cfg and wait
  by unfold_locales
    (auto simp: connectOnce_def track_def track_wait_def balanced_def only_open_def
      split: prod.splits sum.splits option.splits)

lemma db_connect_books:
  assumes "connect conv (track api) (track_wait wait) s (w, no_handles) = (r, wl)"
  shows "case r of Inl e \<Rightarrow> balanced wl | Inr p \<Rightarrow> only_open p wl"
proof (cases "ParseConfig (track api) (dsn s)")
  case (Inl e)
  with assms show ?thesis by (auto simp: connect_def balanced_def no_handles_def)
next
  case (Inr cfg)
  let ?cfg = "cfg\<lparr>MaxConns := maxConns s, MinConns := minConns s\<rparr>"
  obtain r' where d: "Do conv (retry s) (connectOnce (track api) ?cfg) (track_wait wait) (w, no_handles) =
      (r', wl)"
    and r: "r = wrap_res ''dbservice: connect'' r'"
    using assms Inr
    by (cases "fst (Do conv (retry s) (connectOnce (track api) ?cfg) (track_wait wait) (w, no_handles))")
      (auto simp: connect_def split: prod.splits)
  have "case r' of Inl e \<Rightarrow> balanced wl | Inr p \<Rightarrow> only_open p wl"
    by (rule dbc.Do_contract [OF _ d]) (simp add: balanced_def no_handles_def)
  with r show ?thesis by (cases r') auto
qed


section \<open>The running service\<close>

definition initMetrics :: "collector list" where
  "initMetrics =
     [\<lparr>kind = GaugeVec, cname = ''db_pool_conns'', chelp = ''Number of connections in the pool by state.'',
       label_names = [''db_service'', ''state''], buckets = [], serial = 0\<rparr>,
      \<lparr>kind = GaugeVec, cname = ''db_pool_max_conns'', chelp = ''Maximum size of the connection pool.'',
       label_names = [''db_service''], buckets = [], serial = 1\<rparr>,
      \<lparr>kind = GaugeVec, cname = ''db_pool_acquire_count'',
       chelp = ''Cumulative number of successful connection acquires (polled snapshot, not a true counter).'',
       label_names = [''db_service''], buckets = [], serial = 2\<rparr>,
      \<lparr>kind = HistogramVec, cname = ''db_probe_duration_seconds'',
       chelp = ''The latency of readiness probe pings.'',
       label_names = [''db_service''], buckets = histogram_buckets, serial = 3\<rparr>]"

definition sample :: "string \<Rightarrow> pool_stat \<Rightarrow> metric list" where
  "sample app st =
     [SetGauge ''db_pool_conns'' [app, ''total''] (TotalConns st),
      SetGauge ''db_pool_conns'' [app, ''idle''] (IdleConns st),
      SetGauge ''db_pool_conns'' [app, ''acquired''] (AcquiredConns st),
      SetGauge ''db_pool_conns'' [app, ''constructing''] (ConstructingConns st),
      SetGauge ''db_pool_max_conns'' [app] (StatMaxConns st),
      SetGauge ''db_pool_acquire_count'' [app] (AcquireCount st)]"

text \<open>
  Where Start is, what the goroutine of a Stop call does, and the state of \<^verbatim>\<open>shutdownOnce\<close>:
  while one goroutine is inside it, the others wait for it.
\<close>

datatype 'p start_pc =
    Connecting
  | Connected 'p
  | MetricsReady 'p
  | Stored 'p
  | Serving 'p
  | StartReturned "err option"
  | StartPanicked

datatype closer = Spawned | Closing | Done

datatype once = OnceNew | OnceRunning nat | OnceDone

record 'p stop_call =
  target :: "'p option"
  closer :: closer
  outcome :: "unit res option"

record ('w, 'p, 'r) db =
  svc :: db_service
  pc :: "'p start_pc"
  pool :: "'p option"
  metricsSet :: bool
  shutdownOnce :: once
  stops :: "'p stop_call list"
  ctxDone :: bool
  metrics :: "metric list"
  world :: "'w \<times> 'p ledger"
  registry :: 'r

definition init :: "db_service \<Rightarrow> 'w \<Rightarrow> 'r \<Rightarrow> ('w, 'p, 'r) db" where
  "init s w r = \<lparr>svc = s, pc = Connecting, pool = None, metricsSet = False, shutdownOnce = OnceNew,
     stops = [], ctxDone = False, metrics = [], world = (w, no_handles), registry = r\<rparr>"

datatype event =
    Connect
  | InitMetrics
  | StorePool
  | MakeTicker
  | Sample
  | CtxEnds
  | LoopDone
  | CallStop
  | OnceEnter nat
  | CloseReturns nat
  | OncePass nat
  | StopDone nat
  | StopTimeout nat ctx_err

text \<open>The steps of Start's own thread.\<close>

fun start_step ::
  "(int \<Rightarrow> int) \<Rightarrow> ('w, 'x, 'p) pgxpool \<Rightarrow> (duration \<Rightarrow> 'w \<Rightarrow> ctx \<times> 'w) \<Rightarrow> 'r registerer \<Rightarrow>
   ('w, 'p, 'r) db \<Rightarrow> event \<Rightarrow> ('w, 'p, 'r) db option"
where
  "start_step conv api wait reg s Connect =
     (case pc s of
        Connecting \<Rightarrow>
          (case connect conv (track api) (track_wait wait) (svc s) (world s) of
             (Inl e, w) \<Rightarrow> Some (s\<lparr>world := w, pc := StartReturned (Some e)\<rparr>)
           | (Inr p, w) \<Rightarrow> Some (s\<lparr>world := w, pc := Connected p\<rparr>))
      | _ \<Rightarrow> None)"
| "start_step conv api wait reg s InitMetrics =
     (case pc s of
        Connected p \<Rightarrow>
          (case register_all reg initMetrics (registry s) of
             (None, r) \<Rightarrow> Some (s\<lparr>registry := r, pc := StartPanicked\<rparr>)
           | (Some cs, r) \<Rightarrow> Some (s\<lparr>registry := r, metricsSet := True, pc := MetricsReady p\<rparr>))
      | _ \<Rightarrow> None)"
| "start_step conv api wait reg s StorePool =
     (case pc s of MetricsReady p \<Rightarrow> Some (s\<lparr>pool := Some p, pc := Stored p\<rparr>) | _ \<Rightarrow> None)"
| "start_step conv api wait reg s MakeTicker =
     (case pc s of
        Stored p \<Rightarrow> Some (s\<lparr>pc := if metricsInterval (svc s) \<le> 0 then StartPanicked else Serving p\<rparr>)
      | _ \<Rightarrow> None)"
| "start_step conv api wait reg s Sample =
     (case pc s of
        Serving p \<Rightarrow>
          Some (s\<lparr>metrics := metrics s @ sample (appName (svc s)) (Stat (track api) p (world s))\<rparr>)
      | _ \<Rightarrow> None)"
| "start_step conv api wait reg s LoopDone =
     (case pc s of
        Serving p \<Rightarrow> if ctxDone s then Some (s\<lparr>pc := StartReturned None\<rparr>) else None
      | _ \<Rightarrow> None)"
| "start_step conv api wait reg s _ = None"

text \<open>
  Stop reads the pool once; without one it returns nil at once. Its goroutine enters the
  once or passes it, and closes done; Stop itself returns when done is closed or its
  context ends, whichever its select takes.
\<close>

definition set_stop :: "nat \<Rightarrow> ('p stop_call \<Rightarrow> 'p stop_call) \<Rightarrow> ('w, 'p, 'r) db \<Rightarrow> ('w, 'p, 'r) db" where
  "set_stop i f s = s\<lparr>stops := (stops s)[i := f (stops s ! i)]\<rparr>"

fun stop_step ::
  "('w, 'x, 'p) pgxpool \<Rightarrow> ('w, 'p, 'r) db \<Rightarrow> event \<Rightarrow> ('w, 'p, 'r) db option"
where
  "stop_step api s CallStop =
     Some (s\<lparr>stops := stops s @
       [\<lparr>target = pool s, closer = Spawned,
         outcome = (if pool s = None then Some (Inr ()) else None)\<rparr>]\<rparr>)"
| "stop_step api s (OnceEnter i) =
     (if i < length (stops s) \<and> target (stops s ! i) \<noteq> None \<and> closer (stops s ! i) = Spawned \<and>
         shutdownOnce s = OnceNew
      then Some (set_stop i (\<lambda>c. c\<lparr>closer := Closing\<rparr>) (s\<lparr>shutdownOnce := OnceRunning i\<rparr>)) else None)"
| "stop_step api s (CloseReturns i) =
     (if i < length (stops s) \<and> closer (stops s ! i) = Closing
      then (case target (stops s ! i) of
              Some p \<Rightarrow> Some (set_stop i (\<lambda>c. c\<lparr>closer := Done\<rparr>)
                          (s\<lparr>shutdownOnce := OnceDone, world := Close (track api) p (world s)\<rparr>))
            | None \<Rightarrow> None)
      else None)"
| "stop_step api s (OncePass i) =
     (if i < length (stops s) \<and> target (stops s ! i) \<noteq> None \<and> closer (stops s ! i) = Spawned \<and>
         shutdownOnce s = OnceDone
      then Some (set_stop i (\<lambda>c. c\<lparr>closer := Done\<rparr>) s) else None)"
| "stop_step api s (StopDone i) =
     (if i < length (stops s) \<and> outcome (stops s ! i) = None \<and> closer (stops s ! i) = Done
      then Some (set_stop i (\<lambda>c. c\<lparr>outcome := Some (Inr ())\<rparr>) s) else None)"
| "stop_step api s (StopTimeout i e) =
     (if i < length (stops s) \<and> outcome (stops s ! i) = None
      then Some (set_stop i (\<lambda>c. c\<lparr>outcome := Some (Inl (Wrap ''dbservice: stop'' (CtxErr e)))\<rparr>) s)
      else None)"
| "stop_step api s CtxEnds = Some (s\<lparr>ctxDone := True\<rparr>)"
| "stop_step api s _ = None"

definition step ::
  "(int \<Rightarrow> int) \<Rightarrow> ('w, 'x, 'p) pgxpool \<Rightarrow> (duration \<Rightarrow> 'w \<Rightarrow> ctx \<times> 'w) \<Rightarrow> 'r registerer \<Rightarrow>
   ('w, 'p, 'r) db \<Rightarrow> event \<Rightarrow> ('w, 'p, 'r) db option"
where
  "step conv api wait reg s e =
     (if e \<in> {Connect, InitMetrics, StorePool, MakeTicker, Sample, LoopDone}
      then start_step conv api wait reg s e else stop_step api s e)"

text \<open>
  Probe returns the error and the metric updates; a nil collector would panic, which is None.
\<close>

definition Probe :: "('w, 'x, 'p) pgxpool \<Rightarrow> ('w, 'p, 'r) db \<Rightarrow> (unit res \<times> ('w, 'p, 'r) db) option" where
  "Probe api s =
     (case pool s of
        None \<Rightarrow> Some (Inl (ErrNew ''dbservice: not connected''), s)
      | Some p \<Rightarrow>
          (case Ping (track api) p (world s) of
             (r, w) \<Rightarrow>
               if metricsSet s
               then Some ((case r of None \<Rightarrow> Inr () | Some e \<Rightarrow> Inl (Wrap ''dbservice: probe'' e)),
                 s\<lparr>world := w,
                   metrics := metrics s @ [Observe ''db_probe_duration_seconds'' [appName (svc s)]]\<rparr>)
               else None))"

definition Pool :: "('w, 'p, 'r) db \<Rightarrow> 'p option" where
  "Pool s = pool s"


section \<open>Invariants\<close>

text \<open>The pool in the service's hands: open until the once is done, all closed after it.\<close>

definition held :: "('w, 'p, 'r) db \<Rightarrow> 'p \<Rightarrow> bool" where
  "held s p \<longleftrightarrow> pool s = Some p \<and> metricsSet s \<and>
     (if shutdownOnce s = OnceDone then balanced (world s) else only_open p (world s))"

definition unheld :: "('w, 'p, 'r) db \<Rightarrow> bool" where
  "unheld s \<longleftrightarrow> pool s = None \<and> shutdownOnce s = OnceNew"

definition start_ok :: "('w, 'p, 'r) db \<Rightarrow> bool" where
  "start_ok s \<longleftrightarrow>
     (case pc s of
        Connecting \<Rightarrow> unheld s \<and> snd (world s) = no_handles
      | Connected p \<Rightarrow> unheld s \<and> only_open p (world s)
      | MetricsReady p \<Rightarrow> unheld s \<and> only_open p (world s) \<and> metricsSet s
      | Stored p \<Rightarrow> held s p
      | Serving p \<Rightarrow> held s p
      | StartReturned (Some e) \<Rightarrow> unheld s \<and> balanced (world s)
      | StartReturned None \<Rightarrow> \<exists>p. held s p
      | StartPanicked \<Rightarrow> unheld s \<and> (\<exists>p. only_open p (world s)) \<or> (\<exists>p. held s p))"

definition stop_ok :: "'p option \<Rightarrow> once \<Rightarrow> nat \<Rightarrow> 'p stop_call \<Rightarrow> bool" where
  "stop_ok pl o1 i c \<longleftrightarrow>
     (target c = None \<or> target c = pl) \<and>
     (closer c = Closing \<longleftrightarrow> o1 = OnceRunning i) \<and>
     (closer c = Done \<longrightarrow> o1 = OnceDone) \<and>
     (target c = None \<longrightarrow> closer c = Spawned) \<and>
     (outcome c = Some (Inr ()) \<and> target c \<noteq> None \<longrightarrow> closer c = Done)"

definition stops_ok :: "('w, 'p, 'r) db \<Rightarrow> bool" where
  "stops_ok s \<longleftrightarrow> (\<forall>i < length (stops s). stop_ok (pool s) (shutdownOnce s) i (stops s ! i)) \<and>
     (\<forall>i. shutdownOnce s = OnceRunning i \<longrightarrow> i < length (stops s))"

lemma held_once:
  "held s p \<Longrightarrow> shutdownOnce s \<noteq> OnceDone \<Longrightarrow> held (s\<lparr>shutdownOnce := OnceRunning i\<rparr>) p"
  by (simp add: held_def)

lemma held_close:
  "held s p \<Longrightarrow> shutdownOnce s \<noteq> OnceDone \<Longrightarrow>
   held (s\<lparr>shutdownOnce := OnceDone, world := Close (track api) p (world s)\<rparr>) p"
  by (cases "world s") (auto simp: held_def track_def balanced_def only_open_def)

lemma start_ok_frame [simp]:
  "start_ok (s\<lparr>stops := cs\<rparr>) = start_ok s" "start_ok (s\<lparr>ctxDone := b\<rparr>) = start_ok s"
  "start_ok (s\<lparr>metrics := ms\<rparr>) = start_ok s"
  by (simp_all add: start_ok_def held_def unheld_def cong: start_pc.case_cong option.case_cong)

lemma db_held_frame [simp]: "held (s\<lparr>pc := q\<rparr>) p = held s p" "unheld (s\<lparr>pc := q\<rparr>) = unheld s"
  by (simp_all add: held_def unheld_def)

lemma start_ok_set_stop [simp]: "start_ok (set_stop i f s) = start_ok s"
  by (simp add: set_stop_def)

lemma start_ok_pool:
  "start_ok s \<Longrightarrow> pool s = Some p \<Longrightarrow> held s p"
  by (cases "pc s") (auto simp: start_ok_def held_def unheld_def split: option.splits)

lemma start_ok_held:
  assumes "start_ok s" and "held s p" and "held t p" and "pc t = pc s"
  shows "start_ok t"
proof -
  have "pool s = Some p" and "pool t = Some p" using assms by (auto simp: held_def)
  then show ?thesis using assms
    by (cases "pc s") (auto simp: start_ok_def unheld_def held_def [of s] split: option.splits)
qed

lemma db_start_step_ok:
  assumes "start_ok s" and "start_step conv api wait reg s e = Some t"
  shows "start_ok t"
proof (cases e)
  case Connect
  define w where "w = fst (world s)"
  have w: "pc s = Connecting \<Longrightarrow> world s = (w, no_handles)"
    using assms(1) by (simp add: start_ok_def w_def prod_eq_iff)
  obtain r wl where c: "connect conv (track api) (track_wait wait) (svc s) (world s) = (r, wl)"
    by (meson surj_pair)
  from Connect assms w c db_connect_books [of conv api wait "svc s" w r wl] show ?thesis
    by (cases r; cases "pc s") (auto simp: start_ok_def unheld_def)
next
  case InitMetrics
  obtain r rg where "register_all reg initMetrics (registry s) = (r, rg)" by fastforce
  with InitMetrics assms show ?thesis
    by (cases "pc s"; cases r) (auto simp: start_ok_def unheld_def)
next
  case StorePool
  with assms show ?thesis by (cases "pc s") (auto simp: start_ok_def unheld_def held_def)
next
  case MakeTicker
  with assms show ?thesis by (cases "pc s") (auto simp: start_ok_def)
next
  case Sample
  with assms show ?thesis by (cases "pc s") auto
next
  case LoopDone
  with assms obtain p where "held s p" and t: "t = s\<lparr>pc := StartReturned None\<rparr>"
    by (cases "pc s") (auto simp: start_ok_def split: if_splits)
  then have "held t p" by simp
  with t show ?thesis by (auto simp: start_ok_def)
qed (use assms in auto)

lemma stop_ok_store: "stop_ok None o1 i c \<Longrightarrow> stop_ok (Some p) o1 i c"
  by (auto simp: stop_ok_def)

lemma stop_ok_new:
  "o1 \<noteq> OnceRunning i \<Longrightarrow> (pl = None \<longrightarrow> r = Some (Inr ())) \<and> (pl \<noteq> None \<longrightarrow> r = None) \<Longrightarrow>
   stop_ok pl o1 i \<lparr>target = pl, closer = Spawned, outcome = r\<rparr>"
  by (auto simp: stop_ok_def)

lemma start_step_stops:
  assumes "stops_ok s" and "start_ok s" and "start_step conv api wait reg s e = Some t"
  shows "stops_ok t"
proof (cases "e = StorePool")
  case True
  then obtain p where p: "pc s = MetricsReady p" and t: "t = s\<lparr>pool := Some p, pc := Stored p\<rparr>"
    using assms(3) by (cases "pc s") auto
  have "pool s = None" using assms(2) p by (simp add: start_ok_def unheld_def)
  with assms(1) t show ?thesis by (auto simp: stops_ok_def intro: stop_ok_store)
next
  case False
  then have "pool t = pool s \<and> shutdownOnce t = shutdownOnce s \<and> stops t = stops s"
    using assms(3)
    by (cases e; cases "pc s") (auto split: prod.splits sum.splits option.splits if_splits)
  with assms(1) show ?thesis by (simp add: stops_ok_def)
qed

text \<open>Changing one Stop call, and possibly the once, keeps the calls consistent.\<close>

lemma stops_ok_update:
  assumes "stops_ok s" and "i < length (stops s)"
    and "stop_ok (pool s) o1 i (f (stops s ! i))"
    and "\<And>j c. j \<noteq> i \<Longrightarrow> stop_ok (pool s) (shutdownOnce s) j c \<Longrightarrow> stop_ok (pool s) o1 j c"
    and "\<And>j. o1 = OnceRunning j \<Longrightarrow> j < length (stops s)"
  shows "stops_ok (set_stop i f (s\<lparr>shutdownOnce := o1, world := w\<rparr>))"
  using assms by (auto simp: stops_ok_def set_stop_def nth_list_update)

lemma stops_ok_call:
  assumes "stops_ok s" and "i < length (stops s)"
    and "stop_ok (pool s) (shutdownOnce s) i (stops s ! i) \<Longrightarrow>
      stop_ok (pool s) (shutdownOnce s) i (f (stops s ! i))"
  shows "stops_ok (set_stop i f s)"
  using assms by (auto simp: stops_ok_def set_stop_def nth_list_update)

lemma stop_ok_at:
  "stops_ok s \<Longrightarrow> i < length (stops s) \<Longrightarrow> stop_ok (pool s) (shutdownOnce s) i (stops s ! i)"
  by (simp add: stops_ok_def)

lemma db_stop_step_ok:
  assumes "start_ok s" and "stops_ok s" and "stop_step api s e = Some t"
  shows "start_ok t \<and> stops_ok t"
proof (cases e)
  case CallStop
  with assms show ?thesis
    by (auto simp: stops_ok_def nth_append less_Suc_eq intro!: stop_ok_new)
next
  case (OnceEnter i)
  then have i: "i < length (stops s)" and o: "shutdownOnce s = OnceNew"
    and c: "closer (stops s ! i) = Spawned" "target (stops s ! i) \<noteq> None"
    and t: "t = set_stop i (\<lambda>c. c\<lparr>closer := Closing\<rparr>) (s\<lparr>shutdownOnce := OnceRunning i\<rparr>)"
    using assms(3) by (auto split: if_splits)
  from stop_ok_at [OF assms(2) i] c obtain p where p: "pool s = Some p"
    by (auto simp: stop_ok_def)
  have h: "held s p" by (rule start_ok_pool [OF assms(1) p])
  have "start_ok (s\<lparr>shutdownOnce := OnceRunning i\<rparr>)"
    by (rule start_ok_held [OF assms(1) h]) (simp_all add: held_once [OF h] o)
  moreover have "stops_ok (set_stop i (\<lambda>c. c\<lparr>closer := Closing\<rparr>)
      (s\<lparr>shutdownOnce := OnceRunning i, world := world s\<rparr>))"
    by (rule stops_ok_update [OF assms(2) i])
      (use stop_ok_at [OF assms(2) i] o c i in \<open>auto simp: stop_ok_def\<close>)
  ultimately show ?thesis by (simp add: t set_stop_def)
next
  case (CloseReturns i)
  then obtain p where i: "i < length (stops s)" and c: "closer (stops s ! i) = Closing"
    and p: "target (stops s ! i) = Some p"
    and t: "t = set_stop i (\<lambda>c. c\<lparr>closer := Done\<rparr>)
      (s\<lparr>shutdownOnce := OnceDone, world := Close (track api) p (world s)\<rparr>)"
    using assms(3) by (auto split: if_splits option.splits)
  from stop_ok_at [OF assms(2) i] c p have o: "shutdownOnce s = OnceRunning i" and pl: "pool s = Some p"
    by (auto simp: stop_ok_def)
  have h: "held s p" by (rule start_ok_pool [OF assms(1) pl])
  have "start_ok (s\<lparr>shutdownOnce := OnceDone, world := Close (track api) p (world s)\<rparr>)"
    by (rule start_ok_held [OF assms(1) h]) (simp_all add: held_close [OF h] o)
  moreover have "stops_ok t"
    unfolding t by (rule stops_ok_update [OF assms(2) i])
      (use stop_ok_at [OF assms(2) i] o c i in \<open>auto simp: stop_ok_def\<close>)
  ultimately show ?thesis by (simp add: t set_stop_def)
next
  case (OncePass i)
  with assms show ?thesis
    by (auto intro!: stops_ok_call simp: stop_ok_def split: if_splits) (metis option.distinct(1))
next
  case (StopDone i)
  with assms show ?thesis by (auto intro!: stops_ok_call simp: stop_ok_def split: if_splits)
next
  case (StopTimeout i x)
  with assms show ?thesis by (auto intro!: stops_ok_call simp: stop_ok_def split: if_splits)
qed (use assms in \<open>auto simp: stops_ok_def\<close>)

interpretation dbs: lts_invariant "step conv api wait reg" "\<lambda>s. start_ok s \<and> stops_ok s"
  for conv api wait reg
proof
  fix s e t
  assume i: "start_ok s \<and> stops_ok s" and "step conv api wait reg s e = Some t"
  then consider "start_step conv api wait reg s e = Some t" | "stop_step api s e = Some t"
    by (auto simp: step_def split: if_splits)
  then show "start_ok t \<and> stops_ok t"
    using i by cases (auto intro: db_start_step_ok start_step_stops dest: db_stop_step_ok)
qed

lemma db_init_ok [simp]: "start_ok (init s w r) \<and> stops_ok (init s w r)"
  by (simp add: init_def start_ok_def stops_ok_def unheld_def)


section \<open>Properties\<close>

text \<open>
  C17. Connecting leaks nothing: whatever the attempts, waits and cancellations do, if Start
  fails to connect, every pool that an attempt created has been closed again, and if it
  succeeds, exactly the pool it goes on with is open. A DSN that does not parse opens no
  pool, and every error Start returns from this phase names the step that failed.
\<close>
theorem db_connect_no_leak:
  assumes "connect conv (track api) (track_wait wait) s (w, no_handles) = (r, w', l)"
  shows "(case r of Inl e \<Rightarrow> opened l = shut l | Inr p \<Rightarrow> opened l = shut l @ [p]) \<and>
    (\<forall>e. ParseConfig api (dsn s) = Inl e \<longrightarrow>
       r = Inl (Wrap ''dbservice: parse dsn'' e) \<and> l = no_handles) \<and>
    (\<forall>e cfg. ParseConfig api (dsn s) = Inr cfg \<and> r = Inl e \<longrightarrow> (\<exists>f. e = Wrap ''dbservice: connect'' f))"
proof (intro conjI)
  show "case r of Inl e \<Rightarrow> opened l = shut l | Inr p \<Rightarrow> opened l = shut l @ [p]"
    using db_connect_books [OF assms] by (simp add: balanced_def only_open_def split: sum.splits)
  show "\<forall>e. ParseConfig api (dsn s) = Inl e \<longrightarrow>
      r = Inl (Wrap ''dbservice: parse dsn'' e) \<and> l = no_handles"
    using assms by (auto simp: connect_def track_def)
  show "\<forall>e cfg. ParseConfig api (dsn s) = Inr cfg \<and> r = Inl e \<longrightarrow> (\<exists>f. e = Wrap ''dbservice: connect'' f)"
    using assms by (auto simp: connect_def track_def Let_def split: prod.splits sum.splits)
qed

text \<open>A server that answers the second ping; the world counts the pools made so far.\<close>

definition demo_api :: "(nat, unit, nat) pgxpool" where
  "demo_api =
     \<lparr>ParseConfig = (\<lambda>d. Inr \<lparr>MaxConns = 0, MinConns = 0, settings = ()\<rparr>),
      NewWithConfig = (\<lambda>cfg w. (Inr w, Suc w)),
      Ping = (\<lambda>p w. (if p = 0 then Some (ErrNew ''refused'') else None, w)),
      Close = (\<lambda>p w. w),
      Stat = (\<lambda>p w. \<lparr>TotalConns = 0, IdleConns = 0, AcquiredConns = 0, ConstructingConns = 0,
        StatMaxConns = 10, AcquireCount = 0\<rparr>)\<rparr>"

definition demo_cfg :: Config where
  "demo_cfg = \<lparr>MaxAttempts = 3, BackoffMin = 0, BackoffMax = 0\<rparr>"

lemma db_demo_connect:
  "connect id (track demo_api) (track_wait (\<lambda>b w. (None, w))) (New ''db'' [WithRetry demo_cfg]) (0, no_handles)
   = (Inr 1, 2, \<lparr>opened = [0, 1], shut = [0]\<rparr>)"
  by (simp add: connect_def track_def track_wait_def demo_api_def New_def Do_def attempts_def demo_cfg_def
      no_handles_def connectOnce_def Do_loop.simps [of _ _ _ _ 3 1] Do_loop.simps [of _ _ _ _ 3 2])

theorem db_connect_no_leak_witness:
  "case fst (connect id (track demo_api) (track_wait (\<lambda>b w. (None, w)))
      (New ''db'' [WithRetry demo_cfg]) (0, no_handles)) of
     Inl e \<Rightarrow> False | Inr p \<Rightarrow> opened \<lparr>opened = [0, 1], shut = [0::nat]\<rparr> = [0] @ [p]"
  using db_connect_no_leak [OF db_demo_connect] by (simp add: db_demo_connect)

text \<open>
  C18. Stop closes the pool exactly once. In any interleaving of Start with any number of
  Stop calls, once a Stop call that found the pool has returned nil, every pool the service
  ever opened is closed, none of them twice over by Stop; and whenever Stop or Probe can
  see the pool, the metrics are set, so Probe does not panic. Start returns an error only
  when no pool is left open.
\<close>
theorem db_stop_closes:
  assumes "lts_run (step conv api wait reg) (init s0 w r) es = Some s"
  shows "(\<forall>i < length (stops s). target (stops s ! i) \<noteq> None \<and> outcome (stops s ! i) = Some (Inr ()) \<longrightarrow>
       opened (snd (world s)) = shut (snd (world s))) \<and>
    (\<forall>p. pool s = Some p \<and> shutdownOnce s \<noteq> OnceDone \<longrightarrow> opened (snd (world s)) = shut (snd (world s)) @ [p]) \<and>
    Probe api s \<noteq> None \<and>
    (\<forall>e. pc s = StartReturned (Some e) \<longrightarrow> opened (snd (world s)) = shut (snd (world s)))"
proof -
  have inv: "start_ok s" "stops_ok s" using dbs.run_inv [OF db_init_ok assms] by auto
  have h: "pool s = Some p \<Longrightarrow> held s p" for p by (rule start_ok_pool [OF inv(1)])
  have "opened (snd (world s)) = shut (snd (world s))"
    if "i < length (stops s)" "target (stops s ! i) \<noteq> None" "outcome (stops s ! i) = Some (Inr ())" for i
  proof -
    from stop_ok_at [OF inv(2) that(1)] that(2,3) obtain p where
      "shutdownOnce s = OnceDone" "pool s = Some p" by (auto simp: stop_ok_def)
    with h [of p] show ?thesis by (simp add: held_def balanced_def)
  qed
  moreover have "opened (snd (world s)) = shut (snd (world s)) @ [p]"
    if "pool s = Some p" "shutdownOnce s \<noteq> OnceDone" for p
    using h [OF that(1)] that(2) by (simp add: held_def only_open_def)
  moreover have "Probe api s \<noteq> None"
    using h by (auto simp: Probe_def held_def split: option.splits prod.splits)
  moreover have "pc s = StartReturned (Some e) \<Longrightarrow> opened (snd (world s)) = shut (snd (world s))" for e
    using inv(1) by (simp add: start_ok_def balanced_def)
  ultimately show ?thesis by blast
qed

definition demo_run :: "event list \<Rightarrow> (nat, nat, unit) db option" where
  "demo_run es = lts_run (step id demo_api (\<lambda>b w. (None, w)) (\<lambda>c r. (RegOk, r)))
     (init (New ''db'' [WithRetry demo_cfg]) 0 ()) es"

lemma db_demo_metrics: "register_all (\<lambda>c r. (RegOk, r)) initMetrics () = (Some initMetrics, ())"
  by (simp add: initMetrics_def RegisterOrReuse_def)

lemma step_Connect:
  assumes "s = init (New ''db'' [WithRetry demo_cfg]) 0 ()"
  shows "step id demo_api (\<lambda>b w. (None, w)) reg s Connect =
    Some (s\<lparr>world := (2, \<lparr>opened = [0, 1], shut = [0]\<rparr>), pc := Connected 1\<rparr>)"
  using db_demo_connect unfolding assms by (simp add: step_def init_def)

lemma db_demo_connected:
  "demo_run (Connect # es) =
     lts_run (step id demo_api (\<lambda>b w. (None, w)) (\<lambda>c r. (RegOk, r)))
       ((init (New ''db'' [WithRetry demo_cfg]) 0 ())
          \<lparr>world := (2, \<lparr>opened = [0, 1], shut = [0]\<rparr>), pc := Connected 1\<rparr>) es"
  by (simp add: demo_run_def step_Connect)

lemmas demo_simps = db_demo_connected db_demo_metrics step_def init_def set_stop_def track_def demo_api_def
  New_def Second_def Millisecond_def

theorem db_stop_closes_witness:
  "\<exists>s. demo_run [Connect, InitMetrics, StorePool, MakeTicker, CallStop, CallStop, OnceEnter 1,
      CloseReturns 1, OncePass 0, StopDone 0] = Some s \<and> shut (snd (world s)) = [0, 1] \<and>
      opened (snd (world s)) = shut (snd (world s))"
proof -
  obtain s where s: "demo_run [Connect, InitMetrics, StorePool, MakeTicker, CallStop, CallStop, OnceEnter 1,
      CloseReturns 1, OncePass 0, StopDone 0] = Some s"
    and "shut (snd (world s)) = [0, 1]" "length (stops s) = 2" "target (stops s ! 0) = Some 1"
      "outcome (stops s ! 0) = Some (Inr ())"
    by (simp add: demo_simps)
  with conjunct1 [OF db_stop_closes [OF s [unfolded demo_run_def]], rule_format, of 0]
  show ?thesis by simp
qed

text \<open>
  The case Stop does not cover: when it runs after the connection was made but before
  Start has stored the pool, it returns nil, Start then stores the pool and returns nil as
  its context has ended, and the pool stays open.
\<close>
theorem db_stop_misses_late_pool:
  "\<exists>s. demo_run [Connect, InitMetrics, CtxEnds, CallStop, StorePool, MakeTicker, LoopDone] = Some s \<and>
     map outcome (stops s) = [Some (Inr ())] \<and> pc s = StartReturned None \<and>
     opened (snd (world s)) = [0, 1] \<and> shut (snd (world s)) = [0]"
  by (simp add: demo_simps)

end
