(* ===== verification/RedisService.thy ===== *)
theory RedisService
  imports Ledger Prom Channel
begin

text \<open>
  The managed Redis client of \<^verbatim>\<open>pkg/redisservice/service.go\<close>. The go-redis package is a
  parameter, instrumented with a ledger as in \<^verbatim>\<open>DbService\<close>. Unlike there, Stop is
  synchronous: it closes the client inside \<^verbatim>\<open>shutdownOnce\<close>, so a Stop call is one step.
\<close>


section \<open>The service and its options\<close>

record redis_service =
  dsn :: string
  poolSize :: int
  appName :: string
  retry :: Config
  metricsInterval :: duration

datatype redis_option =
    WithPoolSize int
  | WithRetry Config
  | WithMetricsInterval duration
  | WithAppName string
  | WithLogger
  | WithPrometheusRegisterer

fun apply_option :: "redis_option \<Rightarrow> redis_service \<Rightarrow> redis_service" where
  "apply_option (WithPoolSize n) s = s\<lparr>poolSize := n\<rparr>"
| "apply_option (WithRetry cfg) s = s\<lparr>retry := cfg\<rparr>"
| "apply_option (WithMetricsInterval d) s = s\<lparr>metricsInterval := d\<rparr>"
| "apply_option (WithAppName n) s = s\<lparr>appName := n\<rparr>"
| "apply_option WithLogger s = s"
| "apply_option WithPrometheusRegisterer s = s"

definition New :: "string \<Rightarrow> redis_option list \<Rightarrow> redis_service" where
  "New d opts = fold apply_option opts
     \<lparr>dsn = d, poolSize = 0, appName = '''', retry = DefaultConfig, metricsInterval = 15 * Second\<rparr>"


section \<open>The client package\<close>

record 'x redis_options =
  PoolSize :: int
  settings :: 'x

record pool_stats =
  TotalConns :: int
  IdleConns :: int
  Hits :: int
  Misses :: int

record ('w, 'x, 'c) goredis =
  ParseURL :: "string \<Rightarrow> 'x redis_options res"
  NewClient :: "'x redis_options \<Rightarrow> 'w \<Rightarrow> 'c \<times> 'w"
  Ping :: "'c \<Rightarrow> 'w \<Rightarrow> err option \<times> 'w"
  Close :: "'c \<Rightarrow> 'w \<Rightarrow> err option \<times> 'w"
  PoolStats :: "'c \<Rightarrow> 'w \<Rightarrow> pool_stats"

definition track :: "('w, 'x, 'c) goredis \<Rightarrow> ('w \<times> 'c ledger, 'x, 'c) goredis" where
  "track api =
     \<lparr>ParseURL = ParseURL api,
      NewClient = (\<lambda>o1 (w, l). case NewClient api o1 w of (c, w1) \<Rightarrow> (c, (w1, l\<lparr>opened := opened l @ [c]\<rparr>))),
      Ping = (\<lambda>c (w, l). case Ping api c w of (r, w1) \<Rightarrow> (r, (w1, l))),
      Close = (\<lambda>c (w, l). case Close api c w of (r, w1) \<Rightarrow> (r, (w1, l\<lparr>shut := shut l @ [c]\<rparr>))),
      PoolStats = (\<lambda>c (w, l). PoolStats api c w)\<rparr>"


section \<open>Connecting\<close>

definition connectOnce :: "('w, 'x, 'c) goredis \<Rightarrow> 'x redis_options \<Rightarrow> ('w, 'c) op" where
  "connectOnce api opts w =
     (case NewClient api opts w of
        (c, w1) \<Rightarrow>
          (case Ping api c w1 of
             (None, w2) \<Rightarrow> (Inr c, w2)
           | (Some errPing, w2) \<Rightarrow>
               (case Close api c w2 of
                  (Some errClose, w3) \<Rightarrow>
                    (Inl (Wrap2 ''redisservice: ping'' errPing ''close'' errClose), w3)
                | (None, w3) \<Rightarrow> (Inl (Wrap ''redisservice: ping'' errPing), w3))))"

definition connect ::
  "(int \<Rightarrow> int) \<Rightarrow> ('w, 'x, 'c) goredis \<Rightarrow> (duration \<Rightarrow> 'w \<Rightarrow> ctx \<times> 'w) \<Rightarrow> redis_service \<Rightarrow> ('w, 'c) op"
where
  "connect conv api wait s w =
     (case ParseURL api (dsn s) of
        Inl e \<Rightarrow> (Inl (Wrap ''redisservice: parse dsn'' e), w)
      | Inr o1 \<Rightarrow>
          (let o2 = (if poolSize s > 0 then o1\<lparr>PoolSize := poolSize s\<rparr> else o1)
           in case Do conv (retry s) (connectOnce api o2) wait w of
                (Inl e, w1) \<Rightarrow> (Inl (Wrap ''redisservice: connect'' e), w1)
              | (Inr c, w1) \<Rightarrow> (Inr c, w1)))"

interpretation rdc: retried "connectOnce (track api) opts" "track_wait wait" balanced only_open
  for api :: "('w, 'x, 'c) goredis" and opts and wait
  by unfold_locales
    (auto simp: connectOnce_def track_def track_wait_def balanced_def only_open_def
      split: prod.splits option.splits)

lemma redis_connect_books:
  assumes "connect conv (track api) (track_wait wait) s wl0 = (r, wl)" and "balanced wl0"
  shows "case r of Inl e \<Rightarrow> balanced wl | Inr c \<Rightarrow> only_open c wl"
proof (cases "ParseURL (track api) (dsn s)")
  case (Inl e)
  with assms show ?thesis by (auto simp: connect_def)
next
  case (Inr o1)
  let ?o = "if poolSize s > 0 then o1\<lparr>PoolSize := poolSize s\<rparr> else o1"
  obtain r' where d: "Do conv (retry s) (connectOnce (track api) ?o) (track_wait wait) wl0 = (r', wl)"
    and r: "r = wrap_res ''redisservice: connect'' r'"
    using assms(1) Inr
    by (cases "fst (Do conv (retry s) (connectOnce (track api) ?o) (track_wait wait) wl0)")
      (auto simp: connect_def split: prod.splits)
  from rdc.Do_contract [OF assms(2) d] r show ?thesis by (cases r') auto
qed


section \<open>The running service\<close>

definition initMetrics :: "collector list" where
  "initMetrics =
     [\<lparr>kind = GaugeVec, cname = ''redis_pool_conns'', chelp = ''Number of connections in the pool by state.'',
       label_names = [''redis_service'', ''state''], buckets = [], serial = 0\<rparr>,
      \<lparr>kind = GaugeVec, cname = ''redis_pool_hits'',
       chelp = ''Cumulative number of free connections found in the pool (polled snapshot, not a true counter).'',
       label_names = [''redis_service''], buckets = [], serial = 1\<rparr>,
      \<lparr>kind = GaugeVec, cname = ''redis_pool_misses'',
       chelp = ''Cumulative number of times a free connection was not found (polled snapshot, not a true counter).'',
       label_names = [''redis_service''], buckets = [], serial = 2\<rparr>,
      \<lparr>kind = HistogramVec, cname = ''redis_probe_duration_seconds'',
       chelp = ''The latency of readiness probe pings.'',
       label_names = [''redis_service''], buckets = histogram_buckets, serial = 3\<rparr>]"

definition sample :: "string \<Rightarrow> pool_stats \<Rightarrow> metric list" where
  "sample app st =
     [SetGauge ''redis_pool_conns'' [app, ''total''] (TotalConns st),
      SetGauge ''redis_pool_conns'' [app, ''idle''] (IdleConns st),
      SetGauge ''redis_pool_hits'' [app] (Hits st),
      SetGauge ''redis_pool_misses'' [app] (Misses st)]"

datatype 'c start_pc =
    Connecting
  | Connected 'c
  | MetricsReady 'c
  | Stored 'c
  | Serving 'c
  | StartReturned "err option"
  | StartPanicked

record ('w, 'c, 'r) redis =
  svc :: redis_service
  pc :: "'c start_pc"
  client :: "'c option"
  metricsSet :: bool
  shutdownDone :: bool
  ctxDone :: bool
  metrics :: "metric list"
  world :: "'w \<times> 'c ledger"
  registry :: 'r
  stopResults :: "unit res list"

definition init :: "redis_service \<Rightarrow> 'w \<Rightarrow> 'r \<Rightarrow> ('w, 'c, 'r) redis" where
  "init s w r = \<lparr>svc = s, pc = Connecting, client = None, metricsSet = False, shutdownDone = False,
     ctxDone = False, metrics = [], world = (w, no_handles), registry = r, stopResults = []\<rparr>"

datatype event =
    Connect
  | InitMetrics
  | StoreClient
  | MakeTicker
  | Sample
  | CtxEnds
  | LoopDone
  | CallStop

text \<open>
  Stop. The client is closed by the first call that finds one; its error is returned to that
  call alone, later calls return nil.
\<close>

definition Stop :: "('w, 'x, 'c) goredis \<Rightarrow> ('w, 'c, 'r) redis \<Rightarrow> unit res \<times> ('w, 'c, 'r) redis" where
  "Stop api s =
     (case client s of
        None \<Rightarrow> (Inr (), s)
      | Some c \<Rightarrow>
          (if shutdownDone s then (Inr (), s)
           else case Close (track api) c (world s) of
                  (r, w) \<Rightarrow>
                    ((case r of None \<Rightarrow> Inr () | Some e \<Rightarrow> Inl (Wrap ''redisservice: stop'' e)),
                     s\<lparr>shutdownDone := True, world := w\<rparr>)))"

definition step ::
  "(int \<Rightarrow> int) \<Rightarrow> ('w, 'x, 'c) goredis \<Rightarrow> (duration \<Rightarrow> 'w \<Rightarrow> ctx \<times> 'w) \<Rightarrow> 'r registerer \<Rightarrow>
   ('w, 'c, 'r) redis \<Rightarrow> event \<Rightarrow> ('w, 'c, 'r) redis option"
where
  "step conv api wait reg s e =
     (case (e, pc s) of
        (Connect, Connecting) \<Rightarrow>
          (case connect conv (track api) (track_wait wait) (svc s) (world s) of
             (Inl x, w) \<Rightarrow> Some (s\<lparr>world := w, pc := StartReturned (Some x)\<rparr>)
           | (Inr c, w) \<Rightarrow> Some (s\<lparr>world := w, pc := Connected c\<rparr>))
      | (InitMetrics, Connected c) \<Rightarrow>
          (case register_all reg initMetrics (registry s) of
             (None, r) \<Rightarrow> Some (s\<lparr>registry := r, pc := StartPanicked\<rparr>)
           | (Some cs, r) \<Rightarrow> Some (s\<lparr>registry := r, metricsSet := True, pc := MetricsReady c\<rparr>))
      | (StoreClient, MetricsReady c) \<Rightarrow> Some (s\<lparr>client := Some c, pc := Stored c\<rparr>)
      | (MakeTicker, Stored c) \<Rightarrow>
          Some (s\<lparr>pc := if metricsInterval (svc s) \<le> 0 then StartPanicked else Serving c\<rparr>)
      | (Sample, Serving c) \<Rightarrow>
          Some (s\<lparr>metrics := metrics s @ sample (appName (svc s)) (PoolStats (track api) c (world s))\<rparr>)
      | (LoopDone, Serving c) \<Rightarrow> if ctxDone s then Some (s\<lparr>pc := StartReturned None\<rparr>) else None
      | (CtxEnds, _) \<Rightarrow> Some (s\<lparr>ctxDone := True\<rparr>)
      | (CallStop, _) \<Rightarrow>
          (case Stop api s of (r, t) \<Rightarrow> Some (t\<lparr>stopResults := stopResults t @ [r]\<rparr>))
      | _ \<Rightarrow> None)"

definition Probe :: "('w, 'x, 'c) goredis \<Rightarrow> ('w, 'c, 'r) redis \<Rightarrow> (unit res \<times> ('w, 'c, 'r) redis) option" where
  "Probe api s =
     (case client s of
        None \<Rightarrow> Some (Inl (ErrNew ''redisservice: not connected''), s)
      | Some c \<Rightarrow>
          (case Ping (track api) c (world s) of
             (r, w) \<Rightarrow>
               if metricsSet s
               then Some ((case r of None \<Rightarrow> Inr () | Some e \<Rightarrow> Inl (Wrap ''redisservice: probe'' e)),
                 s\<lparr>world := w,
                   metrics := metrics s @ [Observe ''redis_probe_duration_seconds'' [appName (svc s)]]\<rparr>)
               else None))"

definition Client :: "('w, 'c, 'r) redis \<Rightarrow> 'c option" where
  "Client s = client s"


section \<open>Invariant\<close>

definition held :: "('w, 'c, 'r) redis \<Rightarrow> 'c \<Rightarrow> bool" where
  "held s c \<longleftrightarrow> client s = Some c \<and> metricsSet s \<and>
     (if shutdownDone s then balanced (world s) else only_open c (world s))"

definition unheld :: "('w, 'c, 'r) redis \<Rightarrow> bool" where
  "unheld s \<longleftrightarrow> client s = None \<and> \<not> shutdownDone s"

definition redis_ok :: "('w, 'c, 'r) redis \<Rightarrow> bool" where
  "redis_ok s \<longleftrightarrow>
     (case pc s of
        Connecting \<Rightarrow> unheld s \<and> balanced (world s)
      | Connected c \<Rightarrow> unheld s \<and> only_open c (world s)
      | MetricsReady c \<Rightarrow> unheld s \<and> only_open c (world s) \<and> metricsSet s
      | Stored c \<Rightarrow> held s c
      | Serving c \<Rightarrow> held s c
      | StartReturned (Some e) \<Rightarrow> unheld s \<and> balanced (world s)
      | StartReturned None \<Rightarrow> \<exists>c. held s c
      | StartPanicked \<Rightarrow> unheld s \<and> (\<exists>c. only_open c (world s)) \<or> (\<exists>c. held s c))"

lemma redis_held_frame [simp]:
  "held (s\<lparr>pc := q\<rparr>) c = held s c" "unheld (s\<lparr>pc := q\<rparr>) = unheld s"
  "held (s\<lparr>ctxDone := b\<rparr>) c = held s c" "unheld (s\<lparr>ctxDone := b\<rparr>) = unheld s"
  "held (s\<lparr>metrics := ms\<rparr>) c = held s c" "unheld (s\<lparr>metrics := ms\<rparr>) = unheld s"
  "held (s\<lparr>stopResults := rs\<rparr>) c = held s c" "unheld (s\<lparr>stopResults := rs\<rparr>) = unheld s"
  by (simp_all add: held_def unheld_def)

lemma redis_ok_frame [simp]:
  "redis_ok (s\<lparr>ctxDone := b\<rparr>) = redis_ok s" "redis_ok (s\<lparr>metrics := ms\<rparr>) = redis_ok s"
  "redis_ok (s\<lparr>stopResults := rs\<rparr>) = redis_ok s"
  by (simp_all add: redis_ok_def cong: start_pc.case_cong option.case_cong)

lemma redis_ok_client: "redis_ok s \<Longrightarrow> client s = Some c \<Longrightarrow> held s c"
  by (cases "pc s") (auto simp: redis_ok_def held_def unheld_def split: option.splits)

lemma redis_ok_held:
  assumes "redis_ok s" and "held s c" and "held t c" and "pc t = pc s"
  shows "redis_ok t"
proof -
  have "client s = Some c" using assms by (simp add: held_def)
  then show ?thesis using assms
    by (cases "pc s") (auto simp: redis_ok_def unheld_def held_def [of s] held_def [of t] split: option.splits)
qed

lemma redis_Stop_ok:
  assumes "redis_ok s"
  shows "redis_ok (snd (Stop api s)) \<and> (client s \<noteq> None \<longrightarrow> shutdownDone (snd (Stop api s)))"
proof (cases "client s")
  case None
  with assms show ?thesis by (simp add: Stop_def)
next
  case (Some c)
  have h: "held s c" by (rule redis_ok_client [OF assms Some])
  have "held (snd (Stop api s)) c"
    using h Some
    by (cases "world s") (auto simp: Stop_def held_def track_def balanced_def only_open_def split: prod.splits)
  moreover have "pc (snd (Stop api s)) = pc s" using Some by (auto simp: Stop_def split: prod.splits)
  ultimately have "redis_ok (snd (Stop api s))" by (rule redis_ok_held [OF assms h])
  moreover have "shutdownDone (snd (Stop api s))"
    using Some by (auto simp: Stop_def split: prod.splits)
  ultimately show ?thesis by simp
qed

lemma redis_step:
  assumes "redis_ok s" and "step conv api wait reg s e = Some t"
  shows "redis_ok t"
proof (cases e)
  case Connect
  obtain r wl where c: "connect conv (track api) (track_wait wait) (svc s) (world s) = (r, wl)"
    by (meson surj_pair)
  from Connect assms c redis_connect_books [OF c] show ?thesis
    by (cases r; cases "pc s") (auto simp: step_def redis_ok_def unheld_def)
next
  case InitMetrics
  obtain r rg where "register_all reg initMetrics (registry s) = (r, rg)" by fastforce
  with InitMetrics assms show ?thesis
    by (cases "pc s"; cases r) (auto simp: step_def redis_ok_def unheld_def)
next
  case StoreClient
  with assms show ?thesis by (cases "pc s") (auto simp: step_def redis_ok_def unheld_def held_def)
next
  case MakeTicker
  with assms show ?thesis by (cases "pc s") (auto simp: step_def redis_ok_def)
next
  case Sample
  with assms show ?thesis by (cases "pc s") (auto simp: step_def)
next
  case LoopDone
  with assms obtain c where "held s c" and t: "t = s\<lparr>pc := StartReturned None\<rparr>"
    by (cases "pc s") (auto simp: step_def redis_ok_def split: if_splits)
  then have "held t c" by simp
  with t show ?thesis by (auto simp: redis_ok_def)
next
  case CtxEnds
  with assms show ?thesis by (cases "pc s") (auto simp: step_def)
next
  case CallStop
  with assms redis_Stop_ok [OF assms(1), of api] show ?thesis
    by (cases "pc s") (auto simp: step_def split: prod.splits)
qed

interpretation rds: lts_invariant "step conv api wait reg" redis_ok for conv api wait reg
  by unfold_locales (rule redis_step)

lemma redis_init_ok [simp]: "redis_ok (init s w r)"
  by (simp add: init_def redis_ok_def unheld_def)


section \<open>Properties\<close>

text \<open>
  C19. The client is managed without leaks. In any run, while Start has not stored the client
  or after it failed to connect, every client opened by a failed attempt has been closed;
  once a Stop call has seen the client, every client ever opened is closed, and further
  Stop calls return nil without closing again; Probe never meets unset metrics.
\<close>
theorem redis_no_leak:
  assumes "lts_run (step conv api wait reg) (init s0 w r) es = Some s"
  shows "(\<forall>e. pc s = StartReturned (Some e) \<longrightarrow> opened (snd (world s)) = shut (snd (world s))) \<and>
    (\<forall>c. client s = Some c \<longrightarrow>
       (let t = snd (Stop api s)
        in opened (snd (world t)) = shut (snd (world t)) \<and> opened (snd (world t)) = opened (snd (world s)) \<and>
           Stop api t = (Inr (), t))) \<and>
    Probe api s \<noteq> None"
proof (intro conjI allI impI)
  have ok: "redis_ok s" by (rule rds.run_inv [OF redis_init_ok assms])
  then show "opened (snd (world s)) = shut (snd (world s))" if "pc s = StartReturned (Some e)" for e
    using that by (simp add: redis_ok_def balanced_def)
  show "let t = snd (Stop api s)
        in opened (snd (world t)) = shut (snd (world t)) \<and> opened (snd (world t)) = opened (snd (world s)) \<and>
           Stop api t = (Inr (), t)" if c: "client s = Some c" for c
  proof -
    let ?t = "snd (Stop api s)"
    from redis_Stop_ok [OF ok, of api] c have t: "redis_ok ?t" "shutdownDone ?t" by auto
    have cl: "client ?t = Some c" using c by (auto simp: Stop_def split: prod.splits)
    have "opened (snd (world ?t)) = shut (snd (world ?t))"
      using redis_ok_client [OF t(1) cl] t(2) by (simp add: held_def balanced_def)
    moreover have "opened (snd (world ?t)) = opened (snd (world s))"
      using c by (cases "world s") (auto simp: Stop_def track_def split: prod.splits)
    moreover have "Stop api ?t = (Inr (), ?t)" using cl t(2) by (simp add: Stop_def [of api ?t])
    ultimately show ?thesis by (simp add: Let_def)
  qed
  show "Probe api s \<noteq> None"
    using redis_ok_client [OF ok] by (auto simp: Probe_def held_def split: option.splits prod.splits)
qed

text \<open>A server that refuses the first client and cannot close cleanly.\<close>

definition demo_api :: "(nat, unit, nat) goredis" where
  "demo_api =
     \<lparr>ParseURL = (\<lambda>d. Inr \<lparr>PoolSize = 0, settings = ()\<rparr>),
      NewClient = (\<lambda>o1 w. (w, Suc w)),
      Ping = (\<lambda>c w. (if c = 0 then Some (ErrNew ''refused'') else None, w)),
      Close = (\<lambda>c w. (Some (ErrNew ''broken''), w)),
      PoolStats = (\<lambda>c w. \<lparr>TotalConns = 0, IdleConns = 0, Hits = 0, Misses = 0\<rparr>)\<rparr>"

definition demo_cfg :: Config where
  "demo_cfg = \<lparr>MaxAttempts = 3, BackoffMin = 0, BackoffMax = 0\<rparr>"

definition demo_run :: "event list \<Rightarrow> (nat, nat, unit) redis option" where
  "demo_run es = lts_run (step id demo_api (\<lambda>b w. (None, w)) (\<lambda>c r. (RegOk, r)))
     (init (New ''redis'' [WithRetry demo_cfg]) 0 ()) es"

lemma redis_demo_connect:
  "connect id (track demo_api) (track_wait (\<lambda>b w. (None, w))) (New ''redis'' [WithRetry demo_cfg])
     (0, no_handles) = (Inr 1, 2, \<lparr>opened = [0, 1], shut = [0]\<rparr>)"
  by (simp add: connect_def track_def track_wait_def demo_api_def New_def Do_def attempts_def demo_cfg_def
      no_handles_def connectOnce_def Do_loop.simps [of _ _ _ _ 3 1] Do_loop.simps [of _ _ _ _ 3 2])

lemma redis_demo_connected:
  "demo_run (Connect # es) =
     lts_run (step id demo_api (\<lambda>b w. (None, w)) (\<lambda>c r. (RegOk, r)))
       ((init (New ''redis'' [WithRetry demo_cfg]) 0 ())
          \<lparr>world := (2, \<lparr>opened = [0, 1], shut = [0]\<rparr>), pc := Connected 1\<rparr>) es"
  using redis_demo_connect by (simp add: demo_run_def step_def init_def)

lemma redis_demo_metrics: "register_all (\<lambda>c r. (RegOk, r)) initMetrics () = (Some initMetrics, ())"
  by (simp add: initMetrics_def RegisterOrReuse_def)

theorem redis_no_leak_witness:
  "\<exists>s. demo_run [Connect, InitMetrics, StoreClient, MakeTicker] = Some s \<and>
     opened (snd (world (snd (Stop demo_api s)))) = [0, 1] \<and>
     shut (snd (world (snd (Stop demo_api s)))) = [0, 1]"
proof -
  obtain s where s: "demo_run [Connect, InitMetrics, StoreClient, MakeTicker] = Some s"
    and c: "client s = Some 1" and o: "opened (snd (world s)) = [0, 1]"
    by (simp add: redis_demo_connected redis_demo_metrics step_def init_def New_def Second_def Millisecond_def)
  from redis_no_leak [OF s [unfolded demo_run_def]] c o s show ?thesis by (auto simp: Let_def)
qed

end
