(* ===== verification/KafkaNet.thy ===== *)
theory KafkaNet
  imports Ledger Prom
begin

text \<open>
  The transport shared by the Kafka producer and consumer, \<^verbatim>\<open>pkg/kafka/consts.go\<close> and
  \<^verbatim>\<open>pkg/kafka/kafkanet.go\<close>: the dialer with TLS and SASL, and the connectivity probe. The
  SCRAM constructor and the dialing of the kafka-go package are parameters.
\<close>


text \<open>A byte slice is an option, None being nil.\<close>

type_synonym bytes = "string option"


section \<open>Configuration\<close>

type_synonym SASLMechanism = string

definition SASLPlain :: SASLMechanism where "SASLPlain = ''PLAIN''"
definition SASLScramSHA256 :: SASLMechanism where "SASLScramSHA256 = ''SCRAM-SHA-256''"
definition SASLScramSHA512 :: SASLMechanism where "SASLScramSHA512 = ''SCRAM-SHA-512''"

lemmas sasl_names = SASLPlain_def SASLScramSHA256_def SASLScramSHA512_def

record 'tls TLSSASLConfig =
  TLS :: "'tls option"
  SASLUser :: string
  SASLPass :: string
  SASLMech :: SASLMechanism

definition plaintext :: "'tls TLSSASLConfig" where
  "plaintext = \<lparr>TLS = None, SASLUser = '''', SASLPass = '''', SASLMech = ''''\<rparr>"

datatype scram_algo = SHA256 | SHA512

datatype 'm mechanism = PlainMechanism string string | ScramMechanism 'm

record ('tls, 'm) dialer =
  Timeout :: duration
  DualStack :: bool
  dialTLS :: "'tls option"
  dialSASL :: "'m mechanism option"

definition dialTimeout :: duration where
  "dialTimeout = 10 * Second"


section \<open>The dialer\<close>

text \<open>The verb \<^verbatim>\<open>%q\<close>, exact for printable ASCII and the escapes below.\<close>

fun quote_char :: "char \<Rightarrow> string" where
  "quote_char c =
     (if c = CHR 0x22 \<or> c = CHR 0x5C then [CHR 0x5C, c]
      else if c = CHR 0x0A then [CHR 0x5C, CHR ''n'']
      else if c = CHR 0x09 then [CHR 0x5C, CHR ''t'']
      else if c = CHR 0x0D then [CHR 0x5C, CHR ''r'']
      else [c])"

definition quote :: "string \<Rightarrow> string" where
  "quote s = CHR 0x22 # concat (map quote_char s) @ [CHR 0x22]"

definition saslMechanism ::
  "(scram_algo \<Rightarrow> string \<Rightarrow> string \<Rightarrow> 'm res) \<Rightarrow> 'tls TLSSASLConfig \<Rightarrow> 'm mechanism res"
where
  "saslMechanism scram cfg =
     (if SASLMech cfg = '''' \<or> SASLMech cfg = SASLPlain
      then Inr (PlainMechanism (SASLUser cfg) (SASLPass cfg))
      else if SASLMech cfg = SASLScramSHA256
      then (case scram SHA256 (SASLUser cfg) (SASLPass cfg) of
              Inl e \<Rightarrow> Inl (Wrap ''kafkanet: scram-sha-256'' e) | Inr m \<Rightarrow> Inr (ScramMechanism m))
      else if SASLMech cfg = SASLScramSHA512
      then (case scram SHA512 (SASLUser cfg) (SASLPass cfg) of
              Inl e \<Rightarrow> Inl (Wrap ''kafkanet: scram-sha-512'' e) | Inr m \<Rightarrow> Inr (ScramMechanism m))
      else Inl (ErrNew (''kafkanet: unknown SASL mechanism '' @ quote (SASLMech cfg))))"

definition NewDialer ::
  "(scram_algo \<Rightarrow> string \<Rightarrow> string \<Rightarrow> 'm res) \<Rightarrow> 'tls TLSSASLConfig \<Rightarrow> ('tls, 'm) dialer res"
where
  "NewDialer scram cfg =
     (let d = \<lparr>Timeout = dialTimeout, DualStack = True, dialTLS = TLS cfg, dialSASL = None\<rparr>
      in if SASLUser cfg \<noteq> ''''
         then (case saslMechanism scram cfg of
                 Inl e \<Rightarrow> Inl e
               | Inr m \<Rightarrow> Inr (d\<lparr>dialSASL := Some m\<rparr>))
         else Inr d)"


section \<open>The probe\<close>

record ('w, 'tls, 'm, 'conn) net =
  DialContext :: "('tls, 'm) dialer \<Rightarrow> string \<Rightarrow> ('w, 'conn) op"
  CloseConn :: "'conn \<Rightarrow> 'w \<Rightarrow> 'w"

definition Probe ::
  "('w, 'tls, 'm, 'conn) net \<Rightarrow> string list \<Rightarrow> ('tls, 'm) dialer \<Rightarrow> ('w, unit) op"
where
  "Probe net brokers d w =
     (case brokers of
        [] \<Rightarrow> (Inl (ErrNew ''kafkanet: no brokers configured''), w)
      | b # _ \<Rightarrow>
          (case DialContext net d b w of
             (Inl e, w1) \<Rightarrow> (Inl (Wrap (''kafkanet: probe '' @ b) e), w1)
           | (Inr conn, w1) \<Rightarrow> (Inr (), CloseConn net conn w1)))"

definition track_net :: "('w, 'tls, 'm, 'conn) net \<Rightarrow> ('w \<times> 'conn ledger, 'tls, 'm, 'conn) net" where
  "track_net net =
     \<lparr>DialContext = (\<lambda>d b (w, l). case DialContext net d b w of
          (Inl e, w1) \<Rightarrow> (Inl e, (w1, l))
        | (Inr c, w1) \<Rightarrow> (Inr c, (w1, l\<lparr>opened := opened l @ [c]\<rparr>))),
      CloseConn = (\<lambda>c (w, l). (CloseConn net c w, l\<lparr>shut := shut l @ [c]\<rparr>))\<rparr>"

text \<open>A probe leaves no connection behind, so neither does the retry loop around it.\<close>

interpretation prb: retried "Probe (track_net net) brokers d" "track_wait wait" balanced "\<lambda>_. balanced"
  for net :: "('w, 'tls, 'm, 'conn) net" and brokers d wait
  by unfold_locales
    (auto simp: Probe_def track_net_def track_wait_def balanced_def
      split: list.splits prod.splits sum.splits)


section \<open>What the dialer guarantees\<close>

text \<open>
  A dialer carries the configured TLS setup, and credentials exactly when a user is
  configured. Building one fails only with a user, and then either for a mechanism that has
  no name here or with the error of the SCRAM constructor.
\<close>

lemma NewDialer_ok:
  "NewDialer scram cfg = Inr d \<Longrightarrow>
   dialTLS d = TLS cfg \<and> (dialSASL d = None \<longleftrightarrow> SASLUser cfg = '''')"
  by (auto simp: NewDialer_def Let_def split: if_splits sum.splits)

lemma saslMechanism_fails:
  "saslMechanism scram cfg = Inl e \<Longrightarrow>
   SASLMech cfg \<notin> {'''', SASLPlain, SASLScramSHA256, SASLScramSHA512} \<or>
   (\<exists>a f. scram a (SASLUser cfg) (SASLPass cfg) = Inl f \<and> errors_is e f)"
  by (auto simp: saslMechanism_def split: if_splits sum.splits)
    (metis errors_is_refl)+

lemma NewDialer_fails:
  assumes "NewDialer scram cfg = Inl e"
  shows "SASLUser cfg \<noteq> '''' \<and>
    (SASLMech cfg \<notin> {'''', SASLPlain, SASLScramSHA256, SASLScramSHA512} \<or>
     (\<exists>a f. scram a (SASLUser cfg) (SASLPass cfg) = Inl f \<and> errors_is e f))"
proof -
  from assms have "SASLUser cfg \<noteq> ''''" and "saslMechanism scram cfg = Inl e"
    by (auto simp: NewDialer_def Let_def split: if_splits sum.splits)
  with saslMechanism_fails show ?thesis by blast
qed

text \<open>
  Connecting, as the producer and the consumer both do it: build the dialer, then probe the
  first broker under the retry policy.
\<close>

definition connect ::
  "(int \<Rightarrow> int) \<Rightarrow> (scram_algo \<Rightarrow> string \<Rightarrow> string \<Rightarrow> 'm res) \<Rightarrow> ('w, 'tls, 'm, 'conn) net \<Rightarrow>
   (duration \<Rightarrow> 'w \<Rightarrow> ctx \<times> 'w) \<Rightarrow> string \<Rightarrow> 'tls TLSSASLConfig \<Rightarrow> Config \<Rightarrow> string list \<Rightarrow>
   ('w, ('tls, 'm) dialer) op"
where
  "connect conv scram net wait who cfg rc brokers w =
     (case NewDialer scram cfg of
        Inl e \<Rightarrow> (Inl (Wrap (who @ '': dialer'') e), w)
      | Inr d \<Rightarrow>
          (case Do conv rc (Probe net brokers d) wait w of
             (Inl e, w1) \<Rightarrow> (Inl (Wrap (who @ '': connect'') e), w1)
           | (Inr u, w1) \<Rightarrow> (Inr d, w1)))"

lemma kafka_connect_books:
  assumes "connect conv scram (track_net net) (track_wait wait) who cfg rc brokers wl0 = (r, wl)"
    and "balanced wl0"
  shows "balanced wl"
proof (cases "NewDialer scram cfg")
  case (Inl e)
  with assms show ?thesis by (auto simp: connect_def)
next
  case (Inr d)
  obtain r' where d: "Do conv rc (Probe (track_net net) brokers d) (track_wait wait) wl0 = (r', wl)"
    using assms(1) Inr by (auto simp: connect_def split: prod.splits sum.splits)
  from prb.Do_contract [OF assms(2) d] show ?thesis by (cases r') auto
qed

end
