(* ===== verification/KafkaProducer.thy ===== *)
theory KafkaProducer
  imports KafkaNet
begin

text \<open>
  The managed Kafka producer of \<^verbatim>\<open>pkg/kafka/producer/producer.go\<close>. The kafka-go writer is a
  parameter (\<open>WriteMessages\<close>, \<open>CloseWriter\<close>). A
  header map is the list of its entries in the order the range statement visits them.
\<close>


section \<open>Messages\<close>

record Message =
  Topic :: string
  Key :: bytes
  Value :: bytes
  Headers :: "(string \<times> bytes) list"

record kafka_message =
  kTopic :: string
  kKey :: bytes
  kValue :: bytes
  kHeaders :: "(string \<times> bytes) list option"

datatype codec = NoCodec | Gzip | Snappy | Lz4 | Zstd

definition kafkaCompression :: "string \<Rightarrow> codec" where
  "kafkaCompression c =
     (if c = ''gzip'' then Gzip else if c = ''snappy'' then Snappy else if c = ''lz4'' then Lz4
      else if c = ''zstd'' then Zstd else NoCodec)"

definition toKafkaKey :: "bytes \<Rightarrow> bytes" where
  "toKafkaKey k = (case k of None \<Rightarrow> None | Some [] \<Rightarrow> None | Some b \<Rightarrow> Some b)"

definition toKafkaHeaders :: "(string \<times> bytes) list \<Rightarrow> (string \<times> bytes) list option" where
  "toKafkaHeaders hs = (if hs = [] then None else Some (fold (\<lambda>h out. out @ [h]) hs []))"

definition to_kafka :: "Message \<Rightarrow> kafka_message" where
  "to_kafka m = \<lparr>kTopic = Topic m, kKey = toKafkaKey (Key m), kValue = Value m,
     kHeaders = toKafkaHeaders (Headers m)\<rparr>"


section \<open>The producer and its options\<close>

record 'tls producer =
  brokers :: "string list"
  appName :: string
  tlsCfg :: "'tls TLSSASLConfig"
  retry :: Config
  compression :: string
  writeTimeout :: duration
  maxAttempts :: int

datatype 'tls producer_option =
    WithTLS "'tls option"
  | WithSASL string string
  | WithSASLMechanism SASLMechanism
  | WithRetry Config
  | WithCompression string
  | WithWriteTimeout duration
  | WithMaxAttempts int
  | WithAppName string
  | WithLogger
  | WithPrometheusRegisterer

fun apply_option :: "'tls producer_option \<Rightarrow> 'tls producer \<Rightarrow> 'tls producer" where
  "apply_option (WithTLS c) p = p\<lparr>tlsCfg := (tlsCfg p)\<lparr>TLS := c\<rparr>\<rparr>"
| "apply_option (WithSASL u pw) p = p\<lparr>tlsCfg := (tlsCfg p)\<lparr>SASLUser := u, SASLPass := pw\<rparr>\<rparr>"
| "apply_option (WithSASLMechanism m) p = p\<lparr>tlsCfg := (tlsCfg p)\<lparr>SASLMech := m\<rparr>\<rparr>"
| "apply_option (WithRetry c) p = p\<lparr>retry := c\<rparr>"
| "apply_option (WithCompression c) p = p\<lparr>compression := c\<rparr>"
| "apply_option (WithWriteTimeout d) p = p\<lparr>writeTimeout := d\<rparr>"
| "apply_option (WithMaxAttempts n) p = p\<lparr>maxAttempts := n\<rparr>"
| "apply_option (WithAppName n) p = p\<lparr>appName := n\<rparr>"
| "apply_option WithLogger p = p"
| "apply_option WithPrometheusRegisterer p = p"

definition New :: "string list \<Rightarrow> 'tls producer_option list \<Rightarrow> 'tls producer" where
  "New bs opts = fold apply_option opts
     \<lparr>brokers = bs, appName = '''', tlsCfg = plaintext, retry = DefaultConfig, compression = '''',
      writeTimeout = 0, maxAttempts = 0\<rparr>"

definition initMetrics :: "collector list" where
  "initMetrics =
     [\<lparr>kind = CounterVec, cname = ''kafka_produce_messages_total'',
       chelp = ''Total number of successfully produced messages.'',
       label_names = [''kafka_service'', ''topic''], buckets = [], serial = 0\<rparr>,
      \<lparr>kind = CounterVec, cname = ''kafka_produce_errors_total'',
       chelp = ''Total number of failed produce attempts.'',
       label_names = [''kafka_service'', ''topic''], buckets = [], serial = 1\<rparr>,
      \<lparr>kind = HistogramVec, cname = ''kafka_produce_duration_seconds'',
       chelp = ''The latency of produce calls.'',
       label_names = [''kafka_service'', ''topic''], buckets = histogram_buckets, serial = 2\<rparr>]"

text \<open>The writer as Start configures it; zero keeps the kafka-go default.\<close>

record ('tls, 'm) writer =
  Addr :: "string list"
  wCompression :: codec
  transport :: "('tls, 'm) dialer"
  WriteTimeout :: duration
  MaxAttempts :: int

definition new_writer :: "'tls producer \<Rightarrow> ('tls, 'm) dialer \<Rightarrow> ('tls, 'm) writer" where
  "new_writer p d =
     \<lparr>Addr = brokers p, wCompression = kafkaCompression (compression p), transport = d,
      WriteTimeout = (if writeTimeout p > 0 then writeTimeout p else 0),
      MaxAttempts = (if maxAttempts p > 0 then maxAttempts p else 0)\<rparr>"


section \<open>Producing\<close>

record ('w, 'tls, 'm) writer_api =
  WriteMessages :: "('tls, 'm) writer \<Rightarrow> kafka_message list \<Rightarrow> 'w \<Rightarrow> err option \<times> 'w"
  CloseWriter :: "('tls, 'm) writer \<Rightarrow> 'w \<Rightarrow> err option \<times> 'w"

definition not_started :: err where
  "not_started = ErrNew ''kafkaproducer: not started''"

text \<open>
  Produce and ProduceBatch take the writer read under the lock and return the error, the
  metric updates in order, and the world.
\<close>

definition Produce ::
  "('w, 'tls, 'm) writer_api \<Rightarrow> string \<Rightarrow> ('tls, 'm) writer option \<Rightarrow> string \<Rightarrow> bytes \<Rightarrow> bytes \<Rightarrow>
   (string \<times> bytes) list \<Rightarrow> 'w \<Rightarrow> err option \<times> metric list \<times> 'w"
where
  "Produce api app writer topic key value headers w =
     (case writer of
        None \<Rightarrow> (Some not_started, [], w)
      | Some wr \<Rightarrow>
          (let msg = \<lparr>kTopic = topic, kKey = toKafkaKey key, kValue = value,
                      kHeaders = toKafkaHeaders headers\<rparr>
           in case WriteMessages api wr [msg] w of
                (Some e, w1) \<Rightarrow>
                  (Some (Wrap (''kafkaproducer: produce to '' @ topic) e),
                   [Observe ''kafka_produce_duration_seconds'' [app, topic],
                    Inc ''kafka_produce_errors_total'' [app, topic]], w1)
              | (None, w1) \<Rightarrow>
                  (None,
                   [Observe ''kafka_produce_duration_seconds'' [app, topic],
                    Inc ''kafka_produce_messages_total'' [app, topic]], w1)))"

text \<open>The conversion loop of ProduceBatch: the index of the first message without a topic.\<close>

fun convert_batch :: "nat \<Rightarrow> Message list \<Rightarrow> kafka_message list \<Rightarrow> kafka_message list res" where
  "convert_batch i [] out = Inr out"
| "convert_batch i (m # ms) out =
     (if Topic m = ''''
      then Inl (ErrNew (''kafkaproducer: message at index '' @ show_nat i @ '' has empty topic''))
      else convert_batch (Suc i) ms (out @ [to_kafka m]))"

definition ProduceBatch ::
  "('w, 'tls, 'm) writer_api \<Rightarrow> string \<Rightarrow> ('tls, 'm) writer option \<Rightarrow> Message list \<Rightarrow> 'w \<Rightarrow>
   err option \<times> metric list \<times> 'w"
where
  "ProduceBatch api app writer msgs w =
     (if msgs = [] then (None, [], w)
      else case writer of
             None \<Rightarrow> (Some not_started, [], w)
           | Some wr \<Rightarrow>
               (case convert_batch 0 msgs [] of
                  Inl e \<Rightarrow> (Some e, [], w)
                | Inr kmsgs \<Rightarrow>
                    (case WriteMessages api wr kmsgs w of
                       (r, w1) \<Rightarrow>
                         (let obs = map (\<lambda>m. Observe ''kafka_produce_duration_seconds'' [app, Topic m]) msgs
                          in case r of
                               Some e \<Rightarrow>
                                 (Some (Wrap (''kafkaproducer: produce batch of '' @ show_nat (length msgs)) e),
                                  obs @ map (\<lambda>m. Inc ''kafka_produce_errors_total'' [app, Topic m]) msgs, w1)
                             | None \<Rightarrow>
                                 (None,
                                  obs @ map (\<lambda>m. Inc ''kafka_produce_messages_total'' [app, Topic m]) msgs,
                                  w1)))))"

lemma convert_batch_spec:
  "convert_batch i ms out =
     (case List.find (\<lambda>j. Topic (ms ! j) = '''') [0..<length ms] of
        None \<Rightarrow> Inr (out @ map to_kafka ms)
      | Some j \<Rightarrow> Inl (ErrNew (''kafkaproducer: message at index '' @ show_nat (i + j) @ '' has empty topic'')))"
proof (induction ms arbitrary: i out)
  case Nil
  then show ?case by simp
next
  case (Cons m ms)
  have shift: "[0..<length (m # ms)] = 0 # map Suc [0..<length ms]"
    by (simp only: length_Cons upt_conv_Cons map_Suc_upt zero_less_Suc)
  have find_map: "List.find P (map Suc xs) = map_option Suc (List.find (P \<circ> Suc) xs)" for P xs
    by (induction xs) auto
  show ?case
    unfolding shift by (simp add: Cons.IH find_map comp_def split: option.splits)
qed


section \<open>The life of a producer\<close>

datatype ('tls, 'm) start_pc =
    Connecting
  | Connected "('tls, 'm) dialer"
  | MetricsReady "('tls, 'm) dialer"
  | Stored
  | Serving
  | StartReturned "err option"
  | StartPanicked

record ('w, 'tls, 'm, 'conn, 'r) pstate =
  svc :: "'tls producer"
  pc :: "('tls, 'm) start_pc"
  writer :: "('tls, 'm) writer option"
  started :: bool
  closeDone :: bool
  metricsSet :: bool
  ctxDone :: bool
  world :: "'w \<times> 'conn ledger"
  registry :: 'r
  closes :: nat
  stopResults :: "unit res list"

definition init :: "'tls producer \<Rightarrow> 'w \<Rightarrow> 'r \<Rightarrow> ('w, 'tls, 'm, 'conn, 'r) pstate" where
  "init p w r = \<lparr>svc = p, pc = Connecting, writer = None, started = False, closeDone = False,
     metricsSet = False, ctxDone = False, world = (w, no_handles), registry = r, closes = 0,
     stopResults = []\<rparr>"

datatype event = Connect | InitMetrics | StoreWriter | SetStarted | CtxEnds | CtxWait | CallStop

text \<open>
  Stop runs its body once for the life of the producer, whether or not there is a writer to
  close by then. The counter closes is a ghost.
\<close>

definition Stop ::
  "('w, 'tls, 'm) writer_api \<Rightarrow> ('w, 'tls, 'm, 'conn, 'r) pstate \<Rightarrow>
   unit res \<times> ('w, 'tls, 'm, 'conn, 'r) pstate"
where
  "Stop api s =
     (if closeDone s then (Inr (), s)
      else case writer s of
             None \<Rightarrow> (Inr (), s\<lparr>closeDone := True\<rparr>)
           | Some wr \<Rightarrow>
               (case CloseWriter api wr (fst (world s)) of
                  (r, w1) \<Rightarrow>
                    ((case r of None \<Rightarrow> Inr () | Some e \<Rightarrow> Inl (Wrap ''kafkaproducer: close writer'' e)),
                     s\<lparr>closeDone := True, closes := closes s + 1, world := (w1, snd (world s))\<rparr>)))"

definition step ::
  "(int \<Rightarrow> int) \<Rightarrow> (scram_algo \<Rightarrow> string \<Rightarrow> string \<Rightarrow> 'm res) \<Rightarrow> ('w, 'tls, 'm, 'conn) net \<Rightarrow>
   ('w, 'tls, 'm) writer_api \<Rightarrow> (duration \<Rightarrow> 'w \<Rightarrow> ctx \<times> 'w) \<Rightarrow> 'r registerer \<Rightarrow>
   ('w, 'tls, 'm, 'conn, 'r) pstate \<Rightarrow> event \<Rightarrow> ('w, 'tls, 'm, 'conn, 'r) pstate option"
where
  "step conv scram net api wait reg s e =
     (case (e, pc s) of
        (Connect, Connecting) \<Rightarrow>
          (case connect conv scram (track_net net) (track_wait wait) ''kafkaproducer'' (tlsCfg (svc s))
                  (retry (svc s)) (brokers (svc s)) (world s) of
             (Inl x, w) \<Rightarrow> Some (s\<lparr>world := w, pc := StartReturned (Some x)\<rparr>)
           | (Inr d, w) \<Rightarrow> Some (s\<lparr>world := w, pc := Connected d\<rparr>))
      | (InitMetrics, Connected d) \<Rightarrow>
          (case register_all reg initMetrics (registry s) of
             (None, r) \<Rightarrow> Some (s\<lparr>registry := r, pc := StartPanicked\<rparr>)
           | (Some cs, r) \<Rightarrow> Some (s\<lparr>registry := r, metricsSet := True, pc := MetricsReady d\<rparr>))
      | (StoreWriter, MetricsReady d) \<Rightarrow> Some (s\<lparr>writer := Some (new_writer (svc s) d), pc := Stored\<rparr>)
      | (SetStarted, Stored) \<Rightarrow> Some (s\<lparr>started := True, pc := Serving\<rparr>)
      | (CtxWait, Serving) \<Rightarrow> if ctxDone s then Some (s\<lparr>pc := StartReturned None\<rparr>) else None
      | (CtxEnds, _) \<Rightarrow> Some (s\<lparr>ctxDone := True\<rparr>)
      | (CallStop, _) \<Rightarrow>
          (case Stop api s of (r, t) \<Rightarrow> Some (t\<lparr>stopResults := stopResults t @ [r]\<rparr>))
      | _ \<Rightarrow> None)"

definition Probe ::
  "(scram_algo \<Rightarrow> string \<Rightarrow> string \<Rightarrow> 'm res) \<Rightarrow> ('w \<times> 'conn ledger, 'tls, 'm, 'conn) net \<Rightarrow>
   ('w, 'tls, 'm, 'conn, 'r) pstate \<Rightarrow> unit res \<times> 'w \<times> 'conn ledger"
where
  "Probe scram net s =
     (if \<not> started s then (Inl not_started, world s)
      else case NewDialer scram (tlsCfg (svc s)) of
             Inl e \<Rightarrow> (Inl (Wrap ''kafkaproducer: dialer'' e), world s)
           | Inr d \<Rightarrow> KafkaNet.Probe net (brokers (svc s)) d (world s))"


section \<open>Invariant\<close>

definition prod_ok :: "('w, 'tls, 'm, 'conn, 'r) pstate \<Rightarrow> bool" where
  "prod_ok s \<longleftrightarrow> balanced (world s) \<and> closes s \<le> 1 \<and> (closes s = 1 \<longrightarrow> closeDone s) \<and>
     (started s \<longrightarrow> writer s \<noteq> None) \<and>
     (case pc s of
        Connecting \<Rightarrow> writer s = None
      | Connected d \<Rightarrow> writer s = None
      | MetricsReady d \<Rightarrow> writer s = None \<and> metricsSet s
      | Stored \<Rightarrow> writer s \<noteq> None \<and> metricsSet s
      | Serving \<Rightarrow> writer s \<noteq> None \<and> metricsSet s
      | StartReturned r \<Rightarrow> (if r = None then writer s \<noteq> None \<and> metricsSet s else writer s = None)
      | StartPanicked \<Rightarrow> writer s = None)"

lemma prod_ok_writer: "prod_ok s \<Longrightarrow> writer s \<noteq> None \<Longrightarrow> metricsSet s"
  by (cases "pc s") (auto simp: prod_ok_def split: if_splits)

lemma prod_ok_frame [simp]:
  "prod_ok (s\<lparr>ctxDone := b\<rparr>) = prod_ok s" "prod_ok (s\<lparr>stopResults := rs\<rparr>) = prod_ok s"
  by (simp_all add: prod_ok_def cong: start_pc.case_cong)

lemma producer_Stop_ok: "prod_ok s \<Longrightarrow> Stop api s = (r, t) \<Longrightarrow> prod_ok t"
  by (cases "pc s")
    (auto simp: prod_ok_def Stop_def balanced_def split: if_splits option.splits prod.splits)

lemma prod_step:
  assumes "prod_ok s" and "step conv scram net api wait reg s e = Some t"
  shows "prod_ok t"
proof (cases e)
  case Connect
  obtain r wl where c: "connect conv scram (track_net net) (track_wait wait) ''kafkaproducer''
      (tlsCfg (svc s)) (retry (svc s)) (brokers (svc s)) (world s) = (r, wl)"
    by (meson surj_pair)
  have "balanced wl" by (rule kafka_connect_books [OF c]) (use assms(1) in \<open>simp add: prod_ok_def\<close>)
  with Connect assms c show ?thesis by (cases r; cases "pc s") (auto simp: step_def prod_ok_def)
next
  case InitMetrics
  obtain r rg where "register_all reg initMetrics (registry s) = (r, rg)" by fastforce
  with InitMetrics assms show ?thesis
    by (cases "pc s"; cases r) (auto simp: step_def prod_ok_def)
next
  case CallStop
  obtain r u where u: "Stop api s = (r, u)" by fastforce
  with CallStop assms(2) have "t = u\<lparr>stopResults := stopResults u @ [r]\<rparr>"
    by (cases "pc s") (auto simp: step_def)
  with producer_Stop_ok [OF assms(1) u] show ?thesis by simp
next
  case CtxEnds
  with assms show ?thesis by (cases "pc s") (auto simp: step_def)
qed (use assms in \<open>cases "pc s"; auto simp: step_def prod_ok_def split: if_splits\<close>)+

interpretation prd: lts_invariant "step conv scram net api wait reg" prod_ok
  for conv scram net api wait reg
  by unfold_locales (rule prod_step)

lemma producer_init_ok [simp]: "prod_ok (init p w r)"
  by (simp add: init_def prod_ok_def)


section \<open>Properties\<close>

lemma count_Inc_map:
  "count_list (map (\<lambda>m. Inc n [app, Topic m]) msgs) (Inc n [app, t]) = count_list (map Topic msgs) t"
  by (induction msgs) auto

lemma count_Inc_other:
  "n' \<noteq> n \<Longrightarrow> count_list (map (\<lambda>m. Inc n' [app, Topic m]) msgs) (Inc n [app, t]) = 0"
  "count_list (map (\<lambda>m. Observe n' [app, Topic m]) msgs) (Inc n [app, t]) = 0"
  by (induction msgs) auto

text \<open>
  C20. A batch is all or nothing. If some message has no topic, ProduceBatch writes nothing,
  touches no metric and reports the index of the first such message; otherwise it makes one
  write of all messages in order, and every message is counted exactly once for its topic,
  as produced if the write succeeded and as failed if not.
\<close>
theorem producer_batch:
  assumes "msgs \<noteq> []" and "ProduceBatch api app (Some wr) msgs w = (r, ms, w')"
  shows "case List.find (\<lambda>j. Topic (msgs ! j) = '''') [0..<length msgs] of
      Some j \<Rightarrow> r = Some (ErrNew (''kafkaproducer: message at index '' @ show_nat j @ '' has empty topic'')) \<and>
        ms = [] \<and> w' = w
    | None \<Rightarrow> w' = snd (WriteMessages api wr (map to_kafka msgs) w) \<and>
        (r = None \<longleftrightarrow> fst (WriteMessages api wr (map to_kafka msgs) w) = None) \<and>
        (\<forall>t. count_list ms (Inc ''kafka_produce_messages_total'' [app, t]) =
               (if r = None then count_list (map Topic msgs) t else 0) \<and>
             count_list ms (Inc ''kafka_produce_errors_total'' [app, t]) =
               (if r = None then 0 else count_list (map Topic msgs) t))"
proof (cases "List.find (\<lambda>j. Topic (msgs ! j) = '''') [0..<length msgs]")
  case None
  obtain r1 w1 where "WriteMessages api wr (map to_kafka msgs) w = (r1, w1)" by fastforce
  with None assms show ?thesis
    by (cases r1) (auto simp: ProduceBatch_def convert_batch_spec Let_def count_Inc_map count_Inc_other)
next
  case (Some j)
  with assms show ?thesis by (simp add: ProduceBatch_def convert_batch_spec)
qed

definition demo_msg :: "string \<Rightarrow> Message" where
  "demo_msg t = \<lparr>Topic = t, Key = None, Value = Some ''v'', Headers = []\<rparr>"

definition demo_writer_api :: "(kafka_message list, unit, unit) writer_api" where
  "demo_writer_api = \<lparr>WriteMessages = (\<lambda>wr ms w. (None, w @ ms)), CloseWriter = (\<lambda>wr w. (None, w))\<rparr>"

definition demo_wr :: "(unit, unit) writer" where
  "demo_wr = new_writer (New [''b''] []) \<lparr>Timeout = 0, DualStack = True, dialTLS = None, dialSASL = None\<rparr>"

theorem producer_batch_witness:
  "count_list (fst (snd (ProduceBatch demo_writer_api ''app'' (Some demo_wr) [demo_msg ''a'', demo_msg ''b'', demo_msg ''a''] [])))
     (Inc ''kafka_produce_messages_total'' [''app'', ''a'']) = 2"
proof -
  obtain r ms w' where p: "ProduceBatch demo_writer_api ''app'' (Some demo_wr)
      [demo_msg ''a'', demo_msg ''b'', demo_msg ''a''] [] = (r, ms, w')"
    by (metis prod_cases3)
  have "List.find (\<lambda>j. Topic ([demo_msg ''a'', demo_msg ''b'', demo_msg ''a''] ! j) = '''')
      [0..<length [demo_msg ''a'', demo_msg ''b'', demo_msg ''a'']] = None"
    by (simp add: demo_msg_def upt_rec)
  with producer_batch [OF _ p] p show ?thesis
    by (auto simp: demo_writer_api_def demo_msg_def)
qed

text \<open>
  C21. In any run of Start with any number of Stop calls: a producer whose writer is visible
  has its metrics, so Produce and ProduceBatch never meet a nil collector; the producer
  counts as started only with a writer; the writer is closed at most once; and every
  connection that the probes opened has been closed.
\<close>
theorem producer_lifecycle:
  assumes "lts_run (step conv scram net api wait reg) (init p w r) es = Some s"
  shows "(writer s \<noteq> None \<longrightarrow> metricsSet s) \<and> (started s \<longrightarrow> writer s \<noteq> None) \<and> closes s \<le> 1 \<and>
    opened (snd (world s)) = shut (snd (world s)) \<and>
    (\<forall>e. pc s = StartReturned (Some e) \<longrightarrow> writer s = None)"
proof -
  have ok: "prod_ok s" by (rule prd.run_inv [OF producer_init_ok assms])
  then show ?thesis
    using prod_ok_writer [OF ok] by (auto simp: prod_ok_def balanced_def)
qed

definition demo_net :: "(nat, unit, unit, nat) net" where
  "demo_net = \<lparr>DialContext = (\<lambda>d b w. (Inr w, Suc w)), CloseConn = (\<lambda>c w. w)\<rparr>"

definition count_api :: "(nat, unit, unit) writer_api" where
  "count_api = \<lparr>WriteMessages = (\<lambda>wr ms w. (None, w)), CloseWriter = (\<lambda>wr w. (None, w))\<rparr>"

definition demo_run :: "event list \<Rightarrow> (nat, unit, unit, nat, unit) pstate option" where
  "demo_run es = lts_run (step id (\<lambda>a u p. Inr ()) demo_net count_api (\<lambda>b w. (None, w)) (\<lambda>c r. (RegOk, r)))
     (init (New [''b''] []) 0 ()) es"

lemma producer_demo_metrics: "register_all (\<lambda>c r. (RegOk, r)) initMetrics () = (Some initMetrics, ())"
  by (simp add: initMetrics_def RegisterOrReuse_def)

lemma demo_Do:
  "Do conv DefaultConfig (KafkaNet.Probe (track_net demo_net) [b] d) wait (0, no_handles) =
     (Inr (), 1, \<lparr>opened = [0], shut = [0]\<rparr>)"
  unfolding Do_def
  by (rule Do_loop_success)
    (simp_all add: attempts_pos KafkaNet.Probe_def track_net_def demo_net_def no_handles_def)

lemmas demo_simps = demo_run_def step_def init_def connect_def NewDialer_def New_def plaintext_def
  demo_Do producer_demo_metrics Stop_def count_api_def

theorem producer_lifecycle_witness:
  "\<exists>s. demo_run [Connect, InitMetrics, StoreWriter, SetStarted, CallStop, CallStop] = Some s \<and>
     closes s = 1 \<and> opened (snd (world s)) = [0] \<and> shut (snd (world s)) = [0]"
proof -
  obtain s where s: "demo_run [Connect, InitMetrics, StoreWriter, SetStarted, CallStop, CallStop] = Some s"
    and "closes s = 1" "shut (snd (world s)) = [0]"
    by (simp add: demo_simps)
  with producer_lifecycle [OF s [unfolded demo_run_def]] show ?thesis by auto
qed

text \<open>
  Stop can be lost: a Stop that comes before Start has stored the writer uses up
  the close-once guard, so when Start then connects, no later Stop closes the writer and its pending
  messages are not flushed, although every Stop returns nil.
\<close>
theorem producer_early_stop_is_lost:
  "\<exists>s. demo_run [CallStop, Connect, InitMetrics, StoreWriter, SetStarted, CtxEnds, CtxWait, CallStop] = Some s \<and>
     stopResults s = [Inr (), Inr ()] \<and> pc s = StartReturned None \<and> writer s \<noteq> None \<and> closes s = 0"
  by (simp add: demo_simps)

end
