(* ===== verification/KafkaConsumer.thy ===== *)
theory KafkaConsumer
  imports KafkaNet WorkerPool "HOL-Library.AList"
begin

text \<open>
  The managed Kafka consumer of \<^verbatim>\<open>pkg/kafka/consumer/consumer.go\<close>. The kafka-go reader is the
  environment: what a fetch, a handler or a commit returns arrives in the events. The fetch
  loop and the handlers run over the worker pool of \<^verbatim>\<open>WorkerPool\<close>: every step of the consumer
  is at most one step of its pool, so the pool's theorems hold of it.
\<close>


section \<open>Messages\<close>

record kafka_message =
  rTopic :: string
  rPartition :: int
  rOffset :: int
  rKey :: bytes
  rValue :: bytes
  rHeaders :: "(string \<times> bytes) list"
  rTime :: int

record Message =
  Topic :: string
  Partition :: int
  Offset :: int
  Key :: bytes
  Value :: bytes
  Headers :: "string \<Rightarrow> bytes option"
  Time :: int

definition toMessage :: "kafka_message \<Rightarrow> Message" where
  "toMessage m =
     \<lparr>Topic = rTopic m, Partition = rPartition m, Offset = rOffset m, Key = rKey m, Value = rValue m,
      Headers = fold (\<lambda>(k, v) hs. hs(k \<mapsto> v)) (rHeaders m) Map.empty, Time = rTime m\<rparr>"


section \<open>The consumer and its options\<close>

text \<open>
  The topic map is an association list with distinct keys; the order in which a range
  statement visits a map is unspecified in Go, and nothing below depends on it.
\<close>

record ('tls, 'h) consumer =
  brokers :: "string list"
  consumerGroup :: string
  appName :: string
  tlsCfg :: "'tls TLSSASLConfig"
  retry :: Config
  poolSize :: int
  metricsInterval :: duration
  handlerTimeout :: duration
  topics :: "(string \<times> 'h) list"

definition defaultPoolSize :: int where "defaultPoolSize = 8"
definition defaultMetricsInterval :: duration where "defaultMetricsInterval = 15 * Second"
definition fetchErrorBackoff :: duration where "fetchErrorBackoff = 1 * Second"

datatype 'tls consumer_option =
    WithTLS "'tls option"
  | WithSASL string string
  | WithSASLMechanism SASLMechanism
  | WithRetry Config
  | WithWorkerPoolSize int
  | WithMetricsInterval duration
  | WithHandlerTimeout duration
  | WithAppName string
  | WithLogger
  | WithPrometheusRegisterer

fun apply_option :: "'tls consumer_option \<Rightarrow> ('tls, 'h) consumer \<Rightarrow> ('tls, 'h) consumer" where
  "apply_option (WithTLS x) c = c\<lparr>tlsCfg := (tlsCfg c)\<lparr>TLS := x\<rparr>\<rparr>"
| "apply_option (WithSASL u pw) c = c\<lparr>tlsCfg := (tlsCfg c)\<lparr>SASLUser := u, SASLPass := pw\<rparr>\<rparr>"
| "apply_option (WithSASLMechanism m) c = c\<lparr>tlsCfg := (tlsCfg c)\<lparr>SASLMech := m\<rparr>\<rparr>"
| "apply_option (WithRetry r) c = c\<lparr>retry := r\<rparr>"
| "apply_option (WithWorkerPoolSize n) c = c\<lparr>poolSize := n\<rparr>"
| "apply_option (WithMetricsInterval d) c = c\<lparr>metricsInterval := d\<rparr>"
| "apply_option (WithHandlerTimeout d) c = c\<lparr>handlerTimeout := d\<rparr>"
| "apply_option (WithAppName n) c = c\<lparr>appName := n\<rparr>"
| "apply_option WithLogger c = c"
| "apply_option WithPrometheusRegisterer c = c"

definition New :: "string list \<Rightarrow> string \<Rightarrow> 'tls consumer_option list \<Rightarrow> ('tls, 'h) consumer" where
  "New bs grp opts = fold apply_option opts
     \<lparr>brokers = bs, consumerGroup = grp, appName = '''', tlsCfg = plaintext, retry = DefaultConfig,
      poolSize = defaultPoolSize, metricsInterval = defaultMetricsInterval, handlerTimeout = 0, topics = []\<rparr>"

definition Handle :: "string \<Rightarrow> 'h \<Rightarrow> ('tls, 'h) consumer \<Rightarrow> ('tls, 'h) consumer" where
  "Handle t h c = c\<lparr>topics := AList.update t h (topics c)\<rparr>"

definition topicList :: "('tls, 'h) consumer \<Rightarrow> string list" where
  "topicList c = map fst (topics c)"

definition handlerFor :: "('tls, 'h) consumer \<Rightarrow> string \<Rightarrow> 'h option" where
  "handlerFor c t = map_of (topics c) t"

definition initMetrics :: "collector list" where
  "initMetrics =
     [\<lparr>kind = CounterVec, cname = ''kafka_consume_messages_total'',
       chelp = ''Total number of successfully handled and committed messages.'',
       label_names = [''kafka_service'', ''topic''], buckets = [], serial = 0\<rparr>,
      \<lparr>kind = CounterVec, cname = ''kafka_consume_errors_total'',
       chelp = ''Total number of messages whose handler returned an error (not committed).'',
       label_names = [''kafka_service'', ''topic''], buckets = [], serial = 1\<rparr>,
      \<lparr>kind = HistogramVec, cname = ''kafka_consume_duration_seconds'',
       chelp = ''The latency of message handlers.'',
       label_names = [''kafka_service'', ''topic''], buckets = histogram_buckets, serial = 2\<rparr>,
      \<lparr>kind = GaugeVec, cname = ''kafka_consume_lag'',
       chelp = ''Consumer lag as reported by the reader (polled snapshot).'',
       label_names = [''kafka_service'', ''topic''], buckets = [], serial = 3\<rparr>]"


section \<open>Connecting\<close>

text \<open>The first part of Start: the dialer for the reader, or the error Start returns.\<close>

definition start_connect ::
  "(int \<Rightarrow> int) \<Rightarrow> (scram_algo \<Rightarrow> string \<Rightarrow> string \<Rightarrow> 'm res) \<Rightarrow> ('w, 'tls, 'm, 'conn) net \<Rightarrow>
   (duration \<Rightarrow> 'w \<Rightarrow> ctx \<times> 'w) \<Rightarrow> ('tls, 'h) consumer \<Rightarrow> ('w, ('tls, 'm) dialer) op"
where
  "start_connect conv scram net wait c w =
     (if topicList c = []
      then (Inl (ErrNew ''kafkaconsumer: no topics registered, call Handle before Start''), w)
      else connect conv scram net wait ''kafkaconsumer'' (tlsCfg c) (retry c) (brokers c) w)"


section \<open>Consuming\<close>

text \<open>
  A task of the pool is the closure that consume submits. The loop is fetching, waiting
  after a fetch error, committing a message of a topic without a handler, submitting, or it
  has returned (which ends Start once the pool and the lag poller have ended).
\<close>

datatype 'h task = Task (raw: kafka_message) (converted: Message) (handler: 'h)

datatype 'h loop =
    Fetching
  | Backoff
  | CommitUnhandled kafka_message
  | Submitting "'h task"
  | LoopReturned

text \<open>
  The ghosts: the messages fetched, those without a handler, the outcomes of the handler
  calls in the order they ended (with the message and the deadline the handler was given),
  and the messages whose commit succeeded.
\<close>

record ('tls, 'h) cons =
  conf :: "('tls, 'h) consumer"
  pool :: "'h task pool"
  loop :: "'h loop"
  ctxErr :: ctx
  fetched :: "kafka_message list"
  skipped :: "kafka_message list"
  outcomes :: "(kafka_message \<times> err option) list"
  calls :: "('h \<times> Message \<times> duration option) list"
  committed :: "kafka_message list"
  metrics :: "metric list"

definition init :: "('tls, 'h) consumer \<Rightarrow> 'h task pool \<Rightarrow> ('tls, 'h) cons" where
  "init c p = \<lparr>conf = c, pool = p, loop = Fetching, ctxErr = None, fetched = [], skipped = [],
     outcomes = [], calls = [], committed = [], metrics = []\<rparr>"

text \<open>The pool Start makes; None is a panic of make.\<close>

definition start_pool :: "int \<Rightarrow> ('tls, 'h) consumer \<Rightarrow> 'h task pool option" where
  "start_pool lim c = WorkerPool.New lim (poolSize c) [WorkerPool.WithLogger]"

definition io_ErrClosedPipe :: err where
  "io_ErrClosedPipe = LibErr ''io.ErrClosedPipe'' ''io: read/write on closed pipe''"

text \<open>
  dispatch, from the handler's outcome and that of the commit (which is only made when the
  handler succeeded): the metric updates, and whether the offset was committed.
\<close>

definition handler_deadline :: "('tls, 'h) consumer \<Rightarrow> duration option" where
  "handler_deadline c = (if handlerTimeout c > 0 then Some (handlerTimeout c) else None)"

definition dispatch :: "string \<Rightarrow> Message \<Rightarrow> err option \<Rightarrow> err option \<Rightarrow> metric list \<times> bool" where
  "dispatch app msg herr cerr =
     (let obs = Observe ''kafka_consume_duration_seconds'' [app, Topic msg]
      in case herr of
           Some e \<Rightarrow> ([obs, Inc ''kafka_consume_errors_total'' [app, Topic msg]], False)
         | None \<Rightarrow>
             (case cerr of
                Some e \<Rightarrow> ([obs], False)
              | None \<Rightarrow> ([obs, Inc ''kafka_consume_messages_total'' [app, Topic msg]], True)))"

datatype event =
    FetchReturns "kafka_message res"
  | BackoffTimer
  | BackoffCtx
  | CommitReturns "err option"
  | SubmitReturns submit_pick
  | StartWorkers
  | CloseTasks
  | PoolReturns
  | Take nat
  | Dispatch nat "err option" "err option"
  | Exit nat
  | CtxEnds ctx_err
  | LagSample string int

text \<open>The fetch loop.\<close>

fun consume_step :: "('tls, 'h) cons \<Rightarrow> event \<Rightarrow> ('tls, 'h) cons option" where
  "consume_step s (FetchReturns r) =
     (if loop s = Fetching
      then case r of
             Inl e \<Rightarrow>
               Some (s\<lparr>loop := if errors_is e (CtxErr Canceled) \<or> errors_is e io_ErrClosedPipe
                             then LoopReturned else Backoff\<rparr>)
           | Inr m \<Rightarrow>
               Some (case handlerFor (conf s) (rTopic m) of
                       None \<Rightarrow> s\<lparr>fetched := fetched s @ [m], loop := CommitUnhandled m\<rparr>
                     | Some h \<Rightarrow>
                         s\<lparr>fetched := fetched s @ [m], loop := Submitting (Task m (toMessage m) h)\<rparr>)
      else None)"
| "consume_step s BackoffTimer = (if loop s = Backoff then Some (s\<lparr>loop := Fetching\<rparr>) else None)"
| "consume_step s BackoffCtx =
     (if loop s = Backoff \<and> ctxErr s \<noteq> None then Some (s\<lparr>loop := LoopReturned\<rparr>) else None)"
| "consume_step s (CommitReturns r) =
     (case loop s of
        CommitUnhandled m \<Rightarrow>
          Some (s\<lparr>loop := Fetching, skipped := skipped s @ [m],
                  committed := committed s @ (if r = None then [m] else [])\<rparr>)
      | _ \<Rightarrow> None)"
| "consume_step s (SubmitReturns pick) =
     (case loop s of
        Submitting t \<Rightarrow>
          (case Submit pick (ctxErr s) t (pool s) of
             None \<Rightarrow> None
           | Some (Inr u, p) \<Rightarrow> Some (s\<lparr>pool := p, loop := Fetching\<rparr>)
           | Some (Inl e, p) \<Rightarrow> Some (s\<lparr>pool := p, loop := LoopReturned\<rparr>))
      | _ \<Rightarrow> None)"
| "consume_step s _ = None"

text \<open>The pool's goroutines, the lag poller and the context.\<close>

fun worker_step :: "('tls, 'h) cons \<Rightarrow> event \<Rightarrow> ('tls, 'h) cons option" where
  "worker_step s StartWorkers = map_option (\<lambda>p. s\<lparr>pool := p\<rparr>) (pool_step (pool s) WorkerPool.StartWorkers)"
| "worker_step s CloseTasks = map_option (\<lambda>p. s\<lparr>pool := p\<rparr>) (pool_step (pool s) WorkerPool.CloseTasks)"
| "worker_step s PoolReturns = map_option (\<lambda>p. s\<lparr>pool := p\<rparr>) (pool_step (pool s) WorkerPool.StartReturns)"
| "worker_step s (Take i) = map_option (\<lambda>p. s\<lparr>pool := p\<rparr>) (pool_step (pool s) (WorkerPool.Take i))"
| "worker_step s (Exit i) = map_option (\<lambda>p. s\<lparr>pool := p\<rparr>) (pool_step (pool s) (WorkerPool.Exit i))"
| "worker_step s (CtxEnds e) =
     (if ctxErr s = None
      then map_option (\<lambda>p. s\<lparr>pool := p, ctxErr := Some e\<rparr>) (pool_step (pool s) WorkerPool.CtxEnds)
      else None)"
| "worker_step s (LagSample t n) =
     Some (s\<lparr>metrics := metrics s @ [SetGauge ''kafka_consume_lag'' [appName (conf s), t] n]\<rparr>)"
| "worker_step s (Dispatch i herr cerr) =
     (if i < length (workers (pool s))
      then case workers (pool s) ! i of
             Busy (Task m msg h) \<Rightarrow>
               (case dispatch (appName (conf s)) msg herr cerr of
                  (ms, ok) \<Rightarrow>
                    map_option
                      (\<lambda>p. s\<lparr>pool := p, metrics := metrics s @ ms, outcomes := outcomes s @ [(m, herr)],
                             calls := calls s @ [(h, msg, handler_deadline (conf s))],
                             committed := committed s @ (if ok then [m] else [])\<rparr>)
                      (pool_step (pool s) (Finish i)))
           | _ \<Rightarrow> None
      else None)"
| "worker_step s _ = None"

fun loop_event :: "event \<Rightarrow> bool" where
  "loop_event (FetchReturns r) = True"
| "loop_event BackoffTimer = True"
| "loop_event BackoffCtx = True"
| "loop_event (CommitReturns r) = True"
| "loop_event (SubmitReturns p) = True"
| "loop_event _ = False"

definition step :: "('tls, 'h) cons \<Rightarrow> event \<Rightarrow> ('tls, 'h) cons option" where
  "step s e = (if loop_event e then consume_step s e else worker_step s e)"


section \<open>Stop and Probe\<close>

text \<open>
  Stop closes the reader once, then stops the pool; the pool's error is reported only if
  closing the reader gave none. The reader and the pool are stored by Start together.
\<close>

definition Stop ::
  "('rd \<Rightarrow> 'w \<Rightarrow> err option \<times> 'w) \<Rightarrow> stop_pick \<Rightarrow> ctx \<Rightarrow> ('rd \<times> 'h task pool) option \<Rightarrow> bool \<Rightarrow> 'w \<Rightarrow>
   (unit res \<times> bool \<times> 'w) option"
where
  "Stop close pick c stored closeDone w =
     (let (errClose, w1) =
        (if closeDone then (None, w)
         else case stored of
                None \<Rightarrow> (None, w)
              | Some (reader, p) \<Rightarrow>
                  (case close reader w of
                     (Some e, w1) \<Rightarrow> (Some (Wrap ''kafkaconsumer: close reader'' e), w1)
                   | (None, w1) \<Rightarrow> (None, w1)))
      in case stored of
           None \<Rightarrow> Some (case_option (Inr ()) Inl errClose, True, w1)
         | Some (reader, p) \<Rightarrow>
             map_option
               (\<lambda>r. (case errClose of
                       Some e \<Rightarrow> Inl e
                     | None \<Rightarrow> (case r of Inr u \<Rightarrow> Inr () | Inl e \<Rightarrow> Inl (Wrap ''kafkaconsumer: stop pool'' e)),
                     True, w1))
               (WorkerPool.Stop pick c p))"

definition Probe ::
  "(scram_algo \<Rightarrow> string \<Rightarrow> string \<Rightarrow> 'm res) \<Rightarrow> ('w, 'tls, 'm, 'conn) net \<Rightarrow> bool \<Rightarrow>
   ('tls, 'h) consumer \<Rightarrow> ('w, unit) op"
where
  "Probe scram net isStarted c w =
     (if \<not> isStarted then (Inl (ErrNew ''kafkaconsumer: not started''), w)
      else case NewDialer scram (tlsCfg c) of
             Inl e \<Rightarrow> (Inl (Wrap ''kafkaconsumer: dialer'' e), w)
           | Inr d \<Rightarrow> KafkaNet.Probe net (brokers c) d w)"


section \<open>The consumer over its pool\<close>

text \<open>Every step is at most one step of the worker pool.\<close>

lemma step_pool:
  assumes "step s e = Some t"
  shows "pool t = pool s \<or> (\<exists>pe. pool_step (pool s) pe = Some (pool t))"
proof (cases e)
  case (SubmitReturns pick)
  then obtain k where "loop s = Submitting k" and "map_option snd (Submit pick (ctxErr s) k (pool s)) = Some (pool t)"
    using assms by (auto simp: step_def split: loop.splits option.splits sum.splits)
  then have "pool_step (pool s) (SubmitCall pick (ctxErr s) k) = Some (pool t)"
    by (simp add: pool_step_def)
  then show ?thesis by blast
next
  case (FetchReturns r)
  with assms show ?thesis by (auto simp: step_def split: if_splits sum.splits option.splits)
next
  case (Dispatch i herr cerr)
  with assms show ?thesis
    by (auto simp: step_def split: if_splits worker.splits task.splits prod.splits)
qed (use assms in \<open>auto simp: step_def split: if_splits loop.splits\<close>)

text \<open>
  What becomes of the fetched messages: skipped, accepted by the pool, or still (or for
  ever, when the loop has returned) in the loop's hands.
\<close>

fun in_loop :: "'h loop \<Rightarrow> kafka_message list" where
  "in_loop (CommitUnhandled m) = [m]"
| "in_loop (Submitting t) = [raw t]"
| "in_loop _ = []"

definition accounted :: "('tls, 'h) cons \<Rightarrow> bool" where
  "accounted s \<longleftrightarrow>
     (\<exists>dropped. (dropped \<noteq> [] \<longrightarrow> loop s = LoopReturned \<and> length dropped = 1) \<and>
        mset (fetched s) = mset (skipped s) + image_mset raw (mset (accepted (pool s))) +
          mset (in_loop (loop s)) + mset dropped)"

text \<open>The handler calls that ended are the tasks the pool finished, in that order.\<close>

definition traced :: "('tls, 'h) cons \<Rightarrow> bool" where
  "traced s \<longleftrightarrow> map fst (outcomes s) = map raw (finished (pool s))"

text \<open>A commit needs a reason.\<close>

definition commits_ok :: "('tls, 'h) cons \<Rightarrow> bool" where
  "commits_ok s \<longleftrightarrow> (\<forall>m \<in> set (committed s). m \<in> set (skipped s) \<or> (m, None) \<in> set (outcomes s))"

lemma Submit_accepted:
  assumes "Submit pick c t p = Some (r, q)"
  shows "(case r of Inr u \<Rightarrow> accepted q = accepted p @ [t] | Inl e \<Rightarrow> q = p) \<and> finished q = finished p"
  using assms
  by (auto simp: Submit_def chan_send_def split: submit_pick.splits if_splits sent.splits option.splits)

lemma pool_step_ghosts:
  "pool_step p WorkerPool.StartWorkers = Some q \<Longrightarrow> accepted q = accepted p \<and> finished q = finished p"
  "pool_step p WorkerPool.CloseTasks = Some q \<Longrightarrow> accepted q = accepted p \<and> finished q = finished p"
  "pool_step p WorkerPool.StartReturns = Some q \<Longrightarrow> accepted q = accepted p \<and> finished q = finished p"
  "pool_step p (WorkerPool.Take i) = Some q \<Longrightarrow> accepted q = accepted p \<and> finished q = finished p"
  "pool_step p (WorkerPool.Exit i) = Some q \<Longrightarrow> accepted q = accepted p \<and> finished q = finished p"
  "pool_step p WorkerPool.CtxEnds = Some q \<Longrightarrow> accepted q = accepted p \<and> finished q = finished p"
  by (auto simp: pool_step_def split: if_splits received.splits)

lemma pool_step_Finish:
  "pool_step p (Finish i) = Some q \<Longrightarrow> workers p ! i = Busy t \<Longrightarrow>
   accepted q = accepted p \<and> finished q = finished p @ [t]"
  by (auto simp: pool_step_def split: if_splits)

lemma accounted_step:
  assumes "accounted s" and "step s e = Some t"
  shows "accounted t"
proof -
  from assms(1) obtain dropped where
    d: "dropped \<noteq> [] \<longrightarrow> loop s = LoopReturned \<and> length dropped = 1" and
    m: "mset (fetched s) = mset (skipped s) + image_mset raw (mset (accepted (pool s))) +
          mset (in_loop (loop s)) + mset dropped"
    unfolding accounted_def by blast
  show ?thesis
  proof (cases "loop_event e")
    case False
    then have "loop t = loop s \<and> fetched t = fetched s \<and> skipped t = skipped s \<and>
        accepted (pool t) = accepted (pool s)"
      using assms(2)
      by (cases e) (auto simp: step_def dest: pool_step_ghosts pool_step_Finish
          split: if_splits worker.splits task.splits prod.splits)
    with d m show ?thesis unfolding accounted_def by (intro exI [of _ dropped]) auto
  next
    case True
    then have "loop s \<noteq> LoopReturned" using assms(2) by (cases e) (auto simp: step_def split: if_splits)
    with d have d0: "dropped = []" by blast
    show ?thesis
    proof (cases "\<exists>pick. e = SubmitReturns pick")
      case True
      then obtain pick k where e: "e = SubmitReturns pick" and k: "loop s = Submitting k"
        using assms(2) by (auto simp: step_def split: loop.splits)
      then obtain r q where q: "Submit pick (ctxErr s) k (pool s) = Some (r, q)"
        and t: "t = s\<lparr>pool := q, loop := case r of Inr u \<Rightarrow> Fetching | Inl x \<Rightarrow> LoopReturned\<rparr>"
        using assms(2) by (auto simp: step_def split: option.splits sum.splits)
      show ?thesis
        using Submit_accepted [OF q] m d0 k t unfolding accounted_def
        by (intro exI [of _ "case r of Inr u \<Rightarrow> [] | Inl x \<Rightarrow> [raw k]"])
          (auto split: sum.splits)
    next
      case False
      with True assms(2) m d0 show ?thesis unfolding accounted_def
        by (intro exI [of _ "[]"], cases e)
          (auto simp: step_def split: if_splits sum.splits option.splits loop.splits)
    qed
  qed
qed

lemma traced_step: "traced s \<Longrightarrow> step s e = Some t \<Longrightarrow> traced t"
proof (cases e)
  case (SubmitReturns pick)
  moreover assume "traced s" "step s e = Some t"
  ultimately show ?thesis
    by (auto simp: traced_def step_def dest!: Submit_accepted split: loop.splits option.splits sum.splits)
next
  case (Dispatch i herr cerr)
  moreover assume "traced s" "step s e = Some t"
  ultimately show ?thesis
    by (auto simp: traced_def step_def dest!: pool_step_Finish
        split: if_splits worker.splits task.splits prod.splits)
qed (auto simp: traced_def step_def dest: pool_step_ghosts split: if_splits sum.splits option.splits loop.splits)

lemma commits_ok_step: "commits_ok s \<Longrightarrow> step s e = Some t \<Longrightarrow> commits_ok t"
proof (cases e)
  case (Dispatch i herr cerr)
  moreover assume "commits_ok s" "step s e = Some t"
  ultimately show ?thesis
    by (auto simp: commits_ok_def step_def dispatch_def Let_def
        split: if_splits worker.splits task.splits prod.splits option.splits)
next
  case (SubmitReturns pick)
  moreover assume "commits_ok s" "step s e = Some t"
  ultimately show ?thesis
    by (fastforce simp: commits_ok_def step_def split: sum.splits option.splits loop.splits)
qed (auto simp: commits_ok_def step_def split: if_splits sum.splits option.splits loop.splits)

interpretation con: lts_invariant step "\<lambda>s. pool_inv (pool s) \<and> accounted s \<and> traced s \<and> commits_ok s"
proof
  fix s e and t :: "('tls, 'h) cons"
  assume i: "pool_inv (pool s) \<and> accounted s \<and> traced s \<and> commits_ok s" and st: "step s e = Some t"
  have "pool_inv (pool t)" using step_pool [OF st] i by (auto intro: pl.step_inv)
  with i st show "pool_inv (pool t) \<and> accounted t \<and> traced t \<and> commits_ok t"
    by (blast intro: accounted_step traced_step commits_ok_step)
qed

lemma consumer_init_ok:
  "start_pool lim c = Some p \<Longrightarrow>
   pool_inv (pool (init c p)) \<and> accounted (init c p) \<and> traced (init c p) \<and> commits_ok (init c p)"
  by (auto simp: start_pool_def init_def accounted_def traced_def commits_ok_def fresh_def
      dest!: New_fresh intro: fresh_inv [unfolded fresh_def])

text \<open>A task calls the handler registered for its topic on the converted message.\<close>

definition good_task :: "('tls, 'h) consumer \<Rightarrow> 'h task \<Rightarrow> bool" where
  "good_task c t \<longleftrightarrow> handlerFor c (rTopic (raw t)) = Some (handler t) \<and> converted t = toMessage (raw t)"

definition routed :: "('tls, 'h) consumer \<Rightarrow> ('tls, 'h) cons \<Rightarrow> bool" where
  "routed c s \<longleftrightarrow> conf s = c \<and> list_all (good_task c) (accepted (pool s)) \<and>
     (\<forall>t. loop s = Submitting t \<longrightarrow> good_task c t) \<and>
     calls s = map (\<lambda>t. (handler t, converted t, handler_deadline c)) (finished (pool s))"

interpretation rou: lts_invariant step "routed c" for c
proof
  fix s e t
  assume r: "routed c s" and st: "step s e = Some t"
  show "routed c t"
  proof (cases e)
    case (FetchReturns x)
    with r st show ?thesis
      by (auto simp: routed_def step_def good_task_def split: if_splits sum.splits option.splits)
  next
    case (SubmitReturns pick)
    with r st show ?thesis
      by (auto simp: routed_def step_def dest!: Submit_accepted split: loop.splits option.splits sum.splits)
  next
    case (Dispatch i herr cerr)
    with r st show ?thesis
      by (auto simp: routed_def step_def dest!: pool_step_Finish
          split: if_splits worker.splits task.splits prod.splits)
  qed (use r st in \<open>auto simp: routed_def step_def dest: pool_step_ghosts split: if_splits loop.splits\<close>)
qed


text \<open>Where the fetched messages are, as one multiset equation.\<close>

lemma messages_split:
  assumes "start_pool lim c = Some p" and "lts_run step (init c p) es = Some s"
  shows "\<exists>dropped. (dropped \<noteq> [] \<longrightarrow> loop s = LoopReturned \<and> length dropped = 1) \<and>
    mset (fetched s) = mset (skipped s) + image_mset raw (mset (buf (tasks (pool s)))) +
      image_mset raw (mset (busy (workers (pool s)))) + mset (map fst (outcomes s)) +
      mset (in_loop (loop s)) + mset dropped"
proof -
  have inv: "pool_inv (pool s)" "accounted s" "traced s"
    using con.run_inv [OF consumer_init_ok [OF assms(1)] assms(2)] by auto
  have "mset (accepted (pool s)) =
      mset (finished (pool s)) + mset (busy (workers (pool s))) + mset (buf (tasks (pool s)))"
    using inv(1) by (simp add: pool_inv_def conserved_def)
  with inv(2) show ?thesis
    using inv(3) by (auto simp: accounted_def traced_def ac_simps)
qed

lemma commits_reached:
  "start_pool lim c = Some p \<Longrightarrow> lts_run step (init c p) es = Some s \<Longrightarrow> commits_ok s"
  using con.run_inv [OF consumer_init_ok] by blast

lemma distinct_part: "mset ys = mset xs + X \<Longrightarrow> distinct ys \<Longrightarrow> distinct xs"
  by (metis distinct_append ex_mset mset_append mset_eq_imp_distinct_iff)

text \<open>When no message is fetched twice, each is in one place only.\<close>

lemma messages_apart:
  assumes "start_pool lim c = Some p" and "lts_run step (init c p) es = Some s" and "distinct (fetched s)"
    and "(m, r) \<in> set (outcomes s)"
  shows "m \<notin> set (skipped s)" and "m \<notin> raw ` set (busy (workers (pool s)))"
    and "(m, r') \<in> set (outcomes s) \<Longrightarrow> r' = r"
proof -
  from messages_split [OF assms(1,2)] obtain X where "mset (fetched s) =
      mset (map fst (outcomes s) @ map raw (busy (workers (pool s))) @ skipped s) + X"
    by (fastforce simp: ac_simps)
  then have "distinct (map fst (outcomes s) @ map raw (busy (workers (pool s))) @ skipped s)"
    using distinct_part assms(3) by blast
  with assms(4) show "m \<notin> set (skipped s)" and "m \<notin> raw ` set (busy (workers (pool s)))"
    and "(m, r') \<in> set (outcomes s) \<Longrightarrow> r' = r"
    by (force, force, metis distinct_append eq_key_imp_eq_value)
qed

lemma busy_mem: "i < length ws \<Longrightarrow> ws ! i = Busy t \<Longrightarrow> t \<in> set (busy ws)"
  by (force simp: busy_def dest: nth_mem)


section \<open>Properties\<close>

text \<open>
  C6. Every fetched message is dealt with exactly once. At any moment of any run the fetched
  messages are those skipped for want of a handler, those waiting in the pool's queue, those
  whose handler is running, those whose handler has ended, the one in the loop's hands, and
  at most one that was dropped because the loop returned when it could not submit it.
\<close>
theorem consumer_exactly_once:
  assumes "start_pool lim c = Some p" and "lts_run step (init c p) es = Some s"
  shows "\<exists>dropped. (dropped \<noteq> [] \<longrightarrow> loop s = LoopReturned \<and> length dropped = 1) \<and>
    mset (fetched s) = mset (skipped s) + image_mset raw (mset (buf (tasks (pool s)))) +
      image_mset raw (mset (busy (workers (pool s)))) + mset (map fst (outcomes s)) +
      mset (in_loop (loop s)) + mset dropped"
  using messages_split [OF assms] .

text \<open>
  C7. A message is committed only for a reason: it has no handler, or its handler returned
  nil; and every handler call that ended was that of the handler registered for the
  message's topic, on the converted message, under the configured timeout.
\<close>
theorem consumer_commit_after_success:
  assumes "start_pool lim c = Some p" and "lts_run step (init c p) es = Some s"
  shows "(\<forall>m \<in> set (committed s). m \<in> set (skipped s) \<or> (m, None) \<in> set (outcomes s)) \<and>
    map fst (outcomes s) = map raw (finished (pool s)) \<and>
    calls s = map (\<lambda>t. (handler t, toMessage (raw t), handler_deadline c)) (finished (pool s)) \<and>
    (\<forall>t \<in> set (finished (pool s)). handlerFor c (rTopic (raw t)) = Some (handler t))"
proof -
  have inv: "pool_inv (pool s)" "traced s" "commits_ok s"
    using con.run_inv [OF consumer_init_ok [OF assms(1)] assms(2)] by auto
  have r: "routed c s"
    by (rule rou.run_inv [OF _ assms(2)])
      (use New_fresh [OF assms(1) [unfolded start_pool_def]] in \<open>simp add: routed_def init_def fresh_def\<close>)
  have "set (finished (pool s)) \<subseteq> set (accepted (pool s))"
    using inv(1) by (auto simp: pool_inv_def conserved_def dest: arg_cong [of _ _ set_mset])
  with r have "\<forall>t \<in> set (finished (pool s)). good_task c t" by (auto simp: routed_def list_all_iff)
  with inv r show ?thesis by (auto simp: commits_ok_def traced_def routed_def good_task_def)
qed

text \<open>A topic with one handler, a pool of one worker, and two messages of one partition.\<close>

definition demo_conf :: "(unit, nat) consumer" where
  "demo_conf = Handle ''orders'' 7 (New [''b''] ''group'' [WithWorkerPoolSize 1])"

definition demo_msg :: "int \<Rightarrow> kafka_message" where
  "demo_msg i = \<lparr>rTopic = ''orders'', rPartition = 0, rOffset = i, rKey = None, rValue = None,
     rHeaders = [(''k'', Some ''v'')], rTime = 0\<rparr>"

definition demo_pool :: "nat task pool" where
  "demo_pool = \<lparr>psize = 1, tasks = \<lparr>buf = [], cap = 2, closed = False\<rparr>, drainOnStop = False,
     workers = [], started = False, ctxDone = False, returned = False, accepted = [], begun = [],
     finished = []\<rparr>"

lemma demo_start: "start_pool 100 demo_conf = Some demo_pool"
  by (simp add: start_pool_def WorkerPool.New_def make_chan_def demo_conf_def Handle_def New_def
      demo_pool_def is_int64_def)

definition demo_events :: "event list" where
  "demo_events = [StartWorkers, FetchReturns (Inr (demo_msg 0)), SubmitReturns PickSend,
     FetchReturns (Inr (demo_msg 1)), SubmitReturns PickSend, Take 0, Dispatch 0 (Some (ErrNew ''down'')) None,
     Take 0, Dispatch 0 None None]"

lemma demo_final:
  "\<exists>s. lts_run step (init demo_conf demo_pool) demo_events = Some s \<and>
     fetched s = [demo_msg 0, demo_msg 1] \<and> committed s = [demo_msg 1] \<and> skipped s = [] \<and>
     outcomes s = [(demo_msg 0, Some (ErrNew ''down'')), (demo_msg 1, None)]"
  by (simp add: demo_events_def step_def init_def demo_conf_def demo_pool_def demo_msg_def Handle_def New_def
      handlerFor_def Submit_def chan_send_def pool_step_def chan_recv_def dispatch_def Let_def)

theorem consumer_exactly_once_witness:
  "\<exists>s. lts_run step (init demo_conf demo_pool) demo_events = Some s \<and>
     (\<exists>dropped. mset (fetched s) = mset (skipped s) + image_mset raw (mset (buf (tasks (pool s)))) +
       image_mset raw (mset (busy (workers (pool s)))) + mset (map fst (outcomes s)) +
       mset (in_loop (loop s)) + mset dropped)"
proof -
  obtain s where s: "lts_run step (init demo_conf demo_pool) demo_events = Some s"
    using demo_final by blast
  from consumer_exactly_once [OF demo_start s] s show ?thesis by blast
qed

theorem consumer_commit_after_success_witness:
  "\<exists>s. lts_run step (init demo_conf demo_pool) demo_events = Some s \<and> committed s = [demo_msg 1] \<and>
     (\<forall>m \<in> set (committed s). m \<in> set (skipped s) \<or> (m, None) \<in> set (outcomes s))"
proof -
  obtain s where s: "lts_run step (init demo_conf demo_pool) demo_events = Some s"
    and "committed s = [demo_msg 1]" using demo_final by blast
  with consumer_commit_after_success [OF demo_start s] show ?thesis by blast
qed

text \<open>
  C8. A failed message is passed over, for any number of workers and in any interleaving. In a
  run that fetches no message twice, a message whose handler returned an error is not committed,
  and it holds nothing up: every other message whose handler is running is committed on its own as soon as
  its handler returns nil and the commit goes through, one of the same partition with a higher
  offset as well, and the failed one still is not.
\<close>
theorem consumer_failed_message_passed:
  assumes "start_pool lim c = Some p" and "lts_run step (init c p) es = Some s" and "distinct (fetched s)"
    and "(m, Some e) \<in> set (outcomes s)"
  shows "m \<notin> set (committed s) \<and>
    (\<forall>i m' msg h. i < length (workers (pool s)) \<and> workers (pool s) ! i = Busy (Task m' msg h) \<longrightarrow>
       (\<exists>t. step s (Dispatch i None None) = Some t \<and> committed t = committed s @ [m'] \<and> m \<notin> set (committed t)))"
proof -
  note apart = messages_apart [OF assms]
  have "m \<notin> set (committed s)"
    using commits_reached [OF assms(1,2)] apart(1) apart(3) [of None] by (auto simp: commits_ok_def)
  moreover have "m' \<noteq> m" if "i < length (workers (pool s))" "workers (pool s) ! i = Busy (Task m' msg h)" for i m' msg h
    using busy_mem [OF that] apart(2) by force
  ultimately show ?thesis by (auto simp: step_def dispatch_def Let_def pool_step_def)
qed

theorem consumer_failed_message_passed_witness:
  "\<exists>s t. lts_run step (init demo_conf demo_pool) (butlast demo_events) = Some s \<and>
     (demo_msg 0, Some (ErrNew ''down'')) \<in> set (outcomes s) \<and>
     step s (Dispatch 0 None None) = Some t \<and> committed t = [demo_msg 1]"
proof -
  obtain s where s: "lts_run step (init demo_conf demo_pool) (butlast demo_events) = Some s"
    and f: "fetched s = [demo_msg 0, demo_msg 1]" and c: "committed s = []"
    and o: "outcomes s = [(demo_msg 0, Some (ErrNew ''down''))]"
    and w: "workers (pool s) = [Busy (Task (demo_msg 1) (toMessage (demo_msg 1)) 7)]"
    by (simp add: demo_events_def step_def init_def demo_conf_def demo_pool_def demo_msg_def Handle_def New_def
        handlerFor_def Submit_def chan_send_def pool_step_def chan_recv_def dispatch_def Let_def)
  have "distinct (fetched s)" "(demo_msg 0, Some (ErrNew ''down'')) \<in> set (outcomes s)"
    by (simp_all add: f o demo_msg_def)
  from consumer_failed_message_passed [OF demo_start s this] s o c w show ?thesis by force
qed

end
