(* ===== verification/Serving.thy ===== *)
theory Serving
  imports Prelude
begin

text \<open>
  The life of a listening server, which \<^verbatim>\<open>pkg/http/server/server.go\<close> and
  \<^verbatim>\<open>pkg/grpc/server/server.go\<close> write in the same way: Start listens, serves and watches its
  context; Stop drains through the same \<^verbatim>\<open>shutdownOnce\<close> and forces the remaining connections
  closed when its own context ends. What differs is a \<open>profile\<close>. The wrapped library server
  (\<^verbatim>\<open>http.Server\<close>, \<^verbatim>\<open>grpc.Server\<close>) is reduced to what its documentation says of draining and
  of a forced close: whether it is shutting down, how many requests are in flight on
  connections that it tracks, and how many handlers still run without such a connection. Draining
  refuses new requests and ends when no tracked request is left; a forced close closes the
  tracked connections, and the handlers that served them go on running.
\<close>


section \<open>The machine\<close>

text \<open>
  \<open>listenErr\<close> and \<open>serveErr\<close> are what Start makes of an error of Listen and Serve, \<open>closedErr\<close>
  what Serve returns after a shutdown, \<open>stopPrefix\<close> the prefix of Stop's error. \<open>hijacks\<close>: a handler
  may take its connection over, which the server then no longer tracks (\<^verbatim>\<open>http.Hijacker\<close>).
  \<open>waitsHandlers\<close>: the graceful stop waits for the handlers themselves and not only for
  their connections (\<^verbatim>\<open>GracefulStop\<close> blocks until all pending RPCs are finished).
\<close>

record profile =
  listenErr :: "string \<Rightarrow> err \<Rightarrow> err"
  closedErr :: "err option"
  serveErr :: "err \<Rightarrow> err option"
  stopPrefix :: string
  hijacks :: bool
  waitsHandlers :: bool

datatype who = Watcher | Stopper nat

datatype once = OnceNew | OnceRunning who | OnceDone

datatype start_pc =
    NotStarted
  | Listening
  | InServe
  | ServeEnded "err option"
  | StartReturned "err option"

datatype watcher = NoWatcher | Selecting | Waiting | Draining | Gone

datatype drainer = NoDrainer | DWaiting | DDraining | DDone

datatype stop_mode = Selects | Forced ctx_err | Returned "unit res"

record stop_call =
  drainer :: drainer
  mode :: stop_mode

text \<open>
  \<open>active\<close> counts the requests on tracked connections, \<open>loose\<close> the handlers that run without
  one; the ghosts \<open>taken\<close> and \<open>cut\<close> count the connections that were taken over and those
  with a request that a forced close closed.
\<close>

record server =
  addr :: string
  listener :: "string option"
  closing :: bool
  active :: nat
  loose :: nat
  taken :: nat
  cut :: nat
  shutdownOnce :: once
  ctxDone :: bool
  quit :: bool
  pc :: start_pc
  watcher :: watcher
  stops :: "stop_call list"

definition new_server :: "string \<Rightarrow> server" where
  "new_server a = \<lparr>addr = a, listener = None, closing = False, active = 0, loose = 0, taken = 0, cut = 0,
     shutdownOnce = OnceNew, ctxDone = False, quit = False, pc = NotStarted, watcher = NoWatcher, stops = []\<rparr>"

text \<open>Addr: the bound address once there is a listener, the configured one before.\<close>

definition Addr :: "server \<Rightarrow> string" where
  "Addr s = (case listener s of Some a \<Rightarrow> a | None \<Rightarrow> addr s)"

datatype event =
    Listen "string res"
  | ServeBegins
  | Accept
  | RequestDone
  | Hijack
  | LooseDone
  | ServeReturns
  | ServeFails err
  | WaitWatcher
  | CtxEnds
  | WatchCtx
  | WatchQuit
  | CallStop ctx
  | OnceEnter who
  | DrainReturns
  | OncePass who
  | StopDone nat
  | StopExpires nat ctx_err
  | StopForced nat

text \<open>Start, and the requests it serves.\<close>

fun start_step :: "profile \<Rightarrow> server \<Rightarrow> event \<Rightarrow> server option" where
  "start_step L s (Listen r) =
     (if pc s = NotStarted
      then Some (case r of
                   Inl e \<Rightarrow> s\<lparr>pc := StartReturned (Some (listenErr L (addr s) e))\<rparr>
                 | Inr a \<Rightarrow> s\<lparr>listener := Some a, pc := Listening, watcher := Selecting\<rparr>)
      else None)"
| "start_step L s ServeBegins = (if pc s = Listening then Some (s\<lparr>pc := InServe\<rparr>) else None)"
| "start_step L s Accept =
     (if pc s = InServe \<and> \<not> closing s then Some (s\<lparr>active := active s + 1\<rparr>) else None)"
| "start_step L s RequestDone = (if active s > 0 then Some (s\<lparr>active := active s - 1\<rparr>) else None)"
| "start_step L s Hijack =
     (if hijacks L \<and> active s > 0
      then Some (s\<lparr>active := active s - 1, loose := loose s + 1, taken := taken s + 1\<rparr>) else None)"
| "start_step L s LooseDone = (if loose s > 0 then Some (s\<lparr>loose := loose s - 1\<rparr>) else None)"
| "start_step L s ServeReturns =
     (if pc s = InServe \<and> closing s then Some (s\<lparr>quit := True, pc := ServeEnded (closedErr L)\<rparr>) else None)"
| "start_step L s (ServeFails e) =
     (if pc s = InServe \<and> \<not> closing s then Some (s\<lparr>quit := True, pc := ServeEnded (Some e)\<rparr>) else None)"
| "start_step L s WaitWatcher =
     (case pc s of
        ServeEnded r \<Rightarrow>
          if watcher s = Gone then Some (s\<lparr>pc := StartReturned (Option.bind r (serveErr L))\<rparr>) else None
      | _ \<Rightarrow> None)"
| "start_step L s CtxEnds = Some (s\<lparr>ctxDone := True\<rparr>)"
| "start_step L s WatchCtx =
     (if watcher s = Selecting \<and> ctxDone s then Some (s\<lparr>watcher := Waiting\<rparr>) else None)"
| "start_step L s WatchQuit =
     (if watcher s = Selecting \<and> quit s then Some (s\<lparr>watcher := Gone\<rparr>) else None)"
| "start_step L s _ = None"

text \<open>
  The graceful shutdown behind \<^verbatim>\<open>shutdownOnce\<close>: whoever enters first starts the drain, the
  drain returns when no tracked request is left (and no handler runs, where the library waits for
  them), and everyone else waits for it.
\<close>

definition waits :: "server \<Rightarrow> who \<Rightarrow> bool" where
  "waits s w = (case w of Watcher \<Rightarrow> watcher s = Waiting
     | Stopper i \<Rightarrow> i < length (stops s) \<and> drainer (stops s ! i) = DWaiting)"

definition set_who :: "who \<Rightarrow> bool \<Rightarrow> server \<Rightarrow> server" where
  "set_who w finished s =
     (case w of
        Watcher \<Rightarrow> s\<lparr>watcher := if finished then Gone else Draining\<rparr>
      | Stopper i \<Rightarrow>
          s\<lparr>stops := (stops s)[i := (stops s ! i)\<lparr>drainer := if finished then DDone else DDraining\<rparr>]\<rparr>)"

fun drain_step :: "profile \<Rightarrow> server \<Rightarrow> event \<Rightarrow> server option" where
  "drain_step L s (OnceEnter w) =
     (if waits s w \<and> shutdownOnce s = OnceNew
      then Some ((set_who w False s)\<lparr>shutdownOnce := OnceRunning w, closing := True\<rparr>) else None)"
| "drain_step L s DrainReturns =
     (case shutdownOnce s of
        OnceRunning w \<Rightarrow>
          if active s = 0 \<and> (waitsHandlers L \<longrightarrow> loose s = 0)
          then Some ((set_who w True s)\<lparr>shutdownOnce := OnceDone\<rparr>) else None
      | _ \<Rightarrow> None)"
| "drain_step L s (OncePass w) =
     (if waits s w \<and> shutdownOnce s = OnceDone then Some (set_who w True s) else None)"
| "drain_step L s _ = None"

text \<open>
  Stop. The library's forced close closes the tracked connections and does not wait for the
  handlers of their requests.
\<close>

definition force_close :: "server \<Rightarrow> server" where
  "force_close s = s\<lparr>closing := True, active := 0, loose := loose s + active s, cut := cut s + active s\<rparr>"

definition set_mode :: "nat \<Rightarrow> stop_mode \<Rightarrow> server \<Rightarrow> server" where
  "set_mode i m s = s\<lparr>stops := (stops s)[i := (stops s ! i)\<lparr>mode := m\<rparr>]\<rparr>"

definition stop_err :: "profile \<Rightarrow> ctx_err \<Rightarrow> unit res" where
  "stop_err L e = Inl (Wrap (stopPrefix L) (CtxErr e))"

fun stop_step :: "profile \<Rightarrow> server \<Rightarrow> event \<Rightarrow> server option" where
  "stop_step L s (CallStop c) =
     Some (case c of
             Some e \<Rightarrow>
               (force_close s)\<lparr>stops := stops s @ [\<lparr>drainer = NoDrainer, mode = Returned (stop_err L e)\<rparr>]\<rparr>
           | None \<Rightarrow> s\<lparr>stops := stops s @ [\<lparr>drainer = DWaiting, mode = Selects\<rparr>]\<rparr>)"
| "stop_step L s (StopDone i) =
     (if i < length (stops s) \<and> mode (stops s ! i) = Selects \<and> drainer (stops s ! i) = DDone
      then Some (set_mode i (Returned (Inr ())) s) else None)"
| "stop_step L s (StopExpires i e) =
     (if i < length (stops s) \<and> mode (stops s ! i) = Selects
      then Some (set_mode i (Forced e) (force_close s)) else None)"
| "stop_step L s (StopForced i) =
     (if i < length (stops s) \<and> drainer (stops s ! i) = DDone
      then (case mode (stops s ! i) of
              Forced e \<Rightarrow> Some (set_mode i (Returned (stop_err L e)) s) | _ \<Rightarrow> None)
      else None)"
| "stop_step L s _ = None"

definition step :: "profile \<Rightarrow> server \<Rightarrow> event \<Rightarrow> server option" where
  "step L s e =
     (case start_step L s e of
        Some t \<Rightarrow> Some t
      | None \<Rightarrow> (case drain_step L s e of Some t \<Rightarrow> Some t | None \<Rightarrow> stop_step L s e))"

lemma step_cases [consumes 1, case_names start drain stop]:
  assumes "step L s e = Some t"
  obtains "start_step L s e = Some t" | "drain_step L s e = Some t" | "stop_step L s e = Some t"
  using assms by (auto simp: step_def split: option.splits)


section \<open>Invariants\<close>

definition call_ok :: "once \<Rightarrow> bool \<Rightarrow> nat \<Rightarrow> stop_call \<Rightarrow> bool" where
  "call_ok onc quiet i c \<longleftrightarrow>
     (drainer c = DDraining \<longleftrightarrow> onc = OnceRunning (Stopper i)) \<and>
     (drainer c = DDone \<longrightarrow> onc = OnceDone) \<and>
     (mode c = Selects \<longrightarrow> drainer c \<noteq> NoDrainer) \<and>
     (\<forall>e. mode c = Forced e \<longrightarrow> quiet \<and> drainer c \<noteq> NoDrainer) \<and>
     (mode c = Returned (Inr ()) \<longrightarrow> drainer c = DDone) \<and>
     (\<forall>e. mode c = Returned (Inl e) \<longrightarrow> quiet)"

definition calls_ok :: "server \<Rightarrow> bool" where
  "calls_ok s \<longleftrightarrow>
     (\<forall>i < length (stops s). call_ok (shutdownOnce s) (closing s \<and> active s = 0) i (stops s ! i)) \<and>
     (\<forall>i. shutdownOnce s = OnceRunning (Stopper i) \<longrightarrow> i < length (stops s))"

definition once_ok :: "server \<Rightarrow> bool" where
  "once_ok s \<longleftrightarrow> (shutdownOnce s \<noteq> OnceNew \<longrightarrow> closing s) \<and>
     (shutdownOnce s = OnceDone \<longrightarrow> active s = 0) \<and>
     (watcher s = Draining \<longleftrightarrow> shutdownOnce s = OnceRunning Watcher) \<and>
     (pc s = NotStarted \<longrightarrow> watcher s = NoWatcher)"

fun forced :: "stop_mode \<Rightarrow> bool" where
  "forced (Forced e) = True"
| "forced (Returned (Inl e)) = True"
| "forced _ = False"

definition cut_ok :: "server \<Rightarrow> bool" where
  "cut_ok s \<longleftrightarrow> loose s \<le> cut s + taken s \<and> (cut s > 0 \<longrightarrow> (\<exists>m \<in> set (map mode (stops s)). forced m))"

lemma call_ok_quiet: "call_ok onc q i c \<Longrightarrow> (q \<Longrightarrow> q') \<Longrightarrow> call_ok onc q' i c"
  by (auto simp: call_ok_def)

lemma calls_ok_mono:
  assumes "calls_ok s" and "stops t = stops s" and "shutdownOnce t = shutdownOnce s"
    and "closing s \<Longrightarrow> active s = 0 \<Longrightarrow> closing t \<and> active t = 0"
  shows "calls_ok t"
  using assms unfolding calls_ok_def by (auto intro: call_ok_quiet)

lemma start_step_frame:
  assumes "start_step L s e = Some t"
  shows "stops t = stops s \<and> shutdownOnce t = shutdownOnce s \<and> closing t = closing s \<and> cut t = cut s \<and>
    (closing s \<and> active s = 0 \<longrightarrow> active t = 0) \<and> (loose s \<le> cut s + taken s \<longrightarrow> loose t \<le> cut t + taken t)"
  using assms by (cases e) (auto split: if_splits sum.splits start_pc.splits)

lemma start_step_once:
  assumes "start_step L s e = Some t" and "once_ok s"
  shows "once_ok t"
  using assms by (cases e) (auto simp: once_ok_def split: if_splits sum.splits start_pc.splits)

lemma serving_start_ok:
  assumes "start_step L s e = Some t" and "once_ok s" and "calls_ok s" and "cut_ok s"
  shows "once_ok t \<and> calls_ok t \<and> cut_ok t"
  using start_step_frame [OF assms(1)] start_step_once [OF assms(1,2)] assms
  by (auto simp: cut_ok_def intro: calls_ok_mono)

text \<open>How a call sees the once move, when it is the one that moves it and when it is not.\<close>

lemma call_ok_once:
  "call_ok OnceNew q i c \<Longrightarrow> w \<noteq> Stopper i \<Longrightarrow> call_ok (OnceRunning w) q i c"
  "call_ok (OnceRunning w) q i c \<Longrightarrow> w \<noteq> Stopper i \<Longrightarrow> call_ok OnceDone q i c"
  by (auto simp: call_ok_def)

lemma call_ok_own:
  "call_ok OnceNew q i c \<Longrightarrow> drainer c = DWaiting \<Longrightarrow>
   call_ok (OnceRunning (Stopper i)) q i (c\<lparr>drainer := DDraining\<rparr>)"
  "call_ok (OnceRunning (Stopper i)) q i c \<Longrightarrow> call_ok OnceDone q i (c\<lparr>drainer := DDone\<rparr>)"
  "call_ok OnceDone q i c \<Longrightarrow> drainer c = DWaiting \<Longrightarrow> call_ok OnceDone q i (c\<lparr>drainer := DDone\<rparr>)"
  by (auto simp: call_ok_def)

lemma calls_ok_update:
  assumes "calls_ok s" and "i < length (stops s)"
    and "call_ok (shutdownOnce s) (closing s \<and> active s = 0) i (stops s ! i) \<Longrightarrow>
      call_ok onc q i c'"
    and "\<And>j c. j \<noteq> i \<Longrightarrow> call_ok (shutdownOnce s) (closing s \<and> active s = 0) j c \<Longrightarrow> call_ok onc q j c"
    and "stops t = (stops s)[i := c']" and "shutdownOnce t = onc" and "closing t \<and> active t = 0 \<longleftrightarrow> q"
    and "\<And>j. onc = OnceRunning (Stopper j) \<Longrightarrow> j < length (stops s)"
  shows "calls_ok t"
  using assms unfolding calls_ok_def by (auto simp: nth_list_update)

lemma calls_ok_once:
  assumes "calls_ok s"
    and "\<And>j c. call_ok (shutdownOnce s) (closing s \<and> active s = 0) j c \<Longrightarrow> call_ok onc q j c"
    and "stops t = stops s" and "shutdownOnce t = onc" and "closing t \<and> active t = 0 \<longleftrightarrow> q"
    and "\<And>j. onc \<noteq> OnceRunning (Stopper j)"
  shows "calls_ok t"
  using assms unfolding calls_ok_def by auto

lemma drain_step_calls:
  assumes "drain_step L s e = Some t" and "calls_ok s" and "once_ok s"
  shows "calls_ok t"
proof (cases e)
  case (OnceEnter w)
  then have w: "waits s w" and o: "shutdownOnce s = OnceNew"
    and t: "t = (set_who w False s)\<lparr>shutdownOnce := OnceRunning w, closing := True\<rparr>"
    using assms(1) by (auto split: if_splits)
  show ?thesis
  proof (cases w)
    case Watcher
    show ?thesis
      by (rule calls_ok_once [OF assms(2), where onc = "OnceRunning Watcher" and q = "active s = 0"])
        (use o t Watcher in \<open>auto simp: set_who_def intro: call_ok_once call_ok_quiet\<close>)
  next
    case (Stopper i)
    with w have i: "i < length (stops s)" "drainer (stops s ! i) = DWaiting" by (auto simp: waits_def)
    show ?thesis
      by (rule calls_ok_update [OF assms(2) i(1), where onc = "OnceRunning w" and q = "active s = 0"
            and c' = "(stops s ! i)\<lparr>drainer := DDraining\<rparr>"])
        (use o t Stopper i in \<open>auto simp: set_who_def intro: call_ok_once call_ok_own call_ok_quiet\<close>)
  qed
next
  case DrainReturns
  then obtain w where o: "shutdownOnce s = OnceRunning w" and a: "active s = 0"
    and t: "t = (set_who w True s)\<lparr>shutdownOnce := OnceDone\<rparr>"
    using assms(1) by (auto split: once.splits if_splits)
  show ?thesis
  proof (cases w)
    case Watcher
    show ?thesis
      by (rule calls_ok_once [OF assms(2), where onc = OnceDone and q = "closing s \<and> active s = 0"])
        (use o t Watcher in \<open>auto simp: set_who_def intro: call_ok_once\<close>)
  next
    case (Stopper i)
    with o assms(2) have i: "i < length (stops s)" by (simp add: calls_ok_def)
    show ?thesis
      by (rule calls_ok_update [OF assms(2) i, where onc = OnceDone and q = "closing s \<and> active s = 0"
            and c' = "(stops s ! i)\<lparr>drainer := DDone\<rparr>"])
        (use o t Stopper i in \<open>auto simp: set_who_def intro: call_ok_once call_ok_own\<close>)
  qed
next
  case (OncePass w)
  then have w: "waits s w" and o: "shutdownOnce s = OnceDone" and t: "t = set_who w True s"
    using assms(1) by (auto split: if_splits)
  show ?thesis
  proof (cases w)
    case Watcher
    with t assms(2) show ?thesis by (auto simp: set_who_def intro: calls_ok_mono)
  next
    case (Stopper i)
    with w have i: "i < length (stops s)" "drainer (stops s ! i) = DWaiting" by (auto simp: waits_def)
    show ?thesis
      by (rule calls_ok_update [OF assms(2) i(1), where onc = OnceDone and q = "closing s \<and> active s = 0"
            and c' = "(stops s ! i)\<lparr>drainer := DDone\<rparr>"])
        (use o t Stopper i in \<open>auto simp: set_who_def intro: call_ok_own\<close>)
  qed
qed (use assms(1) in auto)

lemma map_update_id: "(map f xs)[i := f (xs ! i)] = map f xs"
  by (metis list_update_id map_update)

lemma mode_set_who [simp]: "map mode (stops (set_who w b s)) = map mode (stops s)"
  by (cases w) (simp_all add: set_who_def map_update map_update_id)

lemma set_who_frame [simp]:
  "shutdownOnce (set_who w b s) = shutdownOnce s" "closing (set_who w b s) = closing s"
  "active (set_who w b s) = active s" "cut (set_who w b s) = cut s" "loose (set_who w b s) = loose s"
  "taken (set_who w b s) = taken s" "pc (set_who w b s) = pc s"
  by (cases w; simp add: set_who_def)+

lemma watcher_set_who:
  "watcher (set_who w b s) = (if w = Watcher then if b then Gone else Draining else watcher s)"
  by (cases w) (simp_all add: set_who_def)

lemma drain_step_rest:
  assumes "drain_step L s e = Some t" and "once_ok s" and "cut_ok s"
  shows "once_ok t \<and> cut_ok t"
proof
  show "cut_ok t"
    using assms(1,3)
    by (cases e) (auto simp: cut_ok_def simp del: set_map split: if_splits once.splits)
  show "once_ok t"
    using assms(1,2)
    by (cases e)
      (auto simp: once_ok_def watcher_set_who waits_def split: if_splits once.splits who.splits)
qed

lemma force_close_quiet [simp]:
  "closing (force_close s)" "active (force_close s) = 0" "stops (force_close s) = stops s"
  "shutdownOnce (force_close s) = shutdownOnce s" "watcher (force_close s) = watcher s"
  "pc (force_close s) = pc s" "cut (force_close s) = cut s + active s"
  "loose (force_close s) = loose s + active s" "taken (force_close s) = taken s"
  by (simp_all add: force_close_def)

lemma once_ok_force_close: "once_ok s \<Longrightarrow> once_ok (force_close s)"
  by (simp add: once_ok_def)

lemma calls_ok_force_close: "calls_ok s \<Longrightarrow> calls_ok (force_close s)"
  by (auto intro: calls_ok_mono)

lemma once_ok_stops [simp]:
  "once_ok (s\<lparr>stops := cs\<rparr>) = once_ok s" "once_ok (set_mode i m s) = once_ok s"
  by (simp_all add: once_ok_def set_mode_def)

lemma calls_ok_snoc:
  assumes "calls_ok s" and "call_ok (shutdownOnce s) (closing s \<and> active s = 0) (length (stops s)) c"
  shows "calls_ok (s\<lparr>stops := stops s @ [c]\<rparr>)"
  using assms by (auto simp: calls_ok_def nth_append less_Suc_eq)

lemma calls_ok_mode:
  assumes "calls_ok s" and "i < length (stops s)"
    and "call_ok (shutdownOnce s) (closing s \<and> active s = 0) i (stops s ! i) \<Longrightarrow>
      call_ok (shutdownOnce s) (closing s \<and> active s = 0) i ((stops s ! i)\<lparr>mode := m\<rparr>)"
  shows "calls_ok (set_mode i m s)"
  using assms by (auto simp: calls_ok_def set_mode_def nth_list_update)

lemma cut_ok_mode: "loose s \<le> cut s + taken s \<Longrightarrow> i < length (stops s) \<Longrightarrow> forced m \<Longrightarrow> cut_ok (set_mode i m s)"
  by (auto simp: cut_ok_def set_mode_def map_update intro!: bexI [of _ m] set_update_memI)

text \<open>Replacing a mode that was not a forced one loses no evidence.\<close>

lemma cut_ok_keep:
  assumes "cut_ok s" and "i < length (stops s)" and "\<not> forced (mode (stops s ! i))"
  shows "cut_ok (set_mode i m s)"
proof -
  have "x \<in> set ((map mode (stops s))[i := m])"
    if "x \<in> set (map mode (stops s))" and "forced x" for x
  proof -
    from that(1) obtain j where j: "j < length (stops s)" "x = mode (stops s ! j)"
      by (auto simp: in_set_conv_nth)
    with assms(3) that(2) have "j \<noteq> i" by auto
    with j show ?thesis by (auto simp: in_set_conv_nth intro!: exI [of _ j])
  qed
  with assms(1) show ?thesis by (auto simp: cut_ok_def set_mode_def map_update simp del: set_map)
qed

lemma running_no_calls:
  "calls_ok s \<Longrightarrow> shutdownOnce s \<noteq> OnceRunning (Stopper (length (stops s)))"
  by (auto simp: calls_ok_def)

lemma serving_stop_ok:
  assumes "stop_step L s e = Some t" and "once_ok s" and "calls_ok s" and "cut_ok s"
  shows "once_ok t \<and> calls_ok t \<and> cut_ok t"
proof (cases e)
  case (CallStop c)
  have new: "call_ok (shutdownOnce s) q (length (stops s)) \<lparr>drainer = DWaiting, mode = Selects\<rparr>" for q
    using running_no_calls [OF assms(3)] by (simp add: call_ok_def)
  show ?thesis
  proof (cases c)
    case None
    with CallStop assms new show ?thesis by (auto simp: cut_ok_def intro!: calls_ok_snoc)
  next
    case (Some x)
    let ?c = "\<lparr>drainer = NoDrainer, mode = Returned (stop_err L x)\<rparr>"
    have t: "t = (force_close s)\<lparr>stops := stops (force_close s) @ [?c]\<rparr>"
      using CallStop Some assms(1) by simp
    have "calls_ok t" unfolding t
      by (rule calls_ok_snoc [OF calls_ok_force_close [OF assms(3)]])
        (use running_no_calls [OF assms(3)] in \<open>simp add: call_ok_def stop_err_def\<close>)
    moreover have "once_ok t" unfolding t using once_ok_force_close [OF assms(2)] by simp
    moreover have "cut_ok t" using assms(4) by (simp add: t cut_ok_def stop_err_def)
    ultimately show ?thesis by simp
  qed
next
  case (StopDone i)
  then have i: "i < length (stops s)" "mode (stops s ! i) = Selects" "drainer (stops s ! i) = DDone"
    and t: "t = set_mode i (Returned (Inr ())) s"
    using assms(1) by (auto split: if_splits)
  have "calls_ok t" unfolding t by (rule calls_ok_mode [OF assms(3) i(1)]) (use i in \<open>auto simp: call_ok_def\<close>)
  moreover have "cut_ok t" unfolding t by (rule cut_ok_keep [OF assms(4)]) (use i in simp_all)
  ultimately show ?thesis using assms(2) t by simp
next
  case (StopExpires i x)
  then have i: "i < length (stops s)" "mode (stops s ! i) = Selects"
    and t: "t = set_mode i (Forced x) (force_close s)"
    using assms(1) by (auto split: if_splits)
  have "calls_ok t" unfolding t
    by (rule calls_ok_mode [OF calls_ok_force_close [OF assms(3)]]) (use i in \<open>auto simp: call_ok_def\<close>)
  moreover have "cut_ok t" unfolding t by (rule cut_ok_mode) (use i assms(4) in \<open>simp_all add: cut_ok_def\<close>)
  ultimately show ?thesis using once_ok_force_close [OF assms(2)] t by simp
next
  case (StopForced i)
  then obtain x where i: "i < length (stops s)" "drainer (stops s ! i) = DDone" "mode (stops s ! i) = Forced x"
    and t: "t = set_mode i (Returned (stop_err L x)) s"
    using assms(1) by (auto split: if_splits stop_mode.splits)
  have "calls_ok t" unfolding t
    by (rule calls_ok_mode [OF assms(3) i(1)]) (use i in \<open>auto simp: call_ok_def stop_err_def\<close>)
  moreover have "cut_ok t" unfolding t by (rule cut_ok_mode) (use i assms(4) in \<open>simp_all add: cut_ok_def stop_err_def\<close>)
  ultimately show ?thesis using assms(2) t by simp
qed (use assms(1) in auto)

definition server_inv :: "server \<Rightarrow> bool" where
  "server_inv s \<longleftrightarrow> once_ok s \<and> calls_ok s \<and> cut_ok s"

lemma server_step:
  assumes "server_inv s" and "step L s e = Some t"
  shows "server_inv t"
  using assms(2)
proof (cases rule: step_cases)
  case start
  with assms(1) serving_start_ok [of L s e t] show ?thesis by (simp add: server_inv_def)
next
  case drain
  with assms(1) drain_step_calls [of L s e t] drain_step_rest [of L s e t] show ?thesis
    by (simp add: server_inv_def)
next
  case stop
  with assms(1) serving_stop_ok [of L s e t] show ?thesis by (simp add: server_inv_def)
qed

interpretation srv: lts_invariant "step L" server_inv for L
  by unfold_locales (rule server_step)

lemma new_server_inv [simp]: "server_inv (new_server a)"
  by (simp add: server_inv_def new_server_def once_ok_def calls_ok_def cut_ok_def)

lemma server_reached: "lts_run (step L) (new_server a) es = Some s \<Longrightarrow> server_inv s"
  by (rule srv.run_inv [OF new_server_inv])

lemma call_at: "server_inv s \<Longrightarrow> i < length (stops s) \<Longrightarrow>
    call_ok (shutdownOnce s) (closing s \<and> active s = 0) i (stops s ! i)"
  by (simp add: server_inv_def calls_ok_def)

text \<open>What a returned Stop call says about the server.\<close>

lemma stop_returned:
  assumes "server_inv s" and "i < length (stops s)" and "mode (stops s ! i) = Returned r"
  shows "closing s \<and> active s = 0"
  using call_at [OF assms(1,2)] assms(1,3)
  by (cases r) (auto simp: call_ok_def server_inv_def once_ok_def)

lemma loose_bound: "server_inv s \<Longrightarrow> loose s \<le> cut s + taken s"
  by (simp add: server_inv_def cut_ok_def)

lemma graceful_cut:
  assumes "server_inv s" and "\<And>c. c \<in> set (stops s) \<Longrightarrow> \<not> forced (mode c)"
  shows "cut s = 0"
  using assms by (auto simp: server_inv_def cut_ok_def)

text \<open>
  A Stop call whose context has ended is not held up by requests: one of these events is
  enabled until it returns, unless the library's drain waits for handlers that still run.
\<close>

definition stop_progress :: "nat \<Rightarrow> event \<Rightarrow> bool" where
  "stop_progress i e \<longleftrightarrow> e \<in> {OnceEnter (Stopper i), DrainReturns, OncePass (Stopper i), StopForced i}"

lemma forced_not_stuck:
  assumes "server_inv s" and "i < length (stops s)" and "mode (stops s ! i) = Forced x"
    and "waitsHandlers L \<Longrightarrow> loose s = 0"
  shows "\<exists>e t. stop_progress i e \<and> step L s e = Some t"
proof -
  have c: "drainer (stops s ! i) \<noteq> NoDrainer" "active s = 0"
    "drainer (stops s ! i) = DDraining \<longleftrightarrow> shutdownOnce s = OnceRunning (Stopper i)"
    using call_at [OF assms(1,2)] assms(3) by (auto simp: call_ok_def)
  consider "drainer (stops s ! i) = DDone" | "\<exists>w. shutdownOnce s = OnceRunning w"
    | "drainer (stops s ! i) = DWaiting" "shutdownOnce s = OnceNew"
    | "drainer (stops s ! i) = DWaiting" "shutdownOnce s = OnceDone"
    using c by (cases "drainer (stops s ! i)"; cases "shutdownOnce s") auto
  then show ?thesis
  proof cases
    case 1
    with assms have "\<exists>t. step L s (StopForced i) = Some t" by (simp add: step_def)
    then show ?thesis by (auto simp: stop_progress_def)
  next
    case 2
    with c assms(4) have "\<exists>t. step L s DrainReturns = Some t" by (auto simp: step_def)
    then show ?thesis by (auto simp: stop_progress_def)
  next
    case 3
    with assms have "\<exists>t. step L s (OnceEnter (Stopper i)) = Some t" by (simp add: step_def waits_def)
    then show ?thesis by (auto simp: stop_progress_def)
  next
    case 4
    with assms have "\<exists>t. step L s (OncePass (Stopper i)) = Some t" by (simp add: step_def waits_def)
    then show ?thesis by (auto simp: stop_progress_def)
  qed
qed

text \<open>Start comes back only after it stopped serving, with the error of Serve it was given.\<close>

definition start_ok :: "profile \<Rightarrow> server \<Rightarrow> bool" where
  "start_ok L s \<longleftrightarrow>
     (case pc s of
        NotStarted \<Rightarrow> listener s = None
      | ServeEnded r \<Rightarrow> quit s \<and> listener s \<noteq> None
      | StartReturned r \<Rightarrow> listener s = None \<and> r \<noteq> None \<or> watcher s = Gone \<and> listener s \<noteq> None
      | _ \<Rightarrow> listener s \<noteq> None)"

lemma start_ok_step:
  assumes "start_ok L s" and "step L s e = Some t"
  shows "start_ok L t"
  using assms(2)
proof (cases rule: step_cases)
  case start
  with assms(1) show ?thesis
    by (cases e) (auto simp: start_ok_def split: if_splits sum.splits start_pc.splits)
next
  case drain
  then have "pc t = pc s \<and> listener t = listener s \<and> quit t = quit s \<and> (watcher s = Gone \<longrightarrow> watcher t = Gone)"
    by (cases e) (auto simp: set_who_def waits_def split: if_splits once.splits who.splits)
  with assms(1) show ?thesis by (auto simp: start_ok_def split: start_pc.splits)
next
  case stop
  then have "pc t = pc s \<and> listener t = listener s \<and> quit t = quit s \<and> watcher t = watcher s"
    by (cases e) (auto simp: force_close_def set_mode_def split: if_splits option.splits stop_mode.splits)
  with assms(1) show ?thesis by (auto simp: start_ok_def split: start_pc.splits)
qed

interpretation sta: lts_invariant "step L" "start_ok L" for L
  by unfold_locales (rule start_ok_step)

end
