(* ===== verification/Json.thy ===== *)
theory Json
  imports Prelude
begin

text \<open>
  The part of \<^verbatim>\<open>encoding/json\<close> that the program uses: values and their printing as
  \<^verbatim>\<open>json.Marshal\<close> does it (HTML characters and line separators escaped, invalid UTF-8 replaced),
  the parser behind \<^verbatim>\<open>json.Unmarshal\<close>, and that parsing gives back what was printed. Strings
  are byte strings holding UTF-8, as in Go.
\<close>


section \<open>UTF-8\<close>

definition in_range :: "char \<Rightarrow> nat \<Rightarrow> nat \<Rightarrow> bool" where
  "in_range c lo hi \<longleftrightarrow> lo \<le> of_char c \<and> of_char c \<le> hi"

text \<open>The number of bytes of the encoded rune at the front, 0 if there is none.\<close>

fun rune_size :: "string \<Rightarrow> nat" where
  "rune_size [] = 0"
| "rune_size (a # s) =
     (if in_range a 0 0x7F then 1
      else if in_range a 0xC2 0xDF
      then (case s of b # _ \<Rightarrow> if in_range b 0x80 0xBF then 2 else 0 | _ \<Rightarrow> 0)
      else if in_range a 0xE0 0xEF
      then (case s of
              b # c # _ \<Rightarrow>
                if in_range b (if a = CHR 0xE0 then 0xA0 else 0x80) (if a = CHR 0xED then 0x9F else 0xBF) \<and>
                   in_range c 0x80 0xBF then 3 else 0
            | _ \<Rightarrow> 0)
      else if in_range a 0xF0 0xF4
      then (case s of
              b # c # d # _ \<Rightarrow>
                if in_range b (if a = CHR 0xF0 then 0x90 else 0x80) (if a = CHR 0xF4 then 0x8F else 0xBF) \<and>
                   in_range c 0x80 0xBF \<and> in_range d 0x80 0xBF then 4 else 0
            | _ \<Rightarrow> 0)
      else 0)"

declare rune_size.simps(2) [simp del]

lemma rune_size_length: "rune_size s \<le> length s"
  by (cases s) (auto simp: rune_size.simps(2) split: list.split)

lemma rune_size_one: "rune_size (a # s) = Suc 0 \<longleftrightarrow> in_range a 0 0x7F"
  by (auto simp: rune_size.simps(2) split: list.split)

lemma rune_size_take:
  assumes "rune_size s = n" and "n > 0"
  shows "rune_size (take n s @ t) = n"
  using assms by (cases s) (auto simp: rune_size.simps(2) split: if_splits list.splits)

function valid_utf8 :: "string \<Rightarrow> bool" where
  "valid_utf8 s =
     (if s = [] then True else if rune_size s = 0 then False else valid_utf8 (drop (rune_size s) s))"
  by auto
termination by (relation "measure length") auto

declare valid_utf8.simps [simp del]

lemma valid_utf8_Nil [simp]: "valid_utf8 []"
  by (simp add: valid_utf8.simps)

lemma valid_utf8_ascii: "list_all (\<lambda>c. in_range c 0 0x7F) s \<Longrightarrow> valid_utf8 s"
proof (induction s)
  case (Cons a s)
  then show ?case by (subst valid_utf8.simps) (simp add: rune_size.simps(2))
qed simp

text \<open>The bytes of a code point.\<close>

definition utf8 :: "nat \<Rightarrow> string" where
  "utf8 k =
     (if k < 0x80 then [char_of k]
      else if k < 0x800 then [char_of (0xC0 + k div 64), char_of (0x80 + k mod 64)]
      else if k < 0x10000
      then [char_of (0xE0 + k div 4096), char_of (0x80 + k div 64 mod 64), char_of (0x80 + k mod 64)]
      else [char_of (0xF0 + k div 262144), char_of (0x80 + k div 4096 mod 64),
            char_of (0x80 + k div 64 mod 64), char_of (0x80 + k mod 64)])"

definition replacement :: string where
  "replacement = [CHR 0xEF, CHR 0xBF, CHR 0xBD]"


section \<open>Strings\<close>

definition hex_digit :: "nat \<Rightarrow> char" where
  "hex_digit n = (if n < 10 then char_of (48 + n) else char_of (87 + n))"

text \<open>Go escapes the HTML characters, the quote, the backslash and control characters.\<close>

definition json_char :: "char \<Rightarrow> string" where
  "json_char c =
     (let n = (of_char c :: nat)
      in if c = CHR 0x22 \<or> c = CHR 0x5C then [CHR 0x5C, c]
         else if n = 8 then [CHR 0x5C, CHR ''b'']
         else if n = 9 then [CHR 0x5C, CHR ''t'']
         else if n = 10 then [CHR 0x5C, CHR ''n'']
         else if n = 12 then [CHR 0x5C, CHR ''f'']
         else if n = 13 then [CHR 0x5C, CHR ''r'']
         else if n < 32 \<or> c = CHR ''<'' \<or> c = CHR ''>'' \<or> c = CHR ''&''
         then [CHR 0x5C, CHR ''u'', CHR ''0'', CHR ''0'', hex_digit (n div 16), hex_digit (n mod 16)]
         else [c])"

text \<open>The line separators U+2028 and U+2029 are escaped, what is not UTF-8 becomes U+FFFD.\<close>

function json_escape :: "string \<Rightarrow> string" where
  "json_escape [] = []"
| "json_escape (a # s) =
     (let n = rune_size (a # s)
      in if n = 0 then [CHR 0x5C] @ ''ufffd'' @ json_escape s
         else if n = 1 then json_char a @ json_escape s
         else if take 3 (a # s) = [CHR 0xE2, CHR 0x80, CHR 0xA8] then [CHR 0x5C] @ ''u2028'' @ json_escape (drop n (a # s))
         else if take 3 (a # s) = [CHR 0xE2, CHR 0x80, CHR 0xA9] then [CHR 0x5C] @ ''u2029'' @ json_escape (drop n (a # s))
         else take n (a # s) @ json_escape (drop n (a # s)))"
  by pat_completeness auto
termination by (relation "measure length") auto

declare json_escape.simps(2) [simp del]

definition json_string :: "string \<Rightarrow> string" where
  "json_string s = CHR 0x22 # json_escape s @ [CHR 0x22]"

definition hex_val :: "char \<Rightarrow> nat option" where
  "hex_val c =
     (if in_range c 48 57 then Some (of_char c - 48)
      else if in_range c 97 102 then Some (of_char c - 87)
      else if in_range c 65 70 then Some (of_char c - 55)
      else None)"

fun hex4 :: "string \<Rightarrow> nat option" where
  "hex4 (a # b # c # d # s) =
     (case (hex_val a, hex_val b, hex_val c, hex_val d) of
        (Some i, Some j, Some k, Some l) \<Rightarrow> Some (4096 * i + 256 * j + 16 * k + l)
      | _ \<Rightarrow> None)"
| "hex4 _ = None"

definition simple_escape :: "char \<Rightarrow> char option" where
  "simple_escape c =
     (if c = CHR 0x22 \<or> c = CHR 0x5C \<or> c = CHR ''/'' then Some c
      else if c = CHR ''b'' then Some (CHR 0x08)
      else if c = CHR ''f'' then Some (CHR 0x0C)
      else if c = CHR ''n'' then Some (CHR 0x0A)
      else if c = CHR ''r'' then Some (CHR 0x0D)
      else if c = CHR ''t'' then Some (CHR 0x09)
      else None)"

text \<open>A low surrogate right behind a high one: the code point of the pair.\<close>

definition surrogate_pair :: "nat \<Rightarrow> string \<Rightarrow> nat option" where
  "surrogate_pair k r =
     (if take 2 r = [CHR 0x5C, CHR ''u'']
      then (case hex4 (drop 2 r) of
              Some l \<Rightarrow> if k < 0xDC00 \<and> 0xDC00 \<le> l \<and> l < 0xE000
                        then Some (0x10000 + (k - 0xD800) * 1024 + (l - 0xDC00)) else None
            | None \<Rightarrow> None)
      else None)"

definition prepend :: "string \<Rightarrow> (string \<times> string) option \<Rightarrow> (string \<times> string) option" where
  "prepend p = map_option (\<lambda>(t, r). (p @ t, r))"

text \<open>The contents of a string literal up to its closing quote, and what follows.\<close>

function unquote :: "string \<Rightarrow> (string \<times> string) option" where
  "unquote [] = None"
| "unquote (a # s) =
     (if a = CHR 0x22 then Some ([], s)
      else if a = CHR 0x5C
      then (case s of
              [] \<Rightarrow> None
            | b # r \<Rightarrow>
                (case simple_escape b of
                   Some c \<Rightarrow> prepend [c] (unquote r)
                 | None \<Rightarrow>
                     if b \<noteq> CHR ''u'' then None
                     else (case hex4 r of
                             None \<Rightarrow> None
                           | Some k \<Rightarrow>
                               if 0xD800 \<le> k \<and> k < 0xE000
                               then (case surrogate_pair k (drop 4 r) of
                                       Some p \<Rightarrow> prepend (utf8 p) (unquote (drop 10 r))
                                     | None \<Rightarrow> prepend replacement (unquote (drop 4 r)))
                               else prepend (utf8 k) (unquote (drop 4 r)))))
      else if of_char a < (32 :: nat) then None
      else (let n = rune_size (a # s)
            in if n = 0 then prepend replacement (unquote s)
               else prepend (take n (a # s)) (unquote (drop n (a # s)))))"
  by pat_completeness auto
termination by (relation "measure length") auto

declare unquote.simps(2) [simp del]

lemma prepend_Some [simp]: "prepend p (Some (t, r)) = Some (p @ t, r)"
  by (simp add: prepend_def)

lemma prepend_eq_Some: "prepend p x = Some (t, r) \<longleftrightarrow> (\<exists>u. x = Some (u, r) \<and> t = p @ u)"
  by (auto simp: prepend_def)

lemma char_of_literals:
  "char_of (8 :: nat) = CHR 0x08" "char_of (9 :: nat) = CHR 0x09" "char_of (10 :: nat) = CHR 0x0A"
  "char_of (12 :: nat) = CHR 0x0C" "char_of (13 :: nat) = CHR 0x0D"
  "char_of (226 :: nat) = CHR 0xE2" "char_of (128 :: nat) = CHR 0x80"
  "char_of (168 :: nat) = CHR 0xA8" "char_of (169 :: nat) = CHR 0xA9"
  by code_simp+

lemma hex_val_digit [simp]: "n < 16 \<Longrightarrow> hex_val (hex_digit n) = Some n"
  by (auto simp: hex_val_def hex_digit_def in_range_def)

lemma hex_val_0 [simp]: "hex_val (CHR ''0'') = Some 0"
  by (simp add: hex_val_def in_range_def)

lemma unquote_json_char:
  assumes "in_range a 0 0x7F"
  shows "unquote (json_char a @ t) = prepend [a] (unquote t)"
proof -
  have n: "of_char a < (128 :: nat)" using assms by (simp add: in_range_def)
  have code: "a = char_of (of_char a :: nat)" by simp
  have hex: "hex4 (CHR ''0'' # CHR ''0'' # hex_digit (of_char a div 16) # hex_digit (of_char a mod 16) # t) =
      Some (of_char a)"
    using n by simp
  have u: "utf8 (of_char a) = [a]" using n by (simp add: utf8_def)
  have eq: "a = char_of k" if "of_char a = (k :: nat)" for k
    using that by (metis char_of_char)
  consider (quoted) "a = CHR 0x22 \<or> a = CHR 0x5C" | (short) "of_char a \<in> {8, 9, 10, 12, 13 :: nat}"
    | (other) "\<not> (a = CHR 0x22 \<or> a = CHR 0x5C)" "of_char a \<notin> {8, 9, 10, 12, 13 :: nat}" by blast
  then show ?thesis
  proof cases
    case quoted
    then show ?thesis by (auto simp: json_char_def Let_def unquote.simps(2) simple_escape_def)
  next
    case short
    then have "a = CHR 0x08 \<or> a = CHR 0x09 \<or> a = CHR 0x0A \<or> a = CHR 0x0C \<or> a = CHR 0x0D"
      using eq [of 8] eq [of 9] eq [of 10] eq [of 12] eq [of 13] by (auto simp: char_of_literals)
    then show ?thesis
      by (elim disjE) (simp_all add: json_char_def Let_def unquote.simps(2) [of "CHR 0x5C"] simple_escape_def)
  next
    case other
    show ?thesis
    proof (cases "of_char a < (32 :: nat) \<or> a = CHR ''<'' \<or> a = CHR ''>'' \<or> a = CHR ''&''")
      case True
      with other have "json_char a = [CHR 0x5C, CHR ''u'', CHR ''0'', CHR ''0'', hex_digit (of_char a div 16),
          hex_digit (of_char a mod 16)]"
        by (simp add: json_char_def Let_def)
      then show ?thesis using n hex u by (simp add: unquote.simps(2) simple_escape_def)
    next
      case False
      with other have "json_char a = [a]" by (simp add: json_char_def Let_def)
      then show ?thesis
        using other False assms rune_size_one [of a t] by (simp add: unquote.simps(2) Let_def)
    qed
  qed
qed

lemma unquote_separator:
  "unquote (CHR 0x5C # CHR ''u'' # CHR ''2'' # CHR ''0'' # CHR ''2'' # CHR ''8'' # t) =
     prepend [CHR 0xE2, CHR 0x80, CHR 0xA8] (unquote t)"
  "unquote (CHR 0x5C # CHR ''u'' # CHR ''2'' # CHR ''0'' # CHR ''2'' # CHR ''9'' # t) =
     prepend [CHR 0xE2, CHR 0x80, CHR 0xA9] (unquote t)"
  by (simp_all add: unquote.simps(2) [of "CHR 0x5C"] simple_escape_def hex_val_def in_range_def utf8_def
      char_of_literals)

lemma unquote_rune:
  assumes "rune_size s = n" and "n > 0" and "n \<noteq> 1"
  shows "unquote (take n s @ t) = prepend (take n s) (unquote t)"
proof -
  obtain a r where s: "s = a # r" using assms(1,2) by (cases s) auto
  obtain m where n: "n = Suc m" using assms(2) by (cases n) auto
  have size: "rune_size (take n s @ t) = n" by (rule rune_size_take [OF assms(1,2)])
  have a: "\<not> in_range a 0 0x7F" using assms s rune_size_one [of a r] by auto
  then have "a \<noteq> CHR 0x22" "a \<noteq> CHR 0x5C" "\<not> of_char a < (32 :: nat)" by (auto simp: in_range_def)
  moreover have "length (take n s) = n" using rune_size_length [of s] assms(1) by simp
  ultimately show ?thesis
    using size assms(2) by (simp add: s n unquote.simps(2) Let_def)
qed

text \<open>A string read back is the string that was printed, if it was UTF-8.\<close>

lemma unquote_escape: "valid_utf8 s \<Longrightarrow> unquote (json_escape s @ CHR 0x22 # r) = Some (s, r)"
proof (induction s rule: json_escape.induct)
  case 1
  then show ?case by (simp add: unquote.simps(2))
next
  case (2 a s)
  define n where "n = rune_size (a # s)"
  from 2(6) have n0: "n > 0" and v: "valid_utf8 (drop n (a # s))"
    by (auto simp: valid_utf8.simps [of "a # s"] n_def split: if_splits)
  show ?case
  proof (cases "n = 1")
    case True
    then have a: "in_range a 0 0x7F" using rune_size_one [of a s] by (simp add: n_def)
    from True v have "valid_utf8 s" by simp
    with 2(2) [OF n_def] True have "unquote (json_escape s @ CHR 0x22 # r) = Some (s, r)" by simp
    then show ?thesis
      using True unquote_json_char [OF a] by (simp add: json_escape.simps(2) n_def)
  next
    case False
    let ?rest = "json_escape (drop n (a # s)) @ CHR 0x22 # r"
    have IH: "unquote ?rest = Some (drop n (a # s), r)"
      using 2(3-5) [OF n_def] n0 False v by blast
    show ?thesis
    proof (cases "take 3 (a # s) = [CHR 0xE2, CHR 0x80, CHR 0xA8] \<or> take 3 (a # s) = [CHR 0xE2, CHR 0x80, CHR 0xA9]")
      case True
      have "rune_size ([CHR 0xE2, CHR 0x80, x] @ drop 3 (a # s)) = 3" if "x \<in> {CHR 0xA8, CHR 0xA9}" for x
        using that by (auto simp: rune_size.simps(2) in_range_def)
      from this True have n3: "n = 3" unfolding n_def by (metis append_take_drop_id insertI1 insertI2)
      have "a # s = take 3 (a # s) @ drop n (a # s)" by (metis append_take_drop_id n3)
      then show ?thesis
        using True IH n3
        by (auto simp: json_escape.simps(2) n_def [symmetric] unquote_separator)
          (metis append_Cons append_Nil append_take_drop_id)+
    next
      case False
      with n0 \<open>n \<noteq> 1\<close> have "json_escape (a # s) = take n (a # s) @ json_escape (drop n (a # s))"
        by (auto simp: json_escape.simps(2) n_def [symmetric])
      moreover have "unquote (take n (a # s) @ ?rest) = prepend (take n (a # s)) (unquote ?rest)"
        by (rule unquote_rune) (use n0 \<open>n \<noteq> 1\<close> in \<open>simp_all add: n_def\<close>)
      ultimately show ?thesis using IH by simp
    qed
  qed
qed

fun json_fields :: "(string \<times> string) list \<Rightarrow> string" where
  "json_fields [] = ''''"
| "json_fields [(k, v)] = json_string k @ '':'' @ v"
| "json_fields ((k, v) # f # fs) = json_string k @ '':'' @ v @ '','' @ json_fields (f # fs)"

definition json_object :: "(string \<times> string) list \<Rightarrow> string" where
  "json_object fs = ''{'' @ json_fields fs @ ''}''"

fun json_items :: "string list \<Rightarrow> string" where
  "json_items [] = ''''"
| "json_items [v] = v"
| "json_items (v # w # vs) = v @ '','' @ json_items (w # vs)"

definition json_array :: "string list \<Rightarrow> string" where
  "json_array vs = ''['' @ json_items vs @ '']''"


section \<open>Values\<close>

text \<open>A number is its literal: the type it is decoded into decides how it is read.\<close>

datatype json =
    JNull
  | JBool bool
  | JNum string
  | JStr string
  | JArr "json list"
  | JObj "(string \<times> json) list"

lemma size_member:
  "(m :: string \<times> json) \<in> set ms \<Longrightarrow> size (snd m) \<le> size_list (size_prod (\<lambda>_. 0) size) ms"
  by (induction ms) auto

function (sequential) print_json :: "json \<Rightarrow> string" where
  "print_json JNull = ''null''"
| "print_json (JBool b) = (if b then ''true'' else ''false'')"
| "print_json (JNum n) = n"
| "print_json (JStr s) = json_string s"
| "print_json (JArr vs) = json_array (map print_json vs)"
| "print_json (JObj ms) = json_object (map (\<lambda>m. (fst m, print_json (snd m))) ms)"
  by pat_completeness auto
termination by (relation "measure size") (auto simp: less_Suc_eq_le size_member dest: size_list_estimation')


text \<open>How deep arrays and objects are nested.\<close>

function (sequential) depth :: "json \<Rightarrow> nat" where
  "depth (JArr vs) = Suc (fold max (map depth vs) 0)"
| "depth (JObj ms) = Suc (fold max (map (\<lambda>m. depth (snd m)) ms) 0)"
| "depth v = 0"
  by pat_completeness auto
termination by (relation "measure size") (auto simp: less_Suc_eq_le size_member dest: size_list_estimation')

lemma fold_max_le: "fold max ns a \<le> b \<longleftrightarrow> a \<le> b \<and> list_all (\<lambda>n. n \<le> b) ns" for a b :: nat
  by (induction ns arbitrary: a) auto


section \<open>Numbers\<close>

definition is_digit :: "char \<Rightarrow> bool" where
  "is_digit c = in_range c 48 57"

definition num_char :: "char \<Rightarrow> bool" where
  "num_char c \<longleftrightarrow> is_digit c \<or> c = CHR ''-'' \<or> c = CHR ''+'' \<or> c = CHR ''.'' \<or> c = CHR ''e'' \<or> c = CHR ''E''"

text \<open>The grammar: an optional sign, digits without a leading zero, a fraction, an exponent.\<close>

definition skip_digits :: "string \<Rightarrow> string option" where
  "skip_digits s = (case s of c # r \<Rightarrow> if is_digit c then Some (dropWhile is_digit r) else None | [] \<Rightarrow> None)"

definition num_exp :: "string \<Rightarrow> bool" where
  "num_exp s = (case s of
     [] \<Rightarrow> True
   | c # r \<Rightarrow> (c = CHR ''e'' \<or> c = CHR ''E'') \<and>
       skip_digits (case r of d # r' \<Rightarrow> if d = CHR ''+'' \<or> d = CHR ''-'' then r' else r | [] \<Rightarrow> []) = Some [])"

definition num_frac :: "string \<Rightarrow> bool" where
  "num_frac s = (case s of
     c # r \<Rightarrow> if c = CHR ''.'' then (case skip_digits r of Some t \<Rightarrow> num_exp t | None \<Rightarrow> False) else num_exp s
   | [] \<Rightarrow> True)"

definition valid_num :: "string \<Rightarrow> bool" where
  "valid_num s =
     (case (case s of c # r \<Rightarrow> if c = CHR ''-'' then r else s | [] \<Rightarrow> []) of
        [] \<Rightarrow> False
      | c # r \<Rightarrow> if c = CHR ''0'' then num_frac r
                 else is_digit c \<and> num_frac (dropWhile is_digit r))"


section \<open>Parsing\<close>

definition is_space :: "char \<Rightarrow> bool" where
  "is_space c \<longleftrightarrow> c = CHR '' '' \<or> c = CHR 0x09 \<or> c = CHR 0x0A \<or> c = CHR 0x0D"

definition ws :: "string \<Rightarrow> string" where
  "ws s = dropWhile is_space s"

definition literal :: "string \<Rightarrow> json \<Rightarrow> string \<Rightarrow> (json \<times> string) option" where
  "literal w v s = (if take (length w) s = w then Some (v, drop (length w) s) else None)"

definition number :: "string \<Rightarrow> (json \<times> string) option" where
  "number s = (let n = takeWhile num_char s in if valid_num n then Some (JNum n, drop (length n) s) else None)"

text \<open>
  Recursive descent; the first argument bounds the depth of the recursion, and
  \<open>2 * length s + 1\<close> is always enough.
\<close>

fun parse_value :: "nat \<Rightarrow> string \<Rightarrow> (json \<times> string) option"
and parse_items :: "nat \<Rightarrow> string \<Rightarrow> (json list \<times> string) option"
and parse_members :: "nat \<Rightarrow> string \<Rightarrow> ((string \<times> json) list \<times> string) option"
where
  "parse_value 0 s = None"
| "parse_value (Suc n) s =
     (case ws s of
        [] \<Rightarrow> None
      | c # r \<Rightarrow>
          if c = CHR 0x22 then map_option (\<lambda>(t, u). (JStr t, u)) (unquote r)
          else if c = CHR ''['' then
            (case ws r of
               d # u \<Rightarrow> if d = CHR '']'' then Some (JArr [], u)
                        else map_option (\<lambda>(vs, u). (JArr vs, u)) (parse_items n r)
             | [] \<Rightarrow> None)
          else if c = CHR ''{'' then
            (case ws r of
               d # u \<Rightarrow> if d = CHR ''}'' then Some (JObj [], u)
                        else map_option (\<lambda>(ms, u). (JObj ms, u)) (parse_members n r)
             | [] \<Rightarrow> None)
          else if c = CHR ''t'' then literal ''true'' (JBool True) (c # r)
          else if c = CHR ''f'' then literal ''false'' (JBool False) (c # r)
          else if c = CHR ''n'' then literal ''null'' JNull (c # r)
          else number (c # r))"
| "parse_items 0 s = None"
| "parse_items (Suc n) s =
     (case parse_value n s of
        None \<Rightarrow> None
      | Some (v, r) \<Rightarrow>
          (case ws r of
             [] \<Rightarrow> None
           | c # u \<Rightarrow>
               if c = CHR '','' then map_option (\<lambda>(vs, t). (v # vs, t)) (parse_items n u)
               else if c = CHR '']'' then Some ([v], u)
               else None))"
| "parse_members 0 s = None"
| "parse_members (Suc n) s =
     (case ws s of
        [] \<Rightarrow> None
      | q # r \<Rightarrow>
          if q \<noteq> CHR 0x22 then None
          else (case unquote r of
                  None \<Rightarrow> None
                | Some (k, u) \<Rightarrow>
                    (case ws u of
                       [] \<Rightarrow> None
                     | c # u \<Rightarrow>
                         if c \<noteq> CHR '':'' then None
                         else (case parse_value n u of
                                 None \<Rightarrow> None
                               | Some (v, r) \<Rightarrow>
                                   (case ws r of
                                      [] \<Rightarrow> None
                                    | c # u \<Rightarrow>
                                        if c = CHR '','' then map_option (\<lambda>(ms, t). ((k, v) # ms, t)) (parse_members n u)
                                        else if c = CHR ''}'' then Some ([(k, v)], u)
                                        else None)))))"

text \<open>The scanner of \<^verbatim>\<open>encoding/json\<close> refuses arrays and objects nested deeper than 10000.\<close>

definition max_depth :: nat where "max_depth = 10000"

definition parse_prefix :: "string \<Rightarrow> (json \<times> string) option" where
  "parse_prefix s =
     (case parse_value (2 * length s + 1) s of
        Some (v, r) \<Rightarrow> if depth v \<le> max_depth then Some (v, r) else None
      | None \<Rightarrow> None)"

definition parse_json :: "string \<Rightarrow> json option" where
  "parse_json s = (case parse_prefix s of Some (v, r) \<Rightarrow> if ws r = [] then Some v else None | None \<Rightarrow> None)"

text \<open>The bound on the recursion never matters: parsing consumes its input.\<close>

lemma ws_length: "length (ws s) \<le> length s"
  by (simp add: ws_def length_dropWhile_le)

lemma ws_Cons_length: "ws s = c # r \<Longrightarrow> length r < length s"
  using ws_length [of s] by simp

lemma unquote_length: "unquote s = Some (t, r) \<Longrightarrow> length r < length s"
proof (induction "length s" arbitrary: s t rule: less_induct)
  case less
  obtain a u where s: "s = a # u" using less.prems by (cases s) auto
  have sub: "length r < Suc (length u)" if "unquote x = Some (v, r)" and "length x \<le> length u" for x v
    using less.hyps [OF _ that(1)] that(2) s by simp
  consider "r = u" | x v where "unquote x = Some (v, r)" and "length x \<le> length u"
  proof (cases "a = CHR 0x22 \<or> a = CHR 0x5C")
    case False
    then obtain v where "unquote u = Some (v, r) \<or> unquote (drop (rune_size (a # u)) (a # u)) = Some (v, r) \<and> rune_size (a # u) > 0"
      using less.prems by (auto simp: s unquote.simps(2) Let_def prepend_eq_Some split: if_splits)
    then show ?thesis using that by (elim disjE) auto
  next
    case True
    show ?thesis
    proof (cases "a = CHR 0x22")
      case True
      then show ?thesis using less.prems that(1) by (simp add: s unquote.simps(2))
    next
      case False
      then obtain b w where u: "u = b # w"
        using less.prems True by (auto simp: s unquote.simps(2) split: list.splits)
      obtain v k where "unquote (drop k w) = Some (v, r)"
        using less.prems True False
        by (auto simp: s u unquote.simps(2) [of a] prepend_eq_Some split: if_splits option.splits intro: drop_0 [symmetric])
           (metis drop_0)+
      then show ?thesis using that(2) [of "drop k w"] u by simp
    qed
  qed
  then show ?case using sub s by cases auto
qed

lemma number_length: "number s = Some (v, r) \<Longrightarrow> length r < length s"
  by (cases s) (auto simp: number_def Let_def valid_num_def split: if_splits)

lemma literal_length: "literal w u s = Some (v, r) \<Longrightarrow> w \<noteq> [] \<Longrightarrow> length r < length s"
  by (cases s) (auto simp: literal_def split: if_splits)

lemma parse_length:
  "(\<forall>s v r. parse_value n s = Some (v, r) \<longrightarrow> length r < length s) \<and>
   (\<forall>s v r. parse_items n s = Some (v, r) \<longrightarrow> length r < length s) \<and>
   (\<forall>s v r. parse_members n s = Some (v, r) \<longrightarrow> length r < length s)"
proof (induction n)
  case (Suc n)
  then have v: "\<And>s v r. parse_value n s = Some (v, r) \<Longrightarrow> length r < length s"
    and i: "\<And>s v r. parse_items n s = Some (v, r) \<Longrightarrow> length r < length s"
    and m: "\<And>s v r. parse_members n s = Some (v, r) \<Longrightarrow> length r < length s" by blast+
  have "length r < length s" if "parse_value (Suc n) s = Some (w, r)" for s w r
  proof -
    from that obtain c t where c: "ws s = c # t" by (auto split: list.splits)
    have "length r < length (c # t)"
      using that c
      by (auto split: if_splits list.splits dest!: unquote_length number_length literal_length i m ws_Cons_length)
    then show ?thesis using c ws_length [of s] by simp
  qed
  moreover have "length r < length s" if "parse_items (Suc n) s = Some (w, r)" for s w r
    using that by (auto split: if_splits list.splits option.splits dest!: v i ws_Cons_length)
  moreover have "length r < length s" if "parse_members (Suc n) s = Some (w, r)" for s w r
    using that
    by (auto split: if_splits list.splits option.splits dest!: v m ws_Cons_length unquote_length)
  ultimately show ?case by blast
qed simp

lemma parse_enough:
  "(\<forall>s m. 2 * length s < n \<longrightarrow> 2 * length s < m \<longrightarrow> parse_value n s = parse_value m s) \<and>
   (\<forall>s m. 2 * length s + 1 < n \<longrightarrow> 2 * length s + 1 < m \<longrightarrow> parse_items n s = parse_items m s) \<and>
   (\<forall>s m. 2 * length s + 1 < n \<longrightarrow> 2 * length s + 1 < m \<longrightarrow> parse_members n s = parse_members m s)"
proof (induction n)
  case (Suc n)
  then have v: "\<And>s m. 2 * length s < n \<Longrightarrow> 2 * length s < m \<Longrightarrow> parse_value n s = parse_value m s"
    and i: "\<And>s m. 2 * length s + 1 < n \<Longrightarrow> 2 * length s + 1 < m \<Longrightarrow> parse_items n s = parse_items m s"
    and k: "\<And>s m. 2 * length s + 1 < n \<Longrightarrow> 2 * length s + 1 < m \<Longrightarrow> parse_members n s = parse_members m s"
    by blast+
  have "parse_value (Suc n) s = parse_value m s" if l: "2 * length s < Suc n" "2 * length s < m" for s m
  proof (cases "ws s")
    case Nil
    then show ?thesis using l by (cases m) auto
  next
    case (Cons c t)
    obtain j where m: "m = Suc j" using l by (cases m) auto
    have "parse_items n t = parse_items j t" "parse_members n t = parse_members j t"
      using i [of t j] k [of t j] ws_Cons_length [OF Cons] l m by linarith+
    then show ?thesis by (simp add: m Cons split: list.split)
  qed
  moreover have "parse_items (Suc n) s = parse_items m s"
    if l: "2 * length s + 1 < Suc n" "2 * length s + 1 < m" for s m
  proof -
    obtain j where m: "m = Suc j" using l by (cases m) auto
    have eq: "parse_value n s = parse_value j s" using v [of s j] l m by simp
    have "parse_items n u = parse_items j u" if "parse_value j s = Some (w, r)" "ws r = c # u" for w r c u
    proof -
      have "length r < length s" using parse_length [of j] that(1) by blast
      then show ?thesis
        using i [of u j] ws_Cons_length [OF that(2)] l m by linarith
    qed
    then show ?thesis by (auto simp: m eq split: option.split list.split)
  qed
  moreover have "parse_members (Suc n) s = parse_members m s"
    if l: "2 * length s + 1 < Suc n" "2 * length s + 1 < m" for s m
  proof -
    obtain j where m: "m = Suc j" using l by (cases m) auto
    have vv: "parse_value n x = parse_value j x" if "length x < length s" for x
      using v [of x j] that l m by linarith
    have mm: "parse_members n x = parse_members j x" if "length x < length s" for x
      using k [of x j] that l m by linarith
    show ?thesis
    proof (cases "ws s")
      case (Cons q t)
      show ?thesis
      proof (cases "unquote t")
        case (Some ku)
        obtain key u where ku: "ku = (key, u)" by (cases ku)
        show ?thesis
        proof (cases "ws u")
          case (Cons c x)
          have x: "length x < length s"
            using ws_Cons_length [OF \<open>ws s = q # t\<close>] unquote_length [of t key u] Some ku ws_Cons_length [OF Cons] by simp
          have "parse_members n z = parse_members j z" if "parse_value j x = Some (w, r)" "ws r = d # z" for w r d z
            using parse_length [of j] that(1) ws_Cons_length [OF that(2)] x by (intro mm) fastforce
          then show ?thesis
            using \<open>ws s = q # t\<close> Some ku Cons by (auto simp: m vv [OF x] split: option.split list.split)
        qed (use \<open>ws s = q # t\<close> Some ku in \<open>simp add: m\<close>)
      qed (use Cons in \<open>simp add: m\<close>)
    qed (simp add: m)
  qed
  ultimately show ?case by blast
qed simp


section \<open>Parsing what was printed\<close>

text \<open>Values that the program prints: strings are UTF-8, numbers follow the grammar.\<close>

function (sequential) wf_json :: "json \<Rightarrow> bool" where
  "wf_json (JNum n) \<longleftrightarrow> valid_num n \<and> list_all num_char n"
| "wf_json (JStr s) \<longleftrightarrow> valid_utf8 s"
| "wf_json (JArr vs) \<longleftrightarrow> list_all wf_json vs"
| "wf_json (JObj ms) \<longleftrightarrow> list_all (\<lambda>m. valid_utf8 (fst m)) ms \<and> list_all (\<lambda>m. wf_json (snd m)) ms"
| "wf_json v \<longleftrightarrow> True"
  by pat_completeness auto
termination by (relation "measure size") (auto simp: less_Suc_eq_le size_member dest: size_list_estimation')

definition num_stops :: "string \<Rightarrow> bool" where
  "num_stops r \<longleftrightarrow> (case r of [] \<Rightarrow> True | c # _ \<Rightarrow> \<not> num_char c)"

lemma num_stops_simps [simp]: "num_stops []" "num_stops (c # r) \<longleftrightarrow> \<not> num_char c"
  by (simp_all add: num_stops_def)

lemma num_char_simps [simp]:
  "\<not> num_char (CHR '','')" "\<not> num_char (CHR '']'')" "\<not> num_char (CHR ''}'')"
  by (simp_all add: num_char_def is_digit_def in_range_def)

lemma ws_nonspace [simp]: "\<not> is_space c \<Longrightarrow> ws (c # r) = c # r"
  by (simp add: ws_def)

lemma is_space_simps [simp]:
  "\<not> is_space (CHR '','')" "\<not> is_space (CHR '']'')" "\<not> is_space (CHR ''}'')" "\<not> is_space (CHR '':'')"
  "\<not> is_space (CHR ''['')" "\<not> is_space (CHR ''{'')" "\<not> is_space (CHR 0x22)" "\<not> is_space (CHR ''t'')"
  "\<not> is_space (CHR ''f'')" "\<not> is_space (CHR ''n'')"
  by (simp_all add: is_space_def)

lemma valid_num_Cons:
  assumes "valid_num s"
  obtains c r where "s = c # r" and "num_char c" and "\<not> is_space c" and "c \<notin> {CHR 0x22, CHR ''['', CHR ''{'', CHR ''t'', CHR ''f'', CHR ''n'', CHR '']'', CHR ''}''}"
proof (cases s)
  case Nil
  with assms show ?thesis by (simp add: valid_num_def)
next
  case (Cons c r)
  with assms have "c = CHR ''-'' \<or> is_digit c"
    by (auto simp: valid_num_def is_digit_def in_range_def split: if_splits)
  then have "num_char c" "\<not> is_space c"
    "c \<notin> {CHR 0x22, CHR ''['', CHR ''{'', CHR ''t'', CHR ''f'', CHR ''n'', CHR '']'', CHR ''}''}"
    by (auto simp: num_char_def is_space_def is_digit_def in_range_def)
  then show ?thesis using that [OF Cons] by blast
qed

lemma number_append: "valid_num n \<Longrightarrow> list_all num_char n \<Longrightarrow> num_stops r \<Longrightarrow> number (n @ r) = Some (JNum n, r)"
proof -
  assume "valid_num n" and nc: "list_all num_char n" and r: "num_stops r"
  have "takeWhile num_char (n @ r) = n"
    using nc r by (cases r) (auto simp: list_all_iff takeWhile_append)
  with \<open>valid_num n\<close> show ?thesis by (simp add: number_def)
qed

lemma print_json_hd:
  assumes "wf_json v"
  obtains c r where "print_json v = c # r" and "\<not> is_space c" and "c \<noteq> CHR '']''"
proof (cases v)
  case (JNum n)
  with assms show ?thesis by (auto elim!: valid_num_Cons intro: that)
next
  case (JBool b)
  then show ?thesis by (cases b) (auto intro: that)
qed (auto simp: json_string_def json_array_def json_object_def intro: that)

lemma json_fields_Cons:
  "json_fields (m # ms) = CHR 0x22 # json_escape (fst m) @ CHR 0x22 # CHR '':'' # snd m @
     (if ms = [] then [] else CHR '','' # json_fields ms)"
  by (cases m; cases ms) (auto simp: json_string_def)

lemma json_items_Cons: "json_items (v # vs) = v @ (if vs = [] then [] else CHR '','' # json_items vs)"
  by (cases vs) auto

lemma parse_items_print:
  assumes "\<And>v n r. v \<in> set vs \<Longrightarrow> length (print_json v) \<le> n \<Longrightarrow> num_stops r \<Longrightarrow>
      parse_value n (print_json v @ r) = Some (v, r)"
    and "vs \<noteq> []" and "length (json_items (map print_json vs)) < n"
  shows "parse_items n (json_items (map print_json vs) @ CHR '']'' # r) = Some (vs, r)"
  using assms
proof (induction vs arbitrary: n)
  case (Cons v vs)
  obtain m where n: "n = Suc m" using Cons.prems(3) by (cases n) auto
  have len: "length (print_json v) \<le> m"
    using Cons.prems(3) by (simp add: n json_items_Cons)
  show ?case
  proof (cases "vs = []")
    case True
    then show ?thesis using Cons.prems(1) [of v m "CHR '']'' # r"] len by (simp add: n)
  next
    case False
    have "parse_items m (json_items (map print_json vs) @ CHR '']'' # r) = Some (vs, r)"
      using Cons.prems False by (intro Cons.IH) (auto simp: n json_items_Cons)
    then show ?thesis
      using False len Cons.prems(1) [of v m "CHR '','' # json_items (map print_json vs) @ CHR '']'' # r"]
      by (simp add: n json_items_Cons)
  qed
qed simp

lemma parse_members_print:
  assumes "\<And>k v n r. (k, v) \<in> set ms \<Longrightarrow> length (print_json v) \<le> n \<Longrightarrow> num_stops r \<Longrightarrow>
      parse_value n (print_json v @ r) = Some (v, r)"
    and "list_all (\<lambda>m. valid_utf8 (fst m)) ms"
    and "ms \<noteq> []" and "length (json_fields (map (\<lambda>m. (fst m, print_json (snd m))) ms)) < n"
  shows "parse_members n (json_fields (map (\<lambda>m. (fst m, print_json (snd m))) ms) @ CHR ''}'' # r) = Some (ms, r)"
  using assms
proof (induction ms arbitrary: n)
  case (Cons kv ms)
  obtain k v where kv: "kv = (k, v)" by (cases kv)
  obtain m where n: "n = Suc m" using Cons.prems(4) by (cases n) auto
  have len: "length (print_json v) \<le> m"
    using Cons.prems(4) by (simp add: n kv json_fields_Cons)
  have key: "unquote (json_escape k @ CHR 0x22 # t) = Some (k, t)" for t
    using Cons.prems(2) by (intro unquote_escape) (simp add: kv)
  show ?case
  proof (cases "ms = []")
    case True
    then show ?thesis
      using Cons.prems(1) [of k v m "CHR ''}'' # r"] len key by (simp add: n kv json_fields_Cons)
  next
    case False
    let ?fs = "json_fields (map (\<lambda>m. (fst m, print_json (snd m))) ms)"
    have "parse_members m (?fs @ CHR ''}'' # r) = Some (ms, r)"
      using Cons.prems False by (intro Cons.IH) (auto simp: n json_fields_Cons)
    then show ?thesis
      using False len key Cons.prems(1) [of k v m "CHR '','' # ?fs @ CHR ''}'' # r"]
      by (simp add: n kv json_fields_Cons)
  qed
qed simp

lemma parse_value_print:
  "wf_json v \<Longrightarrow> length (print_json v) \<le> n \<Longrightarrow> num_stops r \<Longrightarrow> parse_value n (print_json v @ r) = Some (v, r)"
proof (induction v arbitrary: n r rule: print_json.induct)
  case (3 l)
  from 3(1) obtain c t where l: "l = c # t" "\<not> is_space c" "c \<notin> {CHR 0x22, CHR ''['', CHR ''{'', CHR ''t'', CHR ''f'', CHR ''n'', CHR '']'', CHR ''}''}"
    by (auto elim!: valid_num_Cons)
  obtain m where n: "n = Suc m" using 3(2) l by (cases n) auto
  show ?case using number_append [of l r] 3(1,3) l by (simp add: n)
next
  case (4 s)
  obtain m where n: "n = Suc m" using 4(2) by (cases n) (auto simp: json_string_def)
  show ?case using 4(1) unquote_escape [of s r] by (simp add: n json_string_def)
next
  case (5 vs)
  obtain m where n: "n = Suc m" using 5(3) by (cases n) (auto simp: json_array_def)
  show ?case
  proof (cases vs)
    case Nil
    then show ?thesis by (simp add: n json_array_def)
  next
    case (Cons v us)
    have "parse_items m (json_items (map print_json vs) @ CHR '']'' # r) = Some (vs, r)"
      using 5 Cons by (intro parse_items_print) (auto simp: n json_array_def list_all_iff)
    moreover obtain c t where "print_json v = c # t" "\<not> is_space c" "c \<noteq> CHR '']''"
      using 5(2) Cons by (auto elim: print_json_hd)
    ultimately show ?thesis using Cons by (simp add: n json_array_def json_items_Cons)
  qed
next
  case (6 ms)
  obtain m where n: "n = Suc m" using 6(3) by (cases n) (auto simp: json_object_def)
  show ?case
  proof (cases ms)
    case Nil
    then show ?thesis by (simp add: n json_object_def)
  next
    case (Cons kv us)
    have "parse_members m (json_fields (map (\<lambda>m. (fst m, print_json (snd m))) ms) @ CHR ''}'' # r) = Some (ms, r)"
    proof (rule parse_members_print)
      fix k v n r
      assume "(k, v) \<in> set ms" and "length (print_json v) \<le> n" and "num_stops r"
      then show "parse_value n (print_json v @ r) = Some (v, r)"
        using 6(1) [of "(k, v)" n r] 6(2) by (force simp: list_all_iff)
    qed (use 6 Cons in \<open>auto simp: n json_object_def\<close>)
    then show ?thesis using Cons by (simp add: n json_object_def json_fields_Cons)
  qed
qed (auto simp: literal_def gr0_conv_Suc Suc_le_eq numeral_eq_Suc elim!: less_natE)

lemma prefix_print:
  "wf_json v \<Longrightarrow> depth v \<le> max_depth \<Longrightarrow> num_stops r \<Longrightarrow> parse_prefix (print_json v @ r) = Some (v, r)"
  using parse_value_print [of v "2 * length (print_json v @ r) + 1" r] by (simp add: parse_prefix_def)

lemma parse_print: "wf_json v \<Longrightarrow> depth v \<le> max_depth \<Longrightarrow> parse_json (print_json v) = Some v"
  using prefix_print [of v "[]"] by (simp add: parse_json_def ws_def)

end
