(* ===== verification/HttpServer.thy ===== *)
theory HttpServer
  imports Serving Prom Json
begin

text \<open>
  The HTTP server of \<^verbatim>\<open>pkg/http/server/server.go\<close>: options, the recording
  \<^verbatim>\<open>responseWriter\<close>, the metrics and panic-recovery middleware, \<^verbatim>\<open>WriteProblem\<close>, and its life
  as an instance of \<^verbatim>\<open>Serving\<close>. The response writer of \<^verbatim>\<open>net/http\<close> underneath is modelled
  first; a handler's run is the list of what it does to its writer.
\<close>


section \<open>The response writer of net/http\<close>

text \<open>
  \<open>sent\<close> is the status line with the headers as they were then; informational responses go
  out before it. Write and Flush send 200 when nothing was sent yet. A status outside 100 to
  999 makes WriteHeader panic. \<open>body\<close> is the body that the handler wrote: in answer to a HEAD
  request the library takes the writes and counts them in the same way, and does not send them.
\<close>

record response =
  header :: "string \<Rightarrow> string option"
  sent :: "(int \<times> (string \<Rightarrow> string option)) option"
  informational :: "int list"
  body :: string
  hijacked :: bool
  flusher :: bool
  hijacker :: bool

definition new_response :: "bool \<Rightarrow> bool \<Rightarrow> response" where
  "new_response f h = \<lparr>header = Map.empty, sent = None, informational = [], body = '''', hijacked = False,
     flusher = f, hijacker = h\<rparr>"

definition std_WriteHeader :: "int \<Rightarrow> response \<Rightarrow> bool \<times> response" where
  "std_WriteHeader code r =
     (if hijacked r \<or> sent r \<noteq> None then (False, r)
      else if code < 100 \<or> code > 999 then (True, r)
      else if 100 \<le> code \<and> code \<le> 199 \<and> code \<noteq> 101
      then (False, r\<lparr>informational := informational r @ [code]\<rparr>)
      else (False, r\<lparr>sent := Some (code, header r)\<rparr>))"

definition body_allowed :: "int \<Rightarrow> bool" where
  "body_allowed code \<longleftrightarrow> \<not> (100 \<le> code \<and> code \<le> 199) \<and> code \<noteq> 204 \<and> code \<noteq> 304"

text \<open>What the connection takes of a write: all of it, or the first n bytes and an error.\<close>

type_synonym conn_write = "(nat \<times> err) option"

definition implicit_header :: "response \<Rightarrow> response" where
  "implicit_header r = (if sent r = None then r\<lparr>sent := Some (200, header r)\<rparr> else r)"

definition std_Write :: "string \<Rightarrow> conn_write \<Rightarrow> response \<Rightarrow> nat \<times> err option \<times> response" where
  "std_Write b io r =
     (if hijacked r then (0, Some (LibErr ''http.ErrHijacked'' ''http: connection has been hijacked''), r)
      else let r1 = implicit_header r
           in if b = [] then (0, None, r1)
              else if \<not> body_allowed (fst (the (sent r1)))
              then (0, Some (LibErr ''http.ErrBodyNotAllowed''
                     ''http: request method or response status code does not allow body''), r1)
              else case io of
                     None \<Rightarrow> (length b, None, r1\<lparr>body := body r1 @ b\<rparr>)
                   | Some (n, e) \<Rightarrow> (min n (length b), Some e, r1\<lparr>body := body r1 @ take n b\<rparr>))"

definition std_Flush :: "response \<Rightarrow> response" where
  "std_Flush r = (if hijacked r then r else implicit_header r)"

text \<open>The status the client sees once the handler has returned.\<close>

definition final_status :: "response \<Rightarrow> int" where
  "final_status r = (case sent r of Some (c, h) \<Rightarrow> c | None \<Rightarrow> 200)"


section \<open>The recording writer\<close>

record responseWriter =
  inner :: response
  statusCode :: int
  size :: int
  wroteHeader :: bool

definition WriteHeader :: "int \<Rightarrow> responseWriter \<Rightarrow> bool \<times> responseWriter" where
  "WriteHeader code rw =
     (let rw1 = (if wroteHeader rw then rw else rw\<lparr>statusCode := code, wroteHeader := True\<rparr>)
      in case std_WriteHeader code (inner rw1) of (p, r) \<Rightarrow> (p, rw1\<lparr>inner := r\<rparr>))"

definition Write :: "string \<Rightarrow> conn_write \<Rightarrow> responseWriter \<Rightarrow> nat \<times> err option \<times> responseWriter" where
  "Write b io rw =
     (let rw1 = (if wroteHeader rw then rw else rw\<lparr>wroteHeader := True\<rparr>)
      in case std_Write b io (inner rw1) of
           (n, e, r) \<Rightarrow>
             (n, map_option (Wrap ''responseWriter write'') e,
              rw1\<lparr>inner := r, size := wrap64 (size rw1 + int n)\<rparr>))"

definition Flush :: "responseWriter \<Rightarrow> responseWriter" where
  "Flush rw = (if flusher (inner rw) then rw\<lparr>inner := std_Flush (inner rw)\<rparr> else rw)"

definition Hijack :: "err option \<Rightarrow> responseWriter \<Rightarrow> err option \<times> responseWriter" where
  "Hijack herr rw =
     (if \<not> hijacker (inner rw)
      then (Some (ErrNew ''responseWriter: underlying ResponseWriter does not implement http.Hijacker''), rw)
      else case herr of
             Some e \<Rightarrow> (Some (Wrap ''responseWriter hijack'' e), rw)
           | None \<Rightarrow> (None, rw\<lparr>inner := (inner rw)\<lparr>hijacked := True\<rparr>\<rparr>))"

definition SetHeader :: "string \<Rightarrow> string \<Rightarrow> responseWriter \<Rightarrow> responseWriter" where
  "SetHeader k v rw = rw\<lparr>inner := (inner rw)\<lparr>header := (header (inner rw))(k \<mapsto> v)\<rparr>\<rparr>"


section \<open>Problem details\<close>

text \<open>A value of type any comes as the outcome of its own encoding; None is nil.\<close>

record Problem =
  Type :: string
  Title :: string
  Status :: int
  Detail :: "string res option"
  Instance :: string
  InvalidParams :: "string res option"

definition problemContentType :: string where
  "problemContentType = ''application/problem+json''"

definition opt_str :: "string \<Rightarrow> string \<Rightarrow> (string \<times> string) list" where
  "opt_str k v = (if v = '''' then [] else [(k, json_string v)])"

definition opt_any :: "string \<Rightarrow> string res option \<Rightarrow> (string \<times> string) list res" where
  "opt_any k v = (case v of None \<Rightarrow> Inr [] | Some (Inl e) \<Rightarrow> Inl e | Some (Inr j) \<Rightarrow> Inr [(k, j)])"

definition encode_problem :: "Problem \<Rightarrow> string res" where
  "encode_problem p =
     (case (opt_any ''detail'' (Detail p), opt_any ''invalid-params'' (InvalidParams p)) of
        (Inl e, _) \<Rightarrow> Inl e
      | (Inr d, Inl e) \<Rightarrow> Inl e
      | (Inr d, Inr ip) \<Rightarrow>
          Inr (json_object
            (opt_str ''type'' (Type p) @ opt_str ''title'' (Title p) @
             (if Status p = 0 then [] else [(''status'', itoa (Status p))]) @ d @
             opt_str ''instance'' (Instance p) @ ip) @ [CHR 0x0A]))"

definition WriteProblem ::
  "Problem \<Rightarrow> conn_write \<Rightarrow> responseWriter \<Rightarrow> bool \<times> err option \<times> responseWriter"
where
  "WriteProblem p io rw =
     (case WriteHeader (Status p) (SetHeader ''Content-Type'' problemContentType rw) of
        (True, rw1) \<Rightarrow> (True, None, rw1)
      | (False, rw1) \<Rightarrow>
          (case encode_problem p of
             Inl e \<Rightarrow> (False, Some (Wrap ''write problem'' e), rw1)
           | Inr b \<Rightarrow>
               (case Write b io rw1 of (n, e, rw2) \<Rightarrow> (False, map_option (Wrap ''write problem'') e, rw2))))"


section \<open>The middleware\<close>

datatype action =
    ASetHeader string string
  | AWriteHeader int
  | AWrite string conn_write
  | AFlush
  | AHijack "err option"
  | APanic

text \<open>A handler's actions, up to the first panic.\<close>

fun run_handler :: "action list \<Rightarrow> responseWriter \<Rightarrow> bool \<times> responseWriter" where
  "run_handler [] rw = (False, rw)"
| "run_handler (ASetHeader k v # as) rw = run_handler as (SetHeader k v rw)"
| "run_handler (AWriteHeader c # as) rw =
     (case WriteHeader c rw of (True, rw1) \<Rightarrow> (True, rw1) | (False, rw1) \<Rightarrow> run_handler as rw1)"
| "run_handler (AWrite b io # as) rw = run_handler as (snd (snd (Write b io rw)))"
| "run_handler (AFlush # as) rw = run_handler as (Flush rw)"
| "run_handler (AHijack e # as) rw = run_handler as (snd (Hijack e rw))"
| "run_handler (APanic # as) rw = (True, rw)"

text \<open>The pattern of a request is set by the mux inside the handler, so it is read twice.\<close>

record request =
  Method :: string
  Pattern :: string
  Path :: string

definition panic_problem :: "request \<Rightarrow> Problem" where
  "panic_problem r = \<lparr>Type = '''', Title = ''Internal Server Error'', Status = 500, Detail = None,
     Instance = Path r, InvalidParams = None\<rparr>"

definition buildMiddleware ::
  "string \<Rightarrow> request \<Rightarrow> string \<Rightarrow> action list \<Rightarrow> conn_write \<Rightarrow> response \<Rightarrow> metric list \<times> responseWriter"
where
  "buildMiddleware app req pattern as io w =
     (case run_handler as \<lparr>inner = w, statusCode = 200, size = 0, wroteHeader = False\<rparr> of
        (panicked, rw1) \<Rightarrow>
          (let ms = (if panicked then [Inc ''http_panic_recovery_total'' [app, Method req, pattern]] else []);
               rw2 = (if panicked \<and> \<not> wroteHeader rw1
                      then snd (snd (WriteProblem (panic_problem req) io rw1)) else rw1);
               labels = [app, pattern, Method req, itoa (statusCode rw2)]
           in ([Inc ''http_requests_inflight'' [app, Pattern req]] @ ms @
               [Observe ''http_request_duration_seconds'' labels,
                ObserveSize ''http_response_size_bytes'' labels (size rw2),
                Dec ''http_requests_inflight'' [app, Pattern req]], rw2)))"


section \<open>The server\<close>

record http_config =
  host :: string
  port :: int
  readTimeout :: duration
  readHeaderTimeout :: duration
  writeTimeout :: duration
  idleTimeout :: duration
  maxHeaderBytes :: int
  appName :: string

datatype http_option =
    WithHost string
  | WithPort int
  | WithReadTimeout duration
  | WithReadHeaderTimeout duration
  | WithWriteTimeout duration
  | WithIdleTimeout duration
  | WithMaxHeaderBytes int
  | WithAppName string
  | WithLogger
  | WithPrometheusRegisterer

fun apply_option :: "http_option \<Rightarrow> http_config \<Rightarrow> http_config" where
  "apply_option (WithHost h) s = s\<lparr>host := h\<rparr>"
| "apply_option (WithPort p) s = s\<lparr>port := p\<rparr>"
| "apply_option (WithReadTimeout d) s = s\<lparr>readTimeout := d\<rparr>"
| "apply_option (WithReadHeaderTimeout d) s = s\<lparr>readHeaderTimeout := d\<rparr>"
| "apply_option (WithWriteTimeout d) s = s\<lparr>writeTimeout := d\<rparr>"
| "apply_option (WithIdleTimeout d) s = s\<lparr>idleTimeout := d\<rparr>"
| "apply_option (WithMaxHeaderBytes n) s = s\<lparr>maxHeaderBytes := n\<rparr>"
| "apply_option (WithAppName n) s = s\<lparr>appName := n\<rparr>"
| "apply_option WithLogger s = s"
| "apply_option WithPrometheusRegisterer s = s"

definition default_config :: http_config where
  "default_config = \<lparr>host = ''0.0.0.0'', port = 8080, readTimeout = 5 * Second,
     readHeaderTimeout = 5 * Second, writeTimeout = 10 * Second, idleTimeout = 120 * Second,
     maxHeaderBytes = 0, appName = ''''\<rparr>"

text \<open>\<^verbatim>\<open>net.JoinHostPort\<close>: an IPv6 literal is put in brackets.\<close>

definition JoinHostPort :: "string \<Rightarrow> string \<Rightarrow> string" where
  "JoinHostPort h p =
     (if CHR '':'' \<in> set h then ''['' @ h @ '']:'' @ p else h @ '':'' @ p)"

definition NewServer :: "http_option list \<Rightarrow> http_config \<times> server" where
  "NewServer opts =
     (let c = fold apply_option opts default_config
      in (c, new_server (JoinHostPort (host c) (itoa (port c)))))"

definition initMetrics :: "collector list" where
  "initMetrics =
     [\<lparr>kind = CounterVec, cname = ''http_panic_recovery_total'', chelp = ''Total number of recovered panics.'',
       label_names = [''http_service'', ''http_method'', ''http_handler''], buckets = [], serial = 0\<rparr>,
      \<lparr>kind = HistogramVec, cname = ''http_request_duration_seconds'',
       chelp = ''The latency of the HTTP requests.'',
       label_names = [''http_service'', ''http_handler'', ''http_method'', ''http_code''],
       buckets = [5, 10, 25, 50, 100, 250, 500, 1000, 2500, 5000, 10000], serial = 1\<rparr>,
      \<lparr>kind = GaugeVec, cname = ''http_requests_inflight'',
       chelp = ''The number of inflight requests being handled at the same time.'',
       label_names = [''http_service'', ''http_handler''], buckets = [], serial = 2\<rparr>,
      \<lparr>kind = HistogramVec, cname = ''http_response_size_bytes'', chelp = ''The size of the HTTP responses.'',
       label_names = [''http_service'', ''http_handler'', ''http_method'', ''http_code''],
       buckets = [100000, 1000000, 10000000, 100000000, 1000000000, 10000000000, 100000000000, 1000000000000],
       serial = 3\<rparr>]"

definition ErrServerClosed :: err where
  "ErrServerClosed = LibErr ''http.ErrServerClosed'' ''http: Server closed''"

text \<open>Start reports an error of Serve unless it is the one that announces the shutdown.\<close>

definition http_profile :: profile where
  "http_profile =
     \<lparr>listenErr = (\<lambda>a e. Wrap (''listening on '' @ a) e),
      closedErr = Some ErrServerClosed,
      serveErr = (\<lambda>e. if errors_is e ErrServerClosed then None else Some (Wrap ''serving'' e)),
      stopPrefix = ''http server stop'', hijacks = True, waitsHandlers = False\<rparr>"

definition http_step :: "server \<Rightarrow> event \<Rightarrow> server option" where
  "http_step = step http_profile"


section \<open>The writer records the truth\<close>

lemmas response_defs [handler_defs] = SetHeader_def WriteHeader_def std_WriteHeader_def new_response_def Write_def
  std_Write_def implicit_header_def final_status_def body_allowed_def

text \<open>
  The recorded status and size are those of the response, as long as the handler sends no
  informational or invalid status and neither flushes nor hijacks.
\<close>

definition truthful :: "responseWriter \<Rightarrow> bool" where
  "truthful rw \<longleftrightarrow> \<not> hijacked (inner rw) \<and> (wroteHeader rw \<longleftrightarrow> sent (inner rw) \<noteq> None) \<and>
     statusCode rw = final_status (inner rw) \<and> size rw = wrap64 (int (length (body (inner rw)))) \<and>
     (sent (inner rw) = None \<longrightarrow> body (inner rw) = '''')"

fun plain :: "action \<Rightarrow> bool" where
  "plain (AWriteHeader c) = (200 \<le> c \<and> c \<le> 999 \<or> c = 101)"
| "plain AFlush = False"
| "plain (AHijack e) = False"
| "plain _ = True"

lemma truthful_SetHeader [simp]: "truthful (SetHeader k v rw) = truthful rw"
  by (simp add: truthful_def SetHeader_def final_status_def)

lemma SetHeader_inner [simp]:
  "sent (inner (SetHeader k v rw)) = sent (inner rw)" "body (inner (SetHeader k v rw)) = body (inner rw)"
  "header (inner (SetHeader k v rw)) = (header (inner rw))(k \<mapsto> v)"
  by (simp_all add: SetHeader_def)

lemma truthful_WriteHeader:
  assumes "truthful rw" and "200 \<le> c \<and> c \<le> 999 \<or> c = 101" and "WriteHeader c rw = (p, rw1)"
  shows "\<not> p \<and> truthful rw1 \<and> wroteHeader rw1 \<and>
    sent (inner rw1) = (if sent (inner rw) = None then Some (c, header (inner rw)) else sent (inner rw)) \<and>
    body (inner rw1) = body (inner rw)"
  using assms
  by (auto simp: truthful_def WriteHeader_def std_WriteHeader_def final_status_def Let_def split: if_splits)

lemma std_Write_keeps:
  assumes "std_Write b io r = (n, e, r1)" and "\<not> hijacked r"
  shows "\<not> hijacked r1 \<and> sent r1 = (if sent r = None then Some (200, header r) else sent r) \<and>
    int (length (body r1)) = int (length (body r)) + int n"
  using assms
  by (auto simp: std_Write_def implicit_header_def Let_def split: if_splits option.splits prod.splits)

lemma truthful_Write:
  assumes "truthful rw" and "Write b io rw = (n, e, rw1)"
  shows "truthful rw1 \<and> wroteHeader rw1 \<and>
    sent (inner rw1) = (if sent (inner rw) = None then Some (200, header (inner rw)) else sent (inner rw))"
proof -
  obtain m e1 r1 where w: "std_Write b io (inner rw) = (m, e1, r1)" by (metis prod_cases3)
  have rw1: "inner rw1 = r1" "size rw1 = wrap64 (size rw + int m)" "statusCode rw1 = statusCode rw" "wroteHeader rw1"
    using assms(2) w by (auto simp: Write_def Let_def split: if_splits)
  from assms(1) have h: "\<not> hijacked (inner rw)" by (simp add: truthful_def)
  from std_Write_keeps [OF w h] assms(1) rw1 show ?thesis
    by (auto simp: truthful_def final_status_def split: option.splits if_splits)
qed

lemma truthful_run:
  "truthful rw \<Longrightarrow> list_all plain as \<Longrightarrow> truthful (snd (run_handler as rw))"
proof (induction as rw rule: run_handler.induct)
  case (3 c as rw)
  obtain p rw1 where w: "WriteHeader c rw = (p, rw1)" by fastforce
  from truthful_WriteHeader [OF 3(2) _ w] 3 w show ?case by auto
next
  case (4 b io as rw)
  obtain n e rw1 where w: "Write b io rw = (n, e, rw1)" by (metis prod_cases3)
  from truthful_Write [OF 4(2) w] 4 w show ?case by auto
qed auto

text \<open>The problem written for a panic.\<close>

lemma WriteProblem_panic:
  assumes "truthful rw" and "sent (inner rw) = None" and "WriteProblem (panic_problem req) io rw = (p, e, rw1)"
  shows "truthful rw1 \<and> sent (inner rw1) = Some (500, (header (inner rw))(''Content-Type'' \<mapsto> problemContentType)) \<and>
    (io = None \<longrightarrow> encode_problem (panic_problem req) = Inr (body (inner rw1)))"
proof -
  let ?rw = "SetHeader ''Content-Type'' problemContentType rw"
  obtain q rw2 where h: "WriteHeader 500 ?rw = (q, rw2)" by fastforce
  have b0: "body (inner rw) = ''''" using assms(1,2) by (simp add: truthful_def)
  from truthful_WriteHeader [OF _ _ h] assms(1,2) b0 have q: "\<not> q" and rw2: "truthful rw2"
    "sent (inner rw2) = Some (500, (header (inner rw))(''Content-Type'' \<mapsto> problemContentType))" "body (inner rw2) = ''''"
    by simp_all
  obtain b where b: "encode_problem (panic_problem req) = Inr b" "b \<noteq> []"
    by (auto simp: encode_problem_def panic_problem_def opt_any_def)
  obtain n e1 rw3 where w: "Write b io rw2 = (n, e1, rw3)" by (metis prod_cases3)
  have rw1: "rw1 = rw3" using assms(3) h q b w by (simp add: WriteProblem_def panic_problem_def)
  have "body (inner rw3) = b" if "io = None"
    using w that b rw2
    by (auto simp: Write_def std_Write_def implicit_header_def body_allowed_def truthful_def Let_def split: if_splits)
  with truthful_Write [OF rw2(1) w] rw2 rw1 b show ?thesis by auto
qed


section \<open>Properties\<close>

lemma truthful_new: "truthful \<lparr>inner = new_response f h, statusCode = 200, size = 0, wroteHeader = False\<rparr>"
  by (simp add: truthful_def new_response_def final_status_def is_int64_def)

text \<open>
  C22. The middleware reports what the client gets. For a handler that sends only final
  statuses and neither flushes nor hijacks, the status in the metric labels is the status of
  the response and the recorded size is the length of the body written, whether or not the handler
  panics; and a handler that panics before it has sent anything is turned into a complete
  500 problem response.
\<close>
theorem http_recorded_status:
  assumes "list_all plain as"
    and "buildMiddleware app req pattern as io (new_response f h) = (ms, rw)"
    and "run_handler as \<lparr>inner = new_response f h, statusCode = 200, size = 0, wroteHeader = False\<rparr> = (panicked, rw1)"
  shows "(let labels = [app, pattern, Method req, itoa (final_status (inner rw))]
     in Observe ''http_request_duration_seconds'' labels \<in> set ms \<and>
        ObserveSize ''http_response_size_bytes'' labels (wrap64 (int (length (body (inner rw))))) \<in> set ms) \<and>
    (\<not> panicked \<longrightarrow> rw = rw1) \<and>
    (panicked \<and> sent (inner rw1) = None \<longrightarrow>
       sent (inner rw) = Some (500, (header (inner rw1))(''Content-Type'' \<mapsto> problemContentType)) \<and>
       (io = None \<longrightarrow> encode_problem (panic_problem req) = Inr (body (inner rw)))) \<and>
    (panicked \<and> sent (inner rw1) \<noteq> None \<longrightarrow> rw = rw1)"
proof -
  have t1: "truthful rw1" using truthful_run [OF truthful_new assms(1), of f h] assms(3) by simp
  obtain p e rw2 where wp: "WriteProblem (panic_problem req) io rw1 = (p, e, rw2)" by (metis prod_cases3)
  define lost where "lost \<longleftrightarrow> panicked \<and> sent (inner rw1) = None"
  have rw: "rw = (if lost then rw2 else rw1)"
    using assms(2,3) wp t1 by (auto simp: buildMiddleware_def Let_def lost_def truthful_def)
  have t: "truthful rw" using WriteProblem_panic [OF t1 _ wp] t1 rw lost_def by (auto split: if_splits)
  have "Observe ''http_request_duration_seconds'' [app, pattern, Method req, itoa (statusCode rw)] \<in> set ms \<and>
      ObserveSize ''http_response_size_bytes'' [app, pattern, Method req, itoa (statusCode rw)] (size rw) \<in> set ms"
    using assms(2,3) by (auto simp: buildMiddleware_def Let_def)
  with t have "let labels = [app, pattern, Method req, itoa (final_status (inner rw))]
     in Observe ''http_request_duration_seconds'' labels \<in> set ms \<and>
        ObserveSize ''http_response_size_bytes'' labels (wrap64 (int (length (body (inner rw))))) \<in> set ms"
    by (simp add: truthful_def Let_def)
  with WriteProblem_panic [OF t1 _ wp] rw show ?thesis by (auto simp: lost_def)
qed

theorem http_recorded_status_witness:
  "final_status (inner (snd (buildMiddleware ''app'' \<lparr>Method = ''GET'', Pattern = '''', Path = ''/x''\<rparr> ''GET /x''
     [ASetHeader ''A'' ''b'', APanic] None (new_response True True)))) = 500"
proof -
  obtain ms rw where m: "buildMiddleware ''app'' \<lparr>Method = ''GET'', Pattern = '''', Path = ''/x''\<rparr> ''GET /x''
     [ASetHeader ''A'' ''b'', APanic] None (new_response True True) = (ms, rw)" by fastforce
  have r: "run_handler [ASetHeader ''A'' ''b'', APanic]
      \<lparr>inner = new_response True True, statusCode = 200, size = 0, wroteHeader = False\<rparr> =
    (True, SetHeader ''A'' ''b'' \<lparr>inner = new_response True True, statusCode = 200, size = 0, wroteHeader = False\<rparr>)"
    by simp
  from http_recorded_status [OF _ m r] have "\<exists>h. sent (inner rw) = Some (500, h)"
    by (auto simp: new_response_def)
  with m show ?thesis by (auto simp: final_status_def)
qed

text \<open>
  Outside that class the recorded status is wrong. An informational 103 before the 200 is
  recorded as the status of the response, and keeps a panic that follows it from becoming a
  500; a flush before a panic has already sent 200, yet 500 is recorded and the problem body
  is appended; an invalid status is recorded although the client gets 200 with no body.
\<close>
theorem http_status_diverges:
  "(let rw = snd (buildMiddleware app req pat [AWriteHeader 103, AWriteHeader 200] None (new_response True True))
    in statusCode rw = 103 \<and> final_status (inner rw) = 200) \<and>
   (let rw = snd (buildMiddleware app req pat [AWriteHeader 103, APanic] None (new_response True True))
    in statusCode rw = 103 \<and> final_status (inner rw) = 200 \<and> body (inner rw) = '''') \<and>
   (let rw = snd (buildMiddleware app req pat [AFlush, APanic] None (new_response True True))
    in statusCode rw = 500 \<and> final_status (inner rw) = 200 \<and> body (inner rw) \<noteq> '''') \<and>
   (let rw = snd (buildMiddleware app req pat [AWriteHeader 0] None (new_response True True))
    in statusCode rw = 0 \<and> final_status (inner rw) = 200 \<and> body (inner rw) = '''')"
  by (simp add: buildMiddleware_def WriteHeader_def std_WriteHeader_def new_response_def Let_def final_status_def
      Flush_def std_Flush_def implicit_header_def WriteProblem_def SetHeader_def panic_problem_def
      encode_problem_def opt_any_def Write_def std_Write_def body_allowed_def)

text \<open>
  C23. What Stop leaves behind. In any interleaving of Start, requests and Stop calls, once a
  Stop call has returned, the server is closing and no request is left on a connection that it
  tracks. Connections with a request are cut only if some Stop call ran into the end of its context,
  and the only handlers that can still run are those of cut or hijacked connections, which neither
  Close nor Shutdown waits for: after a graceful Stop with no hijacked connection no
  handler runs. A Stop call whose context has ended is never stuck: it can take a step towards its
  return whatever the requests and handlers do.
\<close>
theorem http_stop_drains:
  assumes "lts_run http_step (snd (NewServer opts)) es = Some s"
  shows "(\<forall>i < length (stops s). \<forall>r. mode (stops s ! i) = Returned r \<longrightarrow> closing s \<and> active s = 0) \<and>
    ((\<forall>c \<in> set (stops s). \<not> forced (mode c)) \<longrightarrow> cut s = 0) \<and>
    loose s \<le> cut s + taken s \<and>
    (\<forall>i < length (stops s). mode (stops s ! i) = Returned (Inr ()) \<and> taken s = 0 \<and>
       (\<forall>c \<in> set (stops s). \<not> forced (mode c)) \<longrightarrow> active s = 0 \<and> loose s = 0) \<and>
    (\<forall>i < length (stops s). \<forall>x. mode (stops s ! i) = Forced x \<longrightarrow>
       (\<exists>e t. stop_progress i e \<and> http_step s e = Some t))"
proof -
  have inv: "server_inv s"
    using assms by (auto simp: http_step_def NewServer_def Let_def intro: server_reached)
  have "\<exists>e t. stop_progress i e \<and> http_step s e = Some t" if "i < length (stops s)" "mode (stops s ! i) = Forced x" for i x
    unfolding http_step_def by (rule forced_not_stuck [OF inv that]) (simp add: http_profile_def)
  then show ?thesis
    using stop_returned [OF inv] graceful_cut [OF inv] loose_bound [OF inv] by (metis add_0 le_zero_eq)
qed

text \<open>A request outlives the Stop call that was forced to close its connection.\<close>

definition demo_events :: "event list" where
  "demo_events = [Listen (Inr ''127.0.0.1:80''), ServeBegins, Accept, CallStop None, OnceEnter (Stopper 0),
     ServeReturns, StopExpires 0 DeadlineExceeded, DrainReturns, StopForced 0]"

theorem http_stop_drains_witness:
  "\<exists>s. lts_run http_step (snd (NewServer [])) demo_events = Some s \<and> cut s = 1 \<and> loose s = 1 \<and>
     mode (stops s ! 0) = Returned (stop_err http_profile DeadlineExceeded) \<and> closing s \<and> active s = 0"
proof -
  obtain s where s: "lts_run http_step (snd (NewServer [])) demo_events = Some s"
    and c: "cut s = 1" "loose s = 1" and l: "length (stops s) = 1"
      "mode (stops s ! 0) = Returned (stop_err http_profile DeadlineExceeded)"
    by (simp add: demo_events_def http_step_def NewServer_def Let_def new_server_def step_def waits_def
        set_who_def force_close_def set_mode_def http_profile_def)
  from conjunct1 [OF http_stop_drains [OF s]] l have "closing s \<and> active s = 0" by auto
  with s c l show ?thesis by blast
qed

end
