(* ===== verification/HealthServer.thy ===== *)
theory HealthServer
  imports HttpServer
begin

text \<open>
  The health server of \<^verbatim>\<open>pkg/healthserver/server.go\<close>: a mux with the liveness and readiness
  endpoints over an inner HTTP server. The probers run concurrently; the order in which
  their errors are collected is the order in which they finish, a parameter of the model.
\<close>


section \<open>Construction\<close>

text \<open>A prober is known by its number; what its Probe returns is an input of the handler.\<close>

record health_config =
  port :: int
  host :: string
  appName :: string
  registerer :: bool
  logger :: bool
  probers :: "nat list"

datatype health_option =
    WithProber nat
  | WithPort int
  | WithHost string
  | WithAppName string
  | WithPrometheusRegisterer bool
  | WithLogger bool

fun apply_option :: "health_option \<Rightarrow> health_config \<Rightarrow> health_config" where
  "apply_option (WithProber p) c = c\<lparr>probers := probers c @ [p]\<rparr>"
| "apply_option (WithPort p) c = c\<lparr>port := p\<rparr>"
| "apply_option (WithHost h) c = c\<lparr>host := h\<rparr>"
| "apply_option (WithAppName n) c = c\<lparr>appName := n\<rparr>"
| "apply_option (WithPrometheusRegisterer r) c = c\<lparr>registerer := r\<rparr>"
| "apply_option (WithLogger l) c = c\<lparr>logger := l\<rparr>"

definition http_options :: "health_config \<Rightarrow> http_option list" where
  "http_options c =
     (if port c \<noteq> 0 then [HttpServer.WithPort (port c)] else []) @
     (if host c \<noteq> '''' then [HttpServer.WithHost (host c)] else []) @
     (if appName c \<noteq> '''' then [HttpServer.WithAppName (appName c)] else []) @
     (if registerer c then [HttpServer.WithPrometheusRegisterer] else []) @
     (if logger c then [HttpServer.WithLogger] else [])"

definition New :: "health_option list \<Rightarrow> nat list \<times> http_config \<times> server" where
  "New opts =
     (let c = fold apply_option opts
        \<lparr>port = 0, host = '''', appName = '''', registerer = False, logger = True, probers = []\<rparr>
      in (probers c, NewServer (http_options c)))"


section \<open>The endpoints\<close>

definition handleHealthz :: "conn_write \<Rightarrow> action list" where
  "handleHealthz io =
     [ASetHeader ''Content-Type'' ''application/json'', AWriteHeader 200,
      AWrite (json_object [(''status'', json_string ''ok'')]) io]"

text \<open>
  The probers finish in the given order; each failure appends its message under the lock.
\<close>

fun collect :: "(nat \<Rightarrow> err option) \<Rightarrow> nat list \<Rightarrow> string list \<Rightarrow> string list" where
  "collect probe [] errs = errs"
| "collect probe (p # ps) errs =
     (case probe p of None \<Rightarrow> collect probe ps errs | Some e \<Rightarrow> collect probe ps (errs @ [err_msg e]))"

text \<open>A map is marshaled with its keys sorted.\<close>

definition not_ready_body :: "string list \<Rightarrow> string" where
  "not_ready_body errs =
     json_object [(''errors'', json_array (map json_string errs)), (''status'', json_string ''not ready'')]"

definition handleReadyz :: "(nat \<Rightarrow> err option) \<Rightarrow> nat list \<Rightarrow> conn_write \<Rightarrow> action list" where
  "handleReadyz probe finish_order io =
     (let errs = collect probe finish_order []
      in ASetHeader ''Content-Type'' ''application/json'' #
         (if errs = [] then [AWriteHeader 200, AWrite (json_object [(''status'', json_string ''ready'')]) io]
          else [AWriteHeader 503, AWrite (not_ready_body errs) io]))"

text \<open>
  The mux: a GET pattern also serves HEAD; another method on a known path is refused with
  405, an unknown path with 404. net/http writes those two itself.
\<close>

datatype route = RHealthz | RReadyz | RMethodNotAllowed | RNotFound

definition route :: "string \<Rightarrow> string \<Rightarrow> route" where
  "route meth path =
     (if path = ''/healthz'' then if meth \<in> {''GET'', ''HEAD''} then RHealthz else RMethodNotAllowed
      else if path = ''/readyz'' then if meth \<in> {''GET'', ''HEAD''} then RReadyz else RMethodNotAllowed
      else RNotFound)"

text \<open>Start and Stop delegate to the inner server and wrap its error.\<close>

definition health_profile :: profile where
  "health_profile =
     \<lparr>listenErr = (\<lambda>a e. Wrap ''healthserver start'' (listenErr http_profile a e)),
      closedErr = closedErr http_profile,
      serveErr = (\<lambda>e. map_option (Wrap ''healthserver start'') (serveErr http_profile e)),
      stopPrefix = ''healthserver stop: http server stop'',
      hijacks = hijacks http_profile, waitsHandlers = waitsHandlers http_profile\<rparr>"

lemma collect_spec: "collect probe ps errs = errs @ map err_msg (List.map_filter probe ps)"
  by (induction ps arbitrary: errs) (auto simp: List.map_filter_def split: option.splits)


section \<open>Properties\<close>

text \<open>
  Readiness is the conjunction of all probes. Whatever the order in which the probers
  finish, the response through the metrics middleware is 200 exactly when every registered
  prober succeeded; otherwise it is 503 with one message per failed prober, each exactly
  once.
\<close>
theorem health_ready_iff_all:
  assumes "mset order = mset ps"
    and "buildMiddleware app req pattern (handleReadyz probe order io) pio (new_response f h) = (ms, rw)"
  shows "final_status (inner rw) = (if \<forall>p \<in> set ps. probe p = None then 200 else 503) \<and>
    mset (collect probe order []) = image_mset err_msg (mset (List.map_filter probe ps)) \<and>
    Observe ''http_request_duration_seconds''
      [app, pattern, Method req, itoa (if \<forall>p \<in> set ps. probe p = None then 200 else 503)] \<in> set ms"
proof -
  have "set order = set ps" using assms(1) by (rule mset_eq_setD)
  then have none: "collect probe order [] = [] \<longleftrightarrow> (\<forall>p \<in> set ps. probe p = None)"
    by (auto simp: collect_spec List.map_filter_def filter_empty_conv)
  have out: "statusCode rw = (if collect probe order [] = [] then 200 else 503) \<and>
      final_status (inner rw) = (if collect probe order [] = [] then 200 else 503) \<and>
      Observe ''http_request_duration_seconds'' [app, pattern, Method req, itoa (statusCode rw)] \<in> set ms"
    using assms(2)
    by (auto simp: buildMiddleware_def handleReadyz_def Let_def handler_defs json_object_def split: if_splits option.splits prod.splits)
  then have st: "statusCode rw = (if \<forall>p \<in> set ps. probe p = None then 200 else 503)"
    and fs: "final_status (inner rw) = (if \<forall>p \<in> set ps. probe p = None then 200 else 503)"
    unfolding none by blast+
  from out have obs: "Observe ''http_request_duration_seconds'' [app, pattern, Method req, itoa (statusCode rw)] \<in> set ms"
    by blast
  have "mset (collect probe order []) = image_mset err_msg (mset (List.map_filter probe ps))"
    using assms(1) by (simp add: collect_spec List.map_filter_def mset_filter multiset.map_comp comp_assoc)
  with fs obs [unfolded st] show ?thesis by blast
qed

theorem health_ready_iff_all_witness:
  "final_status (inner (snd (buildMiddleware ''app'' \<lparr>Method = ''GET'', Pattern = '''', Path = ''/readyz''\<rparr> ''GET /readyz''
     (handleReadyz (\<lambda>p. if p = 1 then Some (ErrNew ''down'') else None) [1, 0] None) None (new_response True True)))) = 503"
proof -
  obtain ms rw where m: "buildMiddleware ''app'' \<lparr>Method = ''GET'', Pattern = '''', Path = ''/readyz''\<rparr> ''GET /readyz''
     (handleReadyz (\<lambda>p. if p = 1 then Some (ErrNew ''down'') else None) [1, 0] None) None (new_response True True)
     = (ms, rw)" by fastforce
  have "mset [1, 0] = mset [0, 1 :: nat]" by simp
  from health_ready_iff_all [OF this m] m show ?thesis by simp
qed

end
