(* ===== verification/GrpcServer.thy ===== *)
theory GrpcServer
  imports HttpServer
begin

text \<open>
  The gRPC server of \<^verbatim>\<open>pkg/grpc/server/server.go\<close>, the second instance of \<^verbatim>\<open>Serving\<close>: its
  graceful stop is GracefulStop and its forced close is Stop of the gRPC library. Unlike the
  HTTP server its Start only logs an error of Serve, an RPC cannot take its connection over, and
  GracefulStop waits for the handlers of all pending RPCs, also of those whose connection the
  forced close has closed; the forced close itself does not wait for handlers.
\<close>

record grpc_config =
  host :: string
  port :: int
  srvOpts :: nat

datatype grpc_option = WithHost string | WithPort int | WithLogger | WithServerOptions nat

text \<open>Of the library's server options only their number is kept.\<close>

fun apply_option :: "grpc_option \<Rightarrow> grpc_config \<Rightarrow> grpc_config" where
  "apply_option (WithHost h) s = s\<lparr>host := h\<rparr>"
| "apply_option (WithPort p) s = s\<lparr>port := p\<rparr>"
| "apply_option WithLogger s = s"
| "apply_option (WithServerOptions n) s = s\<lparr>srvOpts := srvOpts s + n\<rparr>"

definition NewServer :: "grpc_option list \<Rightarrow> grpc_config \<times> server" where
  "NewServer opts =
     (let c = fold apply_option opts \<lparr>host = ''0.0.0.0'', port = 9090, srvOpts = 0\<rparr>
      in (c, new_server (JoinHostPort (host c) (itoa (port c)))))"

definition grpc_profile :: profile where
  "grpc_profile =
     \<lparr>listenErr = (\<lambda>a e. Wrap ''grpc server listen'' e),
      closedErr = None,
      serveErr = (\<lambda>e. None),
      stopPrefix = ''grpc server stop'', hijacks = False, waitsHandlers = True\<rparr>"

definition grpc_step :: "server \<Rightarrow> event \<Rightarrow> server option" where
  "grpc_step = step grpc_profile"

definition Addr :: "server \<Rightarrow> string" where
  "Addr s = (case listener s of Some a \<Rightarrow> a | None \<Rightarrow> addr s)"


section \<open>What Start can return\<close>

definition listen_only :: "server \<Rightarrow> bool" where
  "listen_only s \<longleftrightarrow>
     (case pc s of
        StartReturned (Some e) \<Rightarrow> listener s = None \<and> (\<exists>x. e = Wrap ''grpc server listen'' x)
      | NotStarted \<Rightarrow> listener s = None
      | _ \<Rightarrow> True)"

lemma listen_only_frame: "pc t = pc s \<Longrightarrow> listener t = listener s \<Longrightarrow> listen_only t = listen_only s"
  by (simp add: listen_only_def split: start_pc.split option.split)

lemma listen_only_step:
  assumes "listen_only s" and "grpc_step s e = Some t"
  shows "listen_only t"
  using assms(2) unfolding grpc_step_def
proof (cases rule: step_cases)
  case start
  have s: "serveErr grpc_profile = (\<lambda>e. None)" by (simp add: grpc_profile_def)
  have b: "Option.bind r (\<lambda>e. None) = None" for r :: "err option" by (cases r) auto
  from start assms(1) show ?thesis
    by (cases e) (auto simp: listen_only_def s b grpc_profile_def split: if_splits sum.splits start_pc.splits option.splits)
next
  case drain
  then have "pc t = pc s \<and> listener t = listener s"
    by (cases e) (auto simp: set_who_def split: if_splits once.splits who.splits)
  with assms(1) show ?thesis using listen_only_frame [of t s] by simp
next
  case stop
  then have "pc t = pc s \<and> listener t = listener s"
    by (cases e) (auto simp: force_close_def set_mode_def split: if_splits option.splits stop_mode.splits)
  with assms(1) show ?thesis using listen_only_frame [of t s] by simp
qed

interpretation grl: lts_invariant grpc_step listen_only
  by unfold_locales (rule listen_only_step)


section \<open>Properties\<close>

text \<open>
  The gRPC server stops much as the HTTP server does: a Stop call that has returned leaves no
  RPC on an open connection, RPCs are cut off only after some Stop context has ended, and such a Stop is
  stuck only while a handler of an RPC that was cut off still runs. Its Start reports an error only when listening failed: once it listens, it
  returns nil even if serving failed.
\<close>
theorem grpc_stop_drains:
  assumes "lts_run grpc_step (snd (NewServer opts)) es = Some s"
  shows "(\<forall>i < length (stops s). \<forall>r. mode (stops s ! i) = Returned r \<longrightarrow> closing s \<and> active s = 0) \<and>
    ((\<forall>c \<in> set (stops s). \<not> forced (mode c)) \<longrightarrow> cut s = 0) \<and>
    loose s \<le> cut s + taken s \<and>
    (\<forall>i < length (stops s). \<forall>x. mode (stops s ! i) = Forced x \<and> loose s = 0 \<longrightarrow>
       (\<exists>e t. stop_progress i e \<and> grpc_step s e = Some t)) \<and>
    (\<forall>e. pc s = StartReturned (Some e) \<longrightarrow> listener s = None)"
proof -
  have run: "lts_run (step grpc_profile) (new_server (addr (snd (NewServer opts)))) es = Some s"
    using assms by (simp add: grpc_step_def NewServer_def Let_def new_server_def)
  have inv: "server_inv s" by (rule server_reached [OF run])
  have "listen_only (snd (NewServer opts))" by (simp add: NewServer_def Let_def new_server_def listen_only_def)
  from grl.run_inv [OF this assms] have "pc s = StartReturned (Some e) \<longrightarrow> listener s = None" for e
    by (auto simp: listen_only_def)
  then show ?thesis
    using stop_returned [OF inv] graceful_cut [OF inv] loose_bound [OF inv] forced_not_stuck [OF inv]
    unfolding grpc_step_def by blast
qed

theorem grpc_stop_drains_witness:
  "\<exists>s. lts_run grpc_step (snd (NewServer [])) [Listen (Inr ''a''), ServeBegins, ServeFails (ErrNew ''broken''),
      WatchQuit, WaitWatcher, CallStop None, OnceEnter (Stopper 0), DrainReturns, StopDone 0] = Some s \<and>
     pc s = StartReturned None \<and> mode (stops s ! 0) = Returned (Inr ()) \<and> closing s \<and> active s = 0"
proof -
  obtain s where s: "lts_run grpc_step (snd (NewServer [])) [Listen (Inr ''a''), ServeBegins,
      ServeFails (ErrNew ''broken''), WatchQuit, WaitWatcher, CallStop None, OnceEnter (Stopper 0), DrainReturns,
      StopDone 0] = Some s"
    and p: "pc s = StartReturned None" and l: "length (stops s) = 1" "mode (stops s ! 0) = Returned (Inr ())"
    by (simp add: grpc_step_def NewServer_def Let_def new_server_def step_def waits_def set_who_def set_mode_def
        grpc_profile_def)
  from conjunct1 [OF grpc_stop_drains [OF s]] l have "closing s \<and> active s = 0" by auto
  with s p l show ?thesis by blast
qed

end
