(* ===== verification/GrpcClient.thy ===== *)
theory GrpcClient
  imports Prelude
begin

text \<open>
  The gRPC client of \<^verbatim>\<open>pkg/grpc/client/client.go\<close>. The connection and its constructor belong to
  the gRPC library and are parameters.
\<close>

record 'conn client =
  target :: string
  dialOpts :: nat
  conn :: "'conn option"

datatype client_option = WithDialOptions nat | WithLogger

text \<open>Of the library's dial options only their number is kept.\<close>

fun apply_option :: "client_option \<Rightarrow> 'conn client \<Rightarrow> 'conn client" where
  "apply_option (WithDialOptions n) c = c\<lparr>dialOpts := dialOpts c + n\<rparr>"
| "apply_option WithLogger c = c"

definition NewClient :: "string \<Rightarrow> client_option list \<Rightarrow> 'conn client" where
  "NewClient t opts = fold apply_option opts \<lparr>target = t, dialOpts = 0, conn = None\<rparr>"

text \<open>
  Start up to the point where it waits for its context, after which it returns nil: None is
  still waiting, Some the error it returned with.
\<close>

definition Start ::
  "(string \<Rightarrow> nat \<Rightarrow> 'conn res) \<Rightarrow> 'conn client \<Rightarrow> err option \<times> 'conn client"
where
  "Start dial c =
     (case dial (target c) (dialOpts c) of
        Inl e \<Rightarrow> (Some (Wrap ''grpc client'' e), c)
      | Inr x \<Rightarrow> (None, c\<lparr>conn := Some x\<rparr>))"

text \<open>
  Stop: without a connection it returns nil; otherwise it waits for Close or for the end of
  its context. \<open>closed\<close> is what Close has returned so far (None while it runs), \<open>pick\<close> the case the
  select takes; None is a case that is not ready.
\<close>

datatype stop_pick = PickClosed | PickCtx

definition Stop ::
  "stop_pick \<Rightarrow> err option option \<Rightarrow> ctx \<Rightarrow> 'conn client \<Rightarrow> unit res option"
where
  "Stop pick closed c cl =
     (case conn cl of
        None \<Rightarrow> Some (Inr ())
      | Some x \<Rightarrow>
          (case pick of
             PickClosed \<Rightarrow>
               (case closed of
                  None \<Rightarrow> None
                | Some None \<Rightarrow> Some (Inr ())
                | Some (Some e) \<Rightarrow> Some (Inl (Wrap ''grpc client close'' e)))
           | PickCtx \<Rightarrow>
               (case c of None \<Rightarrow> None | Some e \<Rightarrow> Some (Inl (Wrap ''grpc client close'' (CtxErr e))))))"

definition Conn :: "'conn client \<Rightarrow> 'conn option" where
  "Conn c = conn c"

text \<open>Stop on a connected client succeeds only when the connection has been closed.\<close>

lemma Stop_nil: "Stop pick closed c cl = Some (Inr ()) \<Longrightarrow> Conn cl = None \<or> closed = Some None"
  by (auto simp: Stop_def Conn_def split: option.splits stop_pick.splits)

lemma Stop_ready:
  "conn cl = None \<or> closed \<noteq> None \<or> c \<noteq> None \<Longrightarrow>
   Stop PickClosed closed c cl \<noteq> None \<or> Stop PickCtx closed c cl \<noteq> None"
  by (auto simp: Stop_def split: option.splits)

end
