(* ===== verification/HttpClient.thy ===== *)
theory HttpClient
  imports Prelude
begin

text \<open>
  The HTTP client of \<^verbatim>\<open>pkg/http/client/client.go\<close>: options, the middleware chain around the
  transport, request options and the generic \<^verbatim>\<open>Do\<close>. Parsing and joining URLs, making a
  request and sending it (with \<^verbatim>\<open>net/http\<close>'s own redirects and timeout), and decoding JSON
  into the result type are parameters.
\<close>


section \<open>The client\<close>

record request =
  Method :: string
  URL :: string
  Header :: "string \<Rightarrow> string option"
  Body :: "string option"
  ContentLength :: int

record response =
  StatusCode :: int
  payload :: "string res"

type_synonym 'w roundTripper = "request \<Rightarrow> 'w \<Rightarrow> response res \<times> 'w"

type_synonym 'w middleware = "'w roundTripper \<Rightarrow> 'w roundTripper"

record ('w, 'u) client =
  baseURL :: 'u
  timeout :: duration
  transport :: "'w roundTripper option"
  middlewares :: "'w middleware list"
  maxIdleConns :: int
  maxIdleConnsPerHost :: int
  idleConnTimeout :: duration
  tlsHandshakeTimeout :: duration

datatype 'w client_option =
    WithTimeout duration
  | WithTransport "'w roundTripper"
  | WithMiddleware "'w middleware list"
  | WithMaxIdleConns int
  | WithMaxIdleConnsPerHost int
  | WithIdleConnTimeout duration
  | WithTLSHandshakeTimeout duration
  | WithLogger

fun apply_option :: "'w client_option \<Rightarrow> ('w, 'u) client \<Rightarrow> ('w, 'u) client" where
  "apply_option (WithTimeout d) c = c\<lparr>timeout := d\<rparr>"
| "apply_option (WithTransport t) c = c\<lparr>transport := Some t\<rparr>"
| "apply_option (WithMiddleware ms) c = c\<lparr>middlewares := middlewares c @ ms\<rparr>"
| "apply_option (WithMaxIdleConns n) c = c\<lparr>maxIdleConns := n\<rparr>"
| "apply_option (WithMaxIdleConnsPerHost n) c = c\<lparr>maxIdleConnsPerHost := n\<rparr>"
| "apply_option (WithIdleConnTimeout d) c = c\<lparr>idleConnTimeout := d\<rparr>"
| "apply_option (WithTLSHandshakeTimeout d) c = c\<lparr>tlsHandshakeTimeout := d\<rparr>"
| "apply_option WithLogger c = c"

text \<open>The transport New builds from the four limits when the caller gave none.\<close>

record transport_config =
  MaxIdleConns :: int
  MaxIdleConnsPerHost :: int
  IdleConnTimeout :: duration
  TLSHandshakeTimeout :: duration

text \<open>The loop over the middlewares, from the last one down to the first.\<close>

fun wrap_from :: "nat \<Rightarrow> 'w middleware list \<Rightarrow> 'w roundTripper \<Rightarrow> 'w roundTripper" where
  "wrap_from 0 ms t = t"
| "wrap_from (Suc i) ms t = wrap_from i ms ((ms ! i) t)"

definition New ::
  "(string \<Rightarrow> 'u res) \<Rightarrow> (transport_config \<Rightarrow> 'w roundTripper) \<Rightarrow> string \<Rightarrow> 'w client_option list \<Rightarrow>
   ('w, 'u) client res"
where
  "New parse std_transport url opts =
     (case parse url of
        Inl e \<Rightarrow> Inl (Wrap ''parsing base URL'' e)
      | Inr base \<Rightarrow>
          (let c = fold apply_option opts
                 \<lparr>baseURL = base, timeout = 30 * Second, transport = None, middlewares = [],
                  maxIdleConns = 100, maxIdleConnsPerHost = 10, idleConnTimeout = 90 * Second,
                  tlsHandshakeTimeout = 10 * Second\<rparr>;
               t = (case transport c of
                      Some t \<Rightarrow> t
                    | None \<Rightarrow> std_transport
                        \<lparr>MaxIdleConns = maxIdleConns c, MaxIdleConnsPerHost = maxIdleConnsPerHost c,
                         IdleConnTimeout = idleConnTimeout c, TLSHandshakeTimeout = tlsHandshakeTimeout c\<rparr>)
           in Inr (c\<lparr>transport := Some (if middlewares c \<noteq> [] then wrap_from (length (middlewares c)) (middlewares c) t
                                       else t)\<rparr>)))"


section \<open>Requests\<close>

text \<open>
  The canonical form of a header name: letters after a hyphen and at the start in upper
  case, the others in lower case.
\<close>

definition upper :: "char \<Rightarrow> char" where
  "upper c = (if 97 \<le> (of_char c :: nat) \<and> of_char c \<le> (122 :: nat) then char_of (of_char c - 32 :: nat) else c)"

definition lower :: "char \<Rightarrow> char" where
  "lower c = (if 65 \<le> (of_char c :: nat) \<and> of_char c \<le> (90 :: nat) then char_of (of_char c + 32 :: nat) else c)"

fun canonical :: "bool \<Rightarrow> string \<Rightarrow> string" where
  "canonical up [] = []"
| "canonical up (c # cs) = (if up then upper c else lower c) # canonical (c = CHR ''-'') cs"

definition header_set :: "string \<Rightarrow> string \<Rightarrow> request \<Rightarrow> request" where
  "header_set k v r = r\<lparr>Header := (Header r)(canonical True k \<mapsto> v)\<rparr>"

text \<open>A body whose reader has a length (bytes, strings readers) sets the content length.\<close>

datatype request_option = WithHeader string string | WithBody string "int option" string

fun apply_request :: "request_option \<Rightarrow> request \<Rightarrow> request" where
  "apply_request (WithHeader k v) r = header_set k v r"
| "apply_request (WithBody b len ct) r =
     (let r1 = r\<lparr>Body := Some b\<rparr>;
          r2 = (case len of Some n \<Rightarrow> r1\<lparr>ContentLength := n\<rparr> | None \<Rightarrow> r1)
      in if ct \<noteq> '''' then header_set ''Content-Type'' ct r2 else r2)"


section \<open>Do\<close>

text \<open>
  The parameters: \<open>joinPath\<close> is \<^verbatim>\<open>URL(p)\<close>, \<open>newRequest\<close> makes a request or rejects the method or URL,
  \<open>send\<close> is \<^verbatim>\<open>http.Client.Do\<close> over the client's transport and timeout, \<open>closeBody\<close> closes the response
  body, \<open>statusText\<close> is \<^verbatim>\<open>http.StatusText\<close>, \<open>decode\<close> is \<^verbatim>\<open>json.Unmarshal\<close> into a value.
  The result is the value returned and the error; both are set when decoding fails half way.
\<close>

record ('w, 'u) http_lib =
  joinPath :: "'u \<Rightarrow> string \<Rightarrow> string"
  newRequest :: "string \<Rightarrow> string \<Rightarrow> request res"
  send :: "duration \<Rightarrow> 'w roundTripper option \<Rightarrow> 'w roundTripper"
  closeBody :: "response \<Rightarrow> 'w \<Rightarrow> 'w"
  statusText :: "int \<Rightarrow> string"

definition Do ::
  "('w, 'u) http_lib \<Rightarrow> (string \<Rightarrow> 'a \<Rightarrow> 'a \<times> err option) \<Rightarrow> 'a \<Rightarrow> ('w, 'u) client \<Rightarrow> string \<Rightarrow> string \<Rightarrow>
   request_option list \<Rightarrow> 'w \<Rightarrow> ('a \<times> err option) \<times> 'w"
where
  "Do lib decode zero c meth p opts w =
     (case newRequest lib meth (joinPath lib (baseURL c) p) of
        Inl e \<Rightarrow> ((zero, Some (Wrap ''creating request'' e)), w)
      | Inr req \<Rightarrow>
          (case send lib (timeout c) (transport c) (fold apply_request opts req) w of
             (Inl e, w1) \<Rightarrow> ((zero, Some (Wrap ''sending request'' e)), w1)
           | (Inr resp, w1) \<Rightarrow>
               ((case payload resp of
                   Inl e \<Rightarrow> (zero, Some (Wrap ''reading response body'' e))
                 | Inr body \<Rightarrow>
                     if StatusCode resp < 200 \<or> StatusCode resp \<ge> 300
                     then (zero, Some (ErrNew (''unexpected status '' @ itoa (StatusCode resp) @ '' '' @
                                   statusText lib (StatusCode resp) @ '': '' @ body)))
                     else if body = [] then (zero, None)
                     else (case decode body zero of
                             (v, Some e) \<Rightarrow> (v, Some (Wrap ''decoding response'' e))
                           | (v, None) \<Rightarrow> (v, None))),
                closeBody lib resp w1)))"

lemma wrap_from_foldr: "i \<le> length ms \<Longrightarrow> wrap_from i ms t = foldr (\<lambda>m u. m u) (take i ms) t"
proof (induction i arbitrary: t)
  case (Suc i)
  then have "take (Suc i) ms = take i ms @ [ms ! i]" by (simp add: take_Suc_conv_app_nth)
  with Suc show ?case by simp
qed simp

lemma wrap_chain:
  "(if ms \<noteq> [] then wrap_from (length ms) ms t else t) = foldr (\<lambda>m u. m u) ms t"
  by (simp add: wrap_from_foldr)

lemma apply_options_middlewares:
  "middlewares (fold apply_option opts c) =
   middlewares c @ concat (map (\<lambda>x. case x of WithMiddleware ms \<Rightarrow> ms | _ \<Rightarrow> []) opts)"
proof (induction opts arbitrary: c)
  case (Cons x xs)
  then show ?case by (cases x) auto
qed simp

text \<open>The custom transport: the last one given.\<close>

definition pick_transport :: "'w roundTripper option \<Rightarrow> 'w client_option list \<Rightarrow> 'w roundTripper option" where
  "pick_transport t0 opts = fold (\<lambda>x t. case x of WithTransport u \<Rightarrow> Some u | _ \<Rightarrow> t) opts t0"

definition chosen :: "'w client_option list \<Rightarrow> 'w roundTripper option" where
  "chosen opts = pick_transport None opts"

lemma apply_options_transport: "transport (fold apply_option opts c) = pick_transport (transport c) opts"
proof (induction opts arbitrary: c)
  case (Cons x xs)
  then show ?case by (cases x) (auto simp: pick_transport_def)
qed (simp add: pick_transport_def)


section \<open>Properties\<close>

text \<open>
  The first middleware is the outermost: the transport New installs is the chain of all
  middlewares, in the order of their options, folded from the right around the custom
  transport or the one built from the limits.
\<close>
theorem client_middleware_order:
  assumes "New parse std url opts = Inr c"
  shows "transport c = Some (foldr (\<lambda>m t. m t)
      (concat (map (\<lambda>x. case x of WithMiddleware ms \<Rightarrow> ms | _ \<Rightarrow> []) opts))
      (case chosen opts of
         Some t \<Rightarrow> t
       | None \<Rightarrow> std \<lparr>MaxIdleConns = maxIdleConns c, MaxIdleConnsPerHost = maxIdleConnsPerHost c,
           IdleConnTimeout = idleConnTimeout c, TLSHandshakeTimeout = tlsHandshakeTimeout c\<rparr>))"
proof -
  from assms obtain u where u: "parse url = Inr u" by (auto simp: New_def split: sum.splits)
  define c0 where "c0 = fold apply_option opts \<lparr>baseURL = u, timeout = 30 * Second, transport = None,
      middlewares = [], maxIdleConns = 100, maxIdleConnsPerHost = 10, idleConnTimeout = 90 * Second,
      tlsHandshakeTimeout = 10 * Second\<rparr>"
  have m: "middlewares c0 = concat (map (\<lambda>x. case x of WithMiddleware ms \<Rightarrow> ms | _ \<Rightarrow> []) opts)"
    unfolding c0_def apply_options_middlewares by simp
  have t: "transport c0 = chosen opts" unfolding c0_def apply_options_transport chosen_def by simp
  have "c = c0\<lparr>transport := Some (if middlewares c0 \<noteq> []
      then wrap_from (length (middlewares c0)) (middlewares c0)
        (case transport c0 of Some t \<Rightarrow> t | None \<Rightarrow> std \<lparr>MaxIdleConns = maxIdleConns c0,
           MaxIdleConnsPerHost = maxIdleConnsPerHost c0, IdleConnTimeout = idleConnTimeout c0,
           TLSHandshakeTimeout = tlsHandshakeTimeout c0\<rparr>)
      else (case transport c0 of Some t \<Rightarrow> t | None \<Rightarrow> std \<lparr>MaxIdleConns = maxIdleConns c0,
           MaxIdleConnsPerHost = maxIdleConnsPerHost c0, IdleConnTimeout = idleConnTimeout c0,
           TLSHandshakeTimeout = tlsHandshakeTimeout c0\<rparr>))\<rparr>"
    using assms u unfolding New_def c0_def Let_def by simp
  then show ?thesis unfolding wrap_chain by (cases "chosen opts") (simp_all add: m t)
qed

theorem client_middleware_order_witness:
  "\<exists>c. New (\<lambda>u. Inr u) (\<lambda>cfg r w. (Inl (ErrNew ''no transport''), w)) ''http://h''
      [WithMiddleware [\<lambda>t r w. t r (w @ ''a'')], WithMiddleware [\<lambda>t r w. t r (w @ ''b'')],
       WithTransport (\<lambda>r w. (Inr \<lparr>StatusCode = 200, payload = Inr ''''\<rparr>, w @ ''t''))] = Inr c \<and>
    transport c = Some (\<lambda>r w. (Inr \<lparr>StatusCode = 200, payload = Inr ''''\<rparr>, w @ ''abt''))"
proof -
  obtain c where c: "New (\<lambda>u. Inr u) (\<lambda>cfg r w. (Inl (ErrNew ''no transport''), w)) ''http://h''
      [WithMiddleware [\<lambda>t r w. t r (w @ ''a'')], WithMiddleware [\<lambda>t r w. t r (w @ ''b'')],
       WithTransport (\<lambda>r w. (Inr \<lparr>StatusCode = 200, payload = Inr ''''\<rparr>, w @ ''t''))] = Inr c"
    by (simp add: New_def Let_def)
  from client_middleware_order [OF c] c show ?thesis by (simp add: chosen_def pick_transport_def)
qed

text \<open>
  C25. Do returns nil exactly when the request could be created and sent, the body of the response could be
  read, the status is 2xx and the body is empty or decodes; the value is then the zero value or the decoded
  one. In every other case it returns an error: that of creating or sending the request,
  wrapped and with the zero value, or one about the response. Whenever a response was received, its
  body is closed exactly once, on the error paths too, and otherwise nothing is closed.
\<close>
theorem client_do_outcome:
  assumes "Do lib decode zero c meth p opts w = ((v, e), w2)"
  shows "(e = None \<longleftrightarrow>
      (\<exists>req resp w1 b. newRequest lib meth (joinPath lib (baseURL c) p) = Inr req \<and>
         send lib (timeout c) (transport c) (fold apply_request opts req) w = (Inr resp, w1) \<and>
         payload resp = Inr b \<and> 200 \<le> StatusCode resp \<and> StatusCode resp < 300 \<and>
         (b = [] \<or> snd (decode b zero) = None))) \<and>
    (\<forall>x. newRequest lib meth (joinPath lib (baseURL c) p) = Inl x \<longrightarrow>
       v = zero \<and> e = Some (Wrap ''creating request'' x) \<and> w2 = w) \<and>
    (\<forall>req x w1. newRequest lib meth (joinPath lib (baseURL c) p) = Inr req \<and>
       send lib (timeout c) (transport c) (fold apply_request opts req) w = (Inl x, w1) \<longrightarrow>
       v = zero \<and> e = Some (Wrap ''sending request'' x) \<and> w2 = w1) \<and>
    (\<forall>req resp w1. newRequest lib meth (joinPath lib (baseURL c) p) = Inr req \<and>
       send lib (timeout c) (transport c) (fold apply_request opts req) w = (Inr resp, w1) \<longrightarrow>
       w2 = closeBody lib resp w1 \<and>
       (e = None \<longrightarrow> v = (case payload resp of Inr (x # xs) \<Rightarrow> fst (decode (x # xs) zero) | _ \<Rightarrow> zero)) \<and>
       (\<not> (200 \<le> StatusCode resp \<and> StatusCode resp < 300) \<longrightarrow> v = zero))"
proof (cases "newRequest lib meth (joinPath lib (baseURL c) p)")
  case (Inl x)
  with assms show ?thesis by (auto simp: Do_def)
next
  case (Inr req)
  obtain r w1 where r: "send lib (timeout c) (transport c) (fold apply_request opts req) w = (r, w1)" by fastforce
  show ?thesis
  proof (cases r)
    case (Inl x)
    with assms Inr r show ?thesis by (auto simp: Do_def)
  next
    case (Inr resp)
    with assms \<open>newRequest lib meth (joinPath lib (baseURL c) p) = Inr req\<close> r show ?thesis
      by (cases "payload resp"; cases "snd (decode (projr (payload resp)) zero)")
        (auto simp: Do_def split: if_splits prod.splits list.splits)
  qed
qed

definition demo_lib :: "(nat, string) http_lib" where
  "demo_lib = \<lparr>joinPath = (@), newRequest = (\<lambda>m u. Inr \<lparr>Method = m, URL = u, Header = Map.empty, Body = None,
     ContentLength = 0\<rparr>), send = (\<lambda>d t. the t), closeBody = (\<lambda>r w. w + 1), statusText = (\<lambda>n. ''Not Found'')\<rparr>"

definition demo_client :: "(nat, string) client" where
  "demo_client = \<lparr>baseURL = ''http://h'', timeout = 0,
     transport = Some (\<lambda>r w. (Inr \<lparr>StatusCode = 404, payload = Inr ''gone''\<rparr>, w)), middlewares = [],
     maxIdleConns = 0, maxIdleConnsPerHost = 0, idleConnTimeout = 0, tlsHandshakeTimeout = 0\<rparr>"

theorem client_do_outcome_witness:
  "snd (Do demo_lib (\<lambda>b z. (b, None)) [] demo_client ''GET'' ''/x'' [WithHeader ''a'' ''b''] 0) = 1 \<and>
   snd (fst (Do demo_lib (\<lambda>b z. (b, None)) [] demo_client ''GET'' ''/x'' [WithHeader ''a'' ''b''] 0)) \<noteq> None"
proof -
  obtain v e w2 where d: "Do demo_lib (\<lambda>b z. (b, None)) [] demo_client ''GET'' ''/x'' [WithHeader ''a'' ''b''] 0
      = ((v, e), w2)" by (metis prod.collapse)
  from client_do_outcome [OF d] d show ?thesis by (simp add: demo_client_def demo_lib_def)
qed

end
