(* ===== verification/Orders.thy ===== *)
theory Orders
  imports Prelude
begin

text \<open>
  The domain of the orders example, \<^verbatim>\<open>example/orders-service/order.go\<close>: orders, their
  validation, and the Store contract as a record of operations over a state. The contract's
  laws are the locale \<open>order_store\<close>, whose lemmas hold for every store; the stores of the
  example interpret it. A reading of the clock is an argument of the operation that makes it.
\<close>


section \<open>Orders\<close>

type_synonym Status = string

definition StatusPending :: Status where "StatusPending = ''PENDING''"
definition StatusConfirmed :: Status where "StatusConfirmed = ''CONFIRMED''"
definition StatusCanceled :: Status where "StatusCanceled = ''CANCELED''"

lemmas status_defs = StatusPending_def StatusConfirmed_def StatusCanceled_def

lemma status_distinct [simp]:
  "StatusPending \<noteq> StatusConfirmed" "StatusPending \<noteq> StatusCanceled" "StatusConfirmed \<noteq> StatusCanceled"
  "StatusConfirmed \<noteq> StatusPending" "StatusCanceled \<noteq> StatusPending" "StatusCanceled \<noteq> StatusConfirmed"
  by (simp_all add: status_defs)

record Item =
  SKU :: string
  Quantity :: int

definition MaxItemsPerOrder :: int where "MaxItemsPerOrder = 100"
definition MaxItemQuantity :: int where "MaxItemQuantity = 1000000"

fun validate_items :: "Item list \<Rightarrow> string \<times> bool" where
  "validate_items [] = ('''', True)"
| "validate_items (it # its) =
     (if SKU it = '''' then (''item sku is required'', False)
      else if Quantity it < 1 \<or> Quantity it > MaxItemQuantity
      then (''item quantity must be between 1 and '' @ itoa MaxItemQuantity, False)
      else validate_items its)"

definition ValidateNewOrder :: "string \<Rightarrow> Item list \<Rightarrow> string \<times> bool" where
  "ValidateNewOrder customerID items =
     (if customerID = '''' then (''customer_id is required'', False)
      else if items = [] then (''at least one item is required'', False)
      else if int (length items) > MaxItemsPerOrder
      then (''too many items (max '' @ itoa MaxItemsPerOrder @ '')'', False)
      else validate_items items)"

lemma validate_items_ok:
  "snd (validate_items its) \<longleftrightarrow>
   list_all (\<lambda>it. SKU it \<noteq> '''' \<and> 1 \<le> Quantity it \<and> Quantity it \<le> MaxItemQuantity) its"
  "fst (validate_items its) = '''' \<longleftrightarrow> snd (validate_items its)"
  by (induction its) auto

text \<open>ValidateNewOrder accepts exactly the orders with a customer, between 1 and 100 items, each
  with a SKU and a quantity between 1 and 1000000, and gives a reason exactly for the others.
\<close>
theorem order_validation:
  "(snd (ValidateNewOrder c its) \<longleftrightarrow>
      c \<noteq> '''' \<and> its \<noteq> [] \<and> length its \<le> 100 \<and>
      list_all (\<lambda>it. SKU it \<noteq> '''' \<and> 1 \<le> Quantity it \<and> Quantity it \<le> 1000000) its) \<and>
   (fst (ValidateNewOrder c its) = '''' \<longleftrightarrow> snd (ValidateNewOrder c its))"
  using validate_items_ok [of its]
  by (auto simp: ValidateNewOrder_def MaxItemsPerOrder_def MaxItemQuantity_def)

record Order =
  ID :: string
  CustomerID :: string
  Items :: "Item list"
  Status :: Status
  CreatedAt :: int
  UpdatedAt :: int

definition ErrOrderNotFound :: err where
  "ErrOrderNotFound = LibErr ''orders.ErrOrderNotFound'' ''order not found''"


section \<open>The Store contract\<close>

record 's Store =
  Create :: "int \<Rightarrow> string \<Rightarrow> Item list \<Rightarrow> ('s, Order) op"
  Get :: "string \<Rightarrow> ('s, Order) op"
  List :: "('s, Order list) op"
  ConfirmPending :: "int \<Rightarrow> string \<Rightarrow> ('s, bool) op"
  CancelStalePending :: "(string \<Rightarrow> int) \<Rightarrow> int \<Rightarrow> ('s, string list) op"

definition new_order :: "string \<Rightarrow> int \<Rightarrow> string \<Rightarrow> Item list \<Rightarrow> Order" where
  "new_order i now c its = \<lparr>ID = i, CustomerID = c, Items = its, Status = StatusPending,
     CreatedAt = now, UpdatedAt = now\<rparr>"

definition stale :: "int \<Rightarrow> Order \<Rightarrow> bool" where
  "stale cutoff x \<longleftrightarrow> Status x = StatusPending \<and> CreatedAt x < cutoff"

text \<open>The abstract state is a map from ids to orders; this is the effect of a sweep on it.\<close>

definition sweep :: "(string \<Rightarrow> int) \<Rightarrow> int \<Rightarrow> (string \<Rightarrow> Order option) \<Rightarrow> string \<Rightarrow> Order option" where
  "sweep now cutoff m = (\<lambda>i. map_option
     (\<lambda>x. if stale cutoff x then x\<lparr>Status := StatusCanceled, UpdatedAt := now i\<rparr> else x) (m i))"

text \<open>A call of the interface, and the transitions it reports: the ids it settled, and how.\<close>

datatype call =
    CCreate int string "Item list"
  | CGet string
  | CList
  | CConfirm int string
  | CCancel "string \<Rightarrow> int" int

fun exec :: "'s Store \<Rightarrow> call \<Rightarrow> 's \<Rightarrow> (string \<times> Status) list \<times> 's" where
  "exec st (CCreate now c its) s = ([], snd (Create st now c its s))"
| "exec st (CGet i) s = ([], snd (Get st i s))"
| "exec st CList s = ([], snd (List st s))"
| "exec st (CConfirm now i) s =
     (case ConfirmPending st now i s of
        (Inr True, t) \<Rightarrow> ([(i, StatusConfirmed)], t) | (_, t) \<Rightarrow> ([], t))"
| "exec st (CCancel now cutoff) s =
     (case CancelStalePending st now cutoff s of
        (Inr ids, t) \<Rightarrow> (map (\<lambda>i. (i, StatusCanceled)) ids, t) | (Inl e, t) \<Rightarrow> ([], t))"

fun run_calls :: "'s Store \<Rightarrow> call list \<Rightarrow> 's \<Rightarrow> (string \<times> Status) list \<times> 's" where
  "run_calls st [] s = ([], s)"
| "run_calls st (c # cs) s =
     (case exec st c s of (es, t) \<Rightarrow> (case run_calls st cs t of (fs, u) \<Rightarrow> (es @ fs, u)))"

text \<open>Orders are kept; what is settled stays as it is, and only status and update time ever change.\<close>

definition evolves :: "(string \<Rightarrow> Order option) \<Rightarrow> (string \<Rightarrow> Order option) \<Rightarrow> bool" where
  "evolves m m' \<longleftrightarrow> (\<forall>i x. m i = Some x \<longrightarrow>
     (\<exists>y. m' i = Some y \<and> CustomerID y = CustomerID x \<and> Items y = Items x \<and> CreatedAt y = CreatedAt x \<and>
        (Status x \<noteq> StatusPending \<longrightarrow> y = x)))"

lemma evolves_refl [simp]: "evolves m m"
  by (simp add: evolves_def)

lemma evolvesD:
  assumes "evolves m m'" and "m i = Some x"
  obtains y where "m' i = Some y" and "CustomerID y = CustomerID x" and "Items y = Items x"
    and "CreatedAt y = CreatedAt x" and "Status x \<noteq> StatusPending \<Longrightarrow> y = x"
  using assms unfolding evolves_def by blast

lemma evolves_settled: "evolves m m' \<Longrightarrow> m i = Some x \<Longrightarrow> Status x \<noteq> StatusPending \<Longrightarrow> m' i = Some x"
  by (erule (1) evolvesD) simp

lemma evolves_trans:
  assumes "evolves m n" and "evolves n p"
  shows "evolves m p"
  unfolding evolves_def
proof (intro allI impI)
  fix i x assume "m i = Some x"
  with assms(1) obtain y where y: "n i = Some y" "CustomerID y = CustomerID x" "Items y = Items x"
    "CreatedAt y = CreatedAt x" "Status x \<noteq> StatusPending \<Longrightarrow> y = x" by (rule evolvesD) blast
  from assms(2) y(1) obtain z where z: "p i = Some z" "CustomerID z = CustomerID y" "Items z = Items y"
    "CreatedAt z = CreatedAt y" "Status y \<noteq> StatusPending \<Longrightarrow> z = y" by (rule evolvesD) blast
  have "Status x \<noteq> StatusPending \<longrightarrow> z = x" using y(5) z(5) by fastforce
  then show "\<exists>z. p i = Some z \<and> CustomerID z = CustomerID x \<and> Items z = Items x \<and>
      CreatedAt z = CreatedAt x \<and> (Status x \<noteq> StatusPending \<longrightarrow> z = x)"
    using y(2-4) z(1-4) by auto
qed

lemma sweep_stale:
  "m i = Some x \<Longrightarrow> stale cutoff x \<Longrightarrow>
   sweep now cutoff m i = Some (x\<lparr>Status := StatusCanceled, UpdatedAt := now i\<rparr>)"
  by (simp add: sweep_def)

lemma stale_pending: "stale cutoff x \<Longrightarrow> Status x = StatusPending"
  by (simp add: stale_def)

lemma evolves_sweep: "evolves m (sweep now cutoff m)"
  by (auto simp: evolves_def sweep_def stale_def)

lemma evolves_insert: "m i = None \<Longrightarrow> evolves m (m(i \<mapsto> x))"
  by (auto simp: evolves_def)

lemma evolves_settle:
  "m i = Some x \<Longrightarrow> Status x = StatusPending \<Longrightarrow> evolves m (m(i \<mapsto> x\<lparr>Status := st, UpdatedAt := t\<rparr>))"
  by (auto simp: evolves_def)

text \<open>What a successful Create, ConfirmPending and CancelStalePending do to the orders.\<close>

definition created :: "(string \<Rightarrow> Order option) \<Rightarrow> int \<Rightarrow> string \<Rightarrow> Item list \<Rightarrow> Order \<Rightarrow> (string \<Rightarrow> Order option) \<Rightarrow> bool" where
  "created m now c its x m' \<longleftrightarrow> m (ID x) = None \<and> m' = m(ID x \<mapsto> x) \<and> x = new_order (ID x) now c its"

definition confirmed :: "(string \<Rightarrow> Order option) \<Rightarrow> int \<Rightarrow> string \<Rightarrow> (string \<Rightarrow> Order option) \<Rightarrow> bool" where
  "confirmed m now i m' \<longleftrightarrow> (\<exists>x. m i = Some x \<and> Status x = StatusPending \<and>
     m' = m(i \<mapsto> x\<lparr>Status := StatusConfirmed, UpdatedAt := now\<rparr>))"

definition swept :: "(string \<Rightarrow> Order option) \<Rightarrow> int \<Rightarrow> (string \<Rightarrow> Order option) \<Rightarrow> bool" where
  "swept m cutoff m' \<longleftrightarrow> (\<exists>ts. m' = sweep ts cutoff m)"

lemma evolves_effects:
  "created m now c its x m' \<Longrightarrow> evolves m m'" "confirmed m now i m' \<Longrightarrow> evolves m m'" "swept m cutoff m' \<Longrightarrow> evolves m m'"
  by (auto simp: created_def confirmed_def swept_def intro: evolves_insert evolves_settle evolves_sweep)

text \<open>
  The laws every store keeps: \<open>abs\<close> reads the orders out of the state, \<open>room n\<close> says that n more
  orders can be created. An operation that fails has had no effect or its whole effect: the
  answer of a database can get lost after it has committed.
\<close>

locale order_repo =
  fixes st :: "'s Store" and abs :: "'s \<Rightarrow> string \<Rightarrow> Order option" and inv :: "'s \<Rightarrow> bool"
    and room :: "nat \<Rightarrow> 's \<Rightarrow> bool"
  assumes room_less: "room (Suc n) s \<Longrightarrow> room n s"
    and create: "inv s \<Longrightarrow> room (Suc n) s \<Longrightarrow> Create st now c its s = (r, t) \<Longrightarrow>
      inv t \<and> room n t \<and>
      (case r of Inl e \<Rightarrow> abs t = abs s \<or> (\<exists>x. created (abs s) now c its x (abs t))
       | Inr x \<Rightarrow> created (abs s) now c its x (abs t))"
    and get: "inv s \<Longrightarrow> Get st i s = (q, t) \<Longrightarrow> inv t \<and> abs t = abs s \<and> (room n s \<longrightarrow> room n t)"
    and list: "inv s \<Longrightarrow> List st s = (l, t) \<Longrightarrow>
      inv t \<and> abs t = abs s \<and> (room n s \<longrightarrow> room n t) \<and>
      (case l of Inr xs \<Rightarrow> distinct (map ID xs) \<and> set xs = ran (abs s) | Inl e \<Rightarrow> True)"
    and confirm: "inv s \<Longrightarrow> ConfirmPending st now i s = (b, t) \<Longrightarrow>
      inv t \<and> (room n s \<longrightarrow> room n t) \<and>
      (case b of
         Inr True \<Rightarrow> confirmed (abs s) now i (abs t)
       | Inr False \<Rightarrow> abs t = abs s \<and> (\<exists>x. abs s i = Some x \<and> Status x \<noteq> StatusPending)
       | Inl e \<Rightarrow> (abs t = abs s \<or> confirmed (abs s) now i (abs t)) \<and> (errors_is e ErrOrderNotFound \<longrightarrow> abs s i = None))"
    and cancel: "inv s \<Longrightarrow> CancelStalePending st nows cutoff s = (k, t) \<Longrightarrow>
      inv t \<and> (room n s \<longrightarrow> room n t) \<and>
      (case k of
         Inr ids \<Rightarrow> swept (abs s) cutoff (abs t) \<and> distinct ids \<and>
           set ids = {i. \<exists>x. abs s i = Some x \<and> stale cutoff x}
       | Inl e \<Rightarrow> abs t = abs s \<or> swept (abs s) cutoff (abs t))"
begin

text \<open>What one call does: the reported transitions happened, and nothing else did.\<close>

lemma exec_effect:
  assumes "inv s" and "room (Suc n) s" and "exec st c s = (es, t)"
  shows "inv t \<and> room n t \<and> evolves (abs s) (abs t) \<and> distinct (map fst es) \<and>
    (\<forall>(i, k) \<in> set es. \<exists>x y. abs s i = Some x \<and> Status x = StatusPending \<and> abs t i = Some y \<and>
       Status y = k \<and> k \<noteq> StatusPending)"
proof (cases c)
  case (CCreate now cu its)
  obtain r where r: "Create st now cu its s = (r, t)" and es: "es = []"
    using assms(3) CCreate by (cases "Create st now cu its s") auto
  show ?thesis
    using create [OF assms(1,2) r] es by (cases r) (auto intro: evolves_effects)
next
  case (CGet i)
  obtain q where q: "Get st i s = (q, t)" and es: "es = []"
    using assms(3) CGet by (cases "Get st i s") auto
  show ?thesis using get [OF assms(1) q, of n] room_less [OF assms(2)] es by auto
next
  case CList
  obtain l where l: "List st s = (l, t)" and es: "es = []"
    using assms(3) CList by (cases "List st s") auto
  show ?thesis using list [OF assms(1) l, of n] room_less [OF assms(2)] es by auto
next
  case (CConfirm now i)
  obtain b where b: "ConfirmPending st now i s = (b, t)"
    and es: "es = (case b of Inr True \<Rightarrow> [(i, StatusConfirmed)] | _ \<Rightarrow> [])"
    using assms(3) CConfirm by (auto split: prod.splits sum.splits bool.splits)
  show ?thesis
    using confirm [OF assms(1) b, of n] room_less [OF assms(2)] es
    by (cases b) (auto intro: evolves_effects split: bool.splits, auto simp: confirmed_def)
next
  case (CCancel now cutoff)
  obtain k where k: "CancelStalePending st now cutoff s = (k, t)"
    and es: "es = (case k of Inr ids \<Rightarrow> map (\<lambda>i. (i, StatusCanceled)) ids | Inl e \<Rightarrow> [])"
    using assms(3) CCancel by (auto split: prod.splits sum.splits)
  show ?thesis
    using cancel [OF assms(1) k, of n] room_less [OF assms(2)] es
    by (cases k) (auto simp: comp_def swept_def evolves_sweep sweep_stale dest: stale_pending)
qed

text \<open>
  Over any sequence of calls an order is settled at most once, and its final status is the
  one that was reported: confirmation and expiry do not race.
\<close>

lemma run_effect:
  "inv s \<Longrightarrow> room (length cs) s \<Longrightarrow> run_calls st cs s = (es, t) \<Longrightarrow>
   inv t \<and> evolves (abs s) (abs t) \<and> distinct (map fst es) \<and>
   (\<forall>(i, k) \<in> set es. (\<exists>y. abs t i = Some y \<and> Status y = k \<and> k \<noteq> StatusPending) \<and>
      (\<forall>x. abs s i = Some x \<longrightarrow> Status x = StatusPending))"
proof (induction cs arbitrary: s es)
  case Nil
  then show ?case by simp
next
  case (Cons c cs)
  obtain ds u where c: "exec st c s = (ds, u)" by force
  obtain fs where r: "run_calls st cs u = (fs, t)" and es: "es = ds @ fs"
    using Cons.prems(3) c by (auto split: prod.splits)
  note one = exec_effect [OF Cons.prems(1) _ c, of "length cs"]
  from one Cons.prems(2) have iu: "inv u" and ru: "room (length cs) u" and su: "evolves (abs s) (abs u)"
    and dds: "distinct (map fst ds)"
    and first: "\<And>i k. (i, k) \<in> set ds \<Longrightarrow> \<exists>x y. abs s i = Some x \<and> Status x = StatusPending \<and>
      abs u i = Some y \<and> Status y = k \<and> k \<noteq> StatusPending" by auto
  from Cons.IH [OF iu ru r] have it: "inv t" and ut: "evolves (abs u) (abs t)" and dfs: "distinct (map fst fs)"
    and rest: "\<And>i k. (i, k) \<in> set fs \<Longrightarrow> (\<exists>y. abs t i = Some y \<and> Status y = k \<and> k \<noteq> StatusPending) \<and>
      (\<forall>x. abs u i = Some x \<longrightarrow> Status x = StatusPending)" by auto
  have disj: "fst ` set ds \<inter> fst ` set fs = {}"
  proof -
    have False if "(i, k) \<in> set ds" and "(i, l) \<in> set fs" for i k l
      using first [OF that(1)] rest [OF that(2)] by auto
    then show ?thesis by fastforce
  qed
  have "(\<exists>y. abs t i = Some y \<and> Status y = k \<and> k \<noteq> StatusPending) \<and>
      (\<forall>x. abs s i = Some x \<longrightarrow> Status x = StatusPending)" if "(i, k) \<in> set es" for i k
  proof (cases "(i, k) \<in> set ds")
    case True
    from first [OF this] obtain x y where "abs s i = Some x" "Status x = StatusPending"
      and y: "abs u i = Some y" "Status y = k" "k \<noteq> StatusPending" by blast
    moreover have "abs t i = Some y" using evolves_settled [OF ut y(1)] y by simp
    ultimately show ?thesis by simp
  next
    case False
    with that es have "(i, k) \<in> set fs" by simp
    note r = rest [OF this]
    have "Status x = StatusPending" if "abs s i = Some x" for x
      using r evolves_settled [OF su that] by blast
    with r show ?thesis by blast
  qed
  moreover have "distinct (map fst es)" using dds dfs disj es by simp
  ultimately show ?case using it evolves_trans [OF su ut] by blast
qed

end

text \<open>
  A store whose failed operations have no effect, such as one that lives in memory: an order is
  settled only by a call that reports it.
\<close>

locale order_store = order_repo +
  assumes create_fails: "inv s \<Longrightarrow> Create st now c its s = (Inl e, t) \<Longrightarrow> abs t = abs s"
    and confirm_fails: "inv s \<Longrightarrow> ConfirmPending st now i s = (Inl e, t) \<Longrightarrow> abs t = abs s"
    and cancel_fails: "inv s \<Longrightarrow> CancelStalePending st nows cutoff s = (Inl e, t) \<Longrightarrow> abs t = abs s"
begin

lemma exec_reports:
  assumes "inv s" and "room (Suc n) s" and "exec st c s = (es, t)" and "abs t i = Some y"
    and "Status y \<noteq> StatusPending"
  shows "abs s i = Some y \<or> (i, Status y) \<in> set es"
proof (cases c)
  case (CCreate now cu its)
  obtain r where r: "Create st now cu its s = (r, t)"
    using assms(3) CCreate by (cases "Create st now cu its s") auto
  show ?thesis
  proof (cases r)
    case (Inl e)
    then show ?thesis using create_fails [OF assms(1)] r assms(4) by simp
  next
    case (Inr x)
    then have "created (abs s) now cu its x (abs t)" using create [OF assms(1,2) r] by simp
    then show ?thesis
      using assms(4,5) by (auto simp: created_def new_order_def split: if_splits, metis Order.select_convs(4))
  qed
next
  case (CGet j)
  obtain q where q: "Get st j s = (q, t)" using assms(3) CGet by (cases "Get st j s") auto
  show ?thesis using get [OF assms(1) q, of n] assms(4) by auto
next
  case CList
  obtain l where l: "List st s = (l, t)" using assms(3) CList by (cases "List st s") auto
  show ?thesis using list [OF assms(1) l, of n] assms(4) by auto
next
  case (CConfirm now j)
  obtain b where b: "ConfirmPending st now j s = (b, t)"
    and es: "es = (case b of Inr True \<Rightarrow> [(j, StatusConfirmed)] | _ \<Rightarrow> [])"
    using assms(3) CConfirm by (auto split: prod.splits sum.splits bool.splits)
  show ?thesis
    using confirm [OF assms(1) b, of n] confirm_fails [OF assms(1)] b assms(4) es
    by (cases b) (auto simp: confirmed_def split: bool.splits if_splits)
next
  case (CCancel now cutoff)
  obtain k where k: "CancelStalePending st now cutoff s = (k, t)"
    and es: "es = (case k of Inr ids \<Rightarrow> map (\<lambda>i. (i, StatusCanceled)) ids | Inl e \<Rightarrow> [])"
    using assms(3) CCancel by (auto split: prod.splits sum.splits)
  show ?thesis
    using cancel [OF assms(1) k, of n] cancel_fails [OF assms(1)] k assms(4) es
    by (cases k) (auto simp: swept_def sweep_def split: if_splits)
qed

lemma run_reports:
  "inv s \<Longrightarrow> room (length cs) s \<Longrightarrow> run_calls st cs s = (es, t) \<Longrightarrow> abs t i = Some y \<Longrightarrow>
   Status y \<noteq> StatusPending \<Longrightarrow> abs s i = Some y \<or> (i, Status y) \<in> set es"
proof (induction cs arbitrary: s es)
  case Nil
  then show ?case by simp
next
  case (Cons c cs)
  obtain ds u where c: "exec st c s = (ds, u)" by force
  obtain fs where r: "run_calls st cs u = (fs, t)" and es: "es = ds @ fs"
    using Cons.prems(3) c by (auto split: prod.splits)
  from Cons.prems(2) have rm: "room (Suc (length cs)) s" by simp
  from exec_effect [OF Cons.prems(1) rm c] have "inv u" "room (length cs) u" by simp_all
  from Cons.IH [OF this r Cons.prems(4,5)] exec_reports [OF Cons.prems(1) rm c _ Cons.prems(5)]
  show ?case using es by auto
qed

end

text \<open>A store whose Get answers with the current order.\<close>

locale order_reads = order_repo +
  assumes get_exact: "inv s \<Longrightarrow> Get st i s = (q, t) \<Longrightarrow>
      (case q of Inr x \<Rightarrow> abs s i = Some x | Inl e \<Rightarrow> errors_is e ErrOrderNotFound \<longrightarrow> abs s i = None)"

end
