(* ===== verification/MemoryStore.thy ===== *)
theory MemoryStore
  imports Orders "HOL-Library.AList" "HOL-Library.Word"
begin

text \<open>
  The in-memory store, \<^verbatim>\<open>example/orders-service/store_memory.go\<close>. The map of orders is an
  association list; every method holds the mutex, so a method is one step. The order in
  which a Go \<^verbatim>\<open>range\<close> visits a map is unspecified: each iteration takes the next list of
  choices from the state, and every permutation is the result of some choices. The id
  counter is a 64-bit word. Only the id of an order, its insertion and the copy returned by
  Create are taken as one step although the code allocates the id before it locks and copies
  the order after it unlocks.
\<close>


section \<open>Iteration order\<close>

fun range_order :: "nat list \<Rightarrow> 'a list \<Rightarrow> 'a list" where
  "range_order [] xs = xs"
| "range_order (c # cs) [] = []"
| "range_order (c # cs) (x # xs) =
     (let k = c mod Suc (length xs) in
        (x # xs) ! k # range_order cs (take k (x # xs) @ drop (Suc k) (x # xs)))"

lemma mset_range_order [simp]: "mset (range_order cs xs) = mset xs"
proof (induction cs xs rule: range_order.induct)
  case (3 c cs x xs)
  define k where "k = c mod Suc (length xs)"
  have k: "k < length (x # xs)" by (simp add: k_def)
  have "mset (x # xs) = mset (take k (x # xs) @ (x # xs) ! k # drop (Suc k) (x # xs))"
    by (simp only: id_take_nth_drop [OF k, symmetric])
  with 3 [OF refl, folded k_def] show ?case by (simp add: Let_def k_def [symmetric])
qed simp_all

lemma set_range_order [simp]: "set (range_order cs xs) = set xs"
  by (metis mset_range_order set_mset_mset)

lemma distinct_range_order [simp]: "distinct (range_order cs xs) = distinct xs"
  by (metis mset_range_order mset_eq_imp_distinct_iff)

text \<open>Every permutation is a possible iteration order.\<close>

lemma range_order_complete: "mset ys = mset xs \<Longrightarrow> \<exists>cs. range_order cs xs = ys"
proof (induction ys arbitrary: xs)
  case Nil
  then show ?case by (intro exI [of _ "[]"]) simp
next
  case (Cons y ys)
  from Cons.prems have "y \<in> set xs" by (metis list.set_intros(1) set_mset_mset)
  then obtain k where k: "k < length xs" "xs ! k = y" by (auto simp: in_set_conv_nth)
  obtain z zs where xs: "xs = z # zs" using k by (cases xs) auto
  have "mset xs = mset (take k xs @ xs ! k # drop (Suc k) xs)"
    using id_take_nth_drop [OF k(1)] by simp
  with Cons.prems k(2) have "mset ys = mset (take k xs @ drop (Suc k) xs)" by simp
  from Cons.IH [OF this] obtain cs where "range_order cs (take k xs @ drop (Suc k) xs) = ys" by blast
  then have "range_order (k # cs) xs = y # ys" using k by (simp add: xs Let_def)
  then show ?case ..
qed


section \<open>The store\<close>

record InMemoryStore =
  orders :: "(string \<times> Order) list"
  nextID :: "64 word"
  choices :: "nat list list"

definition NewInMemoryStore :: "nat list list \<Rightarrow> InMemoryStore" where
  "NewInMemoryStore chs = \<lparr>orders = [], nextID = 0, choices = chs\<rparr>"

definition order_id :: "64 word \<Rightarrow> string" where
  "order_id n = ''ord_'' @ show_nat (unat n)"

definition mem_create :: "int \<Rightarrow> string \<Rightarrow> Item list \<Rightarrow> (InMemoryStore, Order) op" where
  "mem_create now customerID items s =
     (let n = nextID s + 1; x = new_order (order_id n) now customerID items in
        (Inr x, s\<lparr>nextID := n, orders := AList.update (order_id n) x (orders s)\<rparr>))"

definition mem_get :: "string \<Rightarrow> (InMemoryStore, Order) op" where
  "mem_get i s = (case map_of (orders s) i of
     None \<Rightarrow> (Inl ErrOrderNotFound, s)
   | Some x \<Rightarrow> (Inr x, s))"

definition next_choice :: "InMemoryStore \<Rightarrow> nat list \<times> InMemoryStore" where
  "next_choice s = (case choices s of
     [] \<Rightarrow> ([], s)
   | c # cs \<Rightarrow> (c, s\<lparr>choices := cs\<rparr>))"

definition mem_list :: "(InMemoryStore, Order list) op" where
  "mem_list s = (case next_choice s of (c, t) \<Rightarrow> (Inr (map snd (range_order c (orders t))), t))"

definition mem_confirm :: "int \<Rightarrow> string \<Rightarrow> (InMemoryStore, bool) op" where
  "mem_confirm now i s = (case map_of (orders s) i of
     None \<Rightarrow> (Inl ErrOrderNotFound, s)
   | Some x \<Rightarrow>
       if Status x \<noteq> StatusPending then (Inr False, s)
       else (Inr True, s\<lparr>orders :=
         AList.update i (x\<lparr>Status := StatusConfirmed, UpdatedAt := now\<rparr>) (orders s)\<rparr>))"

fun cancel_loop ::
  "(string \<Rightarrow> int) \<Rightarrow> int \<Rightarrow> string list \<Rightarrow> (string \<times> Order) list \<Rightarrow> string list \<times> (string \<times> Order) list" where
  "cancel_loop now cutoff [] m = ([], m)"
| "cancel_loop now cutoff (i # ks) m = (case map_of m i of
     None \<Rightarrow> cancel_loop now cutoff ks m
   | Some x \<Rightarrow>
       if Status x = StatusPending \<and> CreatedAt x < cutoff
       then (case cancel_loop now cutoff ks
                   (AList.update i (x\<lparr>Status := StatusCanceled, UpdatedAt := now i\<rparr>) m) of
               (ids, m') \<Rightarrow> (i # ids, m'))
       else cancel_loop now cutoff ks m)"

definition mem_cancel :: "(string \<Rightarrow> int) \<Rightarrow> int \<Rightarrow> (InMemoryStore, string list) op" where
  "mem_cancel now cutoff s = (case next_choice s of (c, t) \<Rightarrow>
     (case cancel_loop now cutoff (range_order c (map fst (orders t))) (orders t) of
        (ids, m) \<Rightarrow> (Inr ids, t\<lparr>orders := m\<rparr>)))"

definition mem_store :: "InMemoryStore Store" where
  "mem_store = \<lparr>Create = mem_create, Get = mem_get, List = mem_list,
     ConfirmPending = mem_confirm, CancelStalePending = mem_cancel\<rparr>"

lemma mem_store_simps [simp]:
  "Create mem_store = mem_create" "Get mem_store = mem_get" "List mem_store = mem_list"
  "ConfirmPending mem_store = mem_confirm" "CancelStalePending mem_store = mem_cancel"
  by (simp_all add: mem_store_def)


section \<open>The in-memory store meets the contract\<close>

definition mem_abs :: "InMemoryStore \<Rightarrow> string \<Rightarrow> Order option" where
  "mem_abs s = map_of (orders s)"

text \<open>Ids are the keys, keys are distinct, and only ids up to the counter have been given out.\<close>

definition mem_inv :: "InMemoryStore \<Rightarrow> bool" where
  "mem_inv s \<longleftrightarrow> distinct (map fst (orders s)) \<and> (\<forall>(i, x) \<in> set (orders s). ID x = i) \<and>
     (\<forall>i \<in> fst ` set (orders s). \<exists>k \<le> nextID s. i = order_id k)"

definition mem_room :: "nat \<Rightarrow> InMemoryStore \<Rightarrow> bool" where
  "mem_room n s \<longleftrightarrow> unat (nextID s) + n < 2 ^ 64"

lemma order_id_inject [simp]: "order_id a = order_id b \<longleftrightarrow> a = b"
  by (simp add: order_id_def word_unat_eq_iff)

lemma next_choice_frame [simp]:
  "orders (snd (next_choice s)) = orders s" "nextID (snd (next_choice s)) = nextID s"
  by (simp_all add: next_choice_def split: list.split)

lemma next_id:
  assumes "mem_room (Suc n) s"
  shows "unat (nextID s + 1) = unat (nextID s) + 1" and "nextID s < nextID s + 1"
proof -
  have "unat (nextID s) + unat (1 :: 64 word) < 2 ^ 64" using assms by (simp add: mem_room_def)
  then show *: "unat (nextID s + 1) = unat (nextID s) + 1"
    by (simp add: unat_word_ariths)
  show "nextID s < nextID s + 1" unfolding word_less_nat_alt * by simp
qed

lemma fresh_id:
  assumes "mem_inv s" and "mem_room (Suc n) s"
  shows "map_of (orders s) (order_id (nextID s + 1)) = None"
proof (rule ccontr)
  assume "map_of (orders s) (order_id (nextID s + 1)) \<noteq> None"
  then have "order_id (nextID s + 1) \<in> fst ` set (orders s)" by (simp add: map_of_eq_None_iff)
  with assms(1) obtain k where "k \<le> nextID s" and "order_id (nextID s + 1) = order_id k"
    unfolding mem_inv_def by blast
  with next_id(2) [OF assms(2)] show False by simp
qed

lemma update_keep_inv:
  assumes "mem_inv s" and "map_of (orders s) i = Some x" and "ID y = ID x"
  shows "mem_inv (s\<lparr>orders := AList.update i y (orders s)\<rparr>)"
proof -
  have i: "i \<in> fst ` set (orders s)" and idx: "ID x = i"
    using assms(1,2) by (force simp: mem_inv_def dest: map_of_SomeD)+
  have keys: "map fst (AList.update i y (orders s)) = map fst (orders s)"
    using i by (simp add: update_keys)
  have "ID z = j" if "(j, z) \<in> set (AList.update i y (orders s))" for j z
  proof -
    have "map_of (AList.update i y (orders s)) j = Some z"
      using that keys assms(1) by (simp add: mem_inv_def)
    then show ?thesis
      using assms(1,3) idx by (auto simp: mem_inv_def update_Some_unfold dest: map_of_SomeD)
  qed
  moreover have "fst ` set (AList.update i y (orders s)) = fst ` set (orders s)"
    using keys by (metis set_map)
  ultimately show ?thesis using assms(1) keys by (auto simp: mem_inv_def)
qed

text \<open>The cancellation loop, whatever the iteration order.\<close>

lemma cancel_loop_spec:
  assumes "cancel_loop now cutoff ks m = (ids, m')" and "distinct ks" and "set ks \<subseteq> fst ` set m"
  shows "map_of m' = (\<lambda>i. if i \<in> set ks then sweep now cutoff (map_of m) i else map_of m i) \<and>
    ids = filter (\<lambda>i. \<exists>x. map_of m i = Some x \<and> stale cutoff x) ks \<and> map fst m' = map fst m"
  using assms
proof (induction ks arbitrary: m ids)
  case Nil
  then show ?case by auto
next
  case (Cons i ks)
  from Cons.prems(3) obtain x where x: "map_of m i = Some x"
    by (cases "map_of m i") (auto simp: map_of_eq_None_iff)
  show ?case
  proof (cases "stale cutoff x")
    case False
    then have loop: "cancel_loop now cutoff ks m = (ids, m')"
      using Cons.prems(1) x by (simp add: stale_def split: if_splits)
    have "sweep now cutoff (map_of m) i = map_of m i" using x False by (simp add: sweep_def)
    then show ?thesis using Cons.IH [OF loop] Cons.prems(2,3) x False by auto
  next
    case True
    define y where "y = x\<lparr>Status := StatusCanceled, UpdatedAt := now i\<rparr>"
    from Cons.prems(1) x True obtain js
      where loop: "cancel_loop now cutoff ks (AList.update i y m) = (js, m')" and ids: "ids = i # js"
      by (auto simp: stale_def y_def split: prod.splits)
    have keys: "map fst (AList.update i y m) = map fst m"
      using Cons.prems(3) by (auto simp: update_keys)
    then have "fst ` set (AList.update i y m) = fst ` set m" by (metis set_map)
    with Cons.IH [OF loop] Cons.prems(2,3) have
      eq: "map_of m' = (\<lambda>j. if j \<in> set ks then sweep now cutoff (map_of (AList.update i y m)) j
             else map_of (AList.update i y m) j)"
      and js: "js = filter (\<lambda>j. \<exists>x. map_of (AList.update i y m) j = Some x \<and> stale cutoff x) ks"
      and k': "map fst m' = map fst m" using keys by auto
    have "map_of m' j = (if j \<in> set (i # ks) then sweep now cutoff (map_of m) j else map_of m j)" for j
      using Cons.prems(2) x True by (auto simp: eq update_conv' sweep_def y_def)
    moreover have "js = filter (\<lambda>j. \<exists>x. map_of m j = Some x \<and> stale cutoff x) ks"
      unfolding js using Cons.prems(2) by (intro filter_cong) (auto simp: update_conv')
    ultimately show ?thesis using ids k' x True by auto
  qed
qed

lemma ran_map_of: "distinct (map fst m) \<Longrightarrow> set (map snd m) = ran (map_of m)"
  by (force simp: ran_def)

lemma mem_list_distinct: "mem_inv s \<Longrightarrow> distinct (map ID (map snd (orders s)))"
proof -
  assume "mem_inv s"
  then have "map (ID \<circ> snd) (orders s) = map fst (orders s)" and "distinct (map fst (orders s))"
    by (auto simp: mem_inv_def)
  then show ?thesis by (metis map_map)
qed

lemma update_fresh: "k \<notin> fst ` set m \<Longrightarrow> AList.update k v m = m @ [(k, v)]"
  by (induction m) auto

lemma mem_create_law:
  assumes "mem_inv s" and "mem_room (Suc n) s" and "mem_create now c its s = (r, t)"
  shows "mem_inv t \<and> mem_room n t \<and>
    (case r of Inl e \<Rightarrow> mem_abs t = mem_abs s
     | Inr x \<Rightarrow> mem_abs s (ID x) = None \<and> mem_abs t = (mem_abs s)(ID x \<mapsto> x) \<and> x = new_order (ID x) now c its)"
proof -
  let ?n = "nextID s + 1"
  let ?x = "new_order (order_id ?n) now c its"
  have r: "r = Inr ?x" and t: "t = s\<lparr>nextID := ?n, orders := AList.update (order_id ?n) ?x (orders s)\<rparr>"
    using assms(3) by (auto simp: mem_create_def Let_def)
  note fresh = fresh_id [OF assms(1,2)]
  have app: "AList.update (order_id ?n) ?x (orders s) = orders s @ [(order_id ?n, ?x)]"
    using fresh by (simp add: update_fresh map_of_eq_None_iff)
  have "mem_room n t" using assms(2) next_id [OF assms(2)] by (simp add: mem_room_def t)
  moreover have "orders t = orders s @ [(order_id ?n, ?x)]" and "nextID t = ?n" and "ID ?x = order_id ?n"
    by (simp_all add: t app) (simp add: new_order_def)
  then have "mem_inv t"
    using assms(1) fresh next_id(2) [OF assms(2)]
    by (auto simp: mem_inv_def map_of_eq_None_iff intro: order.trans [OF _ less_imp_le])
  ultimately show ?thesis
    using fresh by (simp add: r t mem_abs_def update_conv' new_order_def)
qed

lemma mem_confirm_law:
  assumes "mem_inv s" and "mem_confirm now i s = (b, t)"
  shows "mem_inv t \<and> nextID t = nextID s \<and>
    (case b of
       Inr True \<Rightarrow> \<exists>x. mem_abs s i = Some x \<and> Status x = StatusPending \<and>
         mem_abs t = (mem_abs s)(i \<mapsto> x\<lparr>Status := StatusConfirmed, UpdatedAt := now\<rparr>)
     | Inr False \<Rightarrow> mem_abs t = mem_abs s \<and> (\<exists>x. mem_abs s i = Some x \<and> Status x \<noteq> StatusPending)
     | Inl e \<Rightarrow> mem_abs t = mem_abs s \<and> (errors_is e ErrOrderNotFound \<longrightarrow> mem_abs s i = None))"
proof (cases "map_of (orders s) i")
  case None
  then show ?thesis using assms by (auto simp: mem_confirm_def mem_abs_def)
next
  case (Some x)
  show ?thesis
  proof (cases "Status x = StatusPending")
    case True
    let ?y = "x\<lparr>Status := StatusConfirmed, UpdatedAt := now\<rparr>"
    have "b = Inr True" and t: "t = s\<lparr>orders := AList.update i ?y (orders s)\<rparr>"
      using assms(2) Some True by (simp_all add: mem_confirm_def)
    moreover have "mem_inv t" unfolding t using update_keep_inv [OF assms(1) Some, of ?y] by simp
    ultimately show ?thesis using Some True by (simp add: mem_abs_def update_conv')
  next
    case False
    then show ?thesis using assms Some by (auto simp: mem_confirm_def mem_abs_def)
  qed
qed

lemma mem_inv_cong:
  "mem_inv s \<Longrightarrow> map fst (orders t) = map fst (orders s) \<Longrightarrow> nextID t = nextID s \<Longrightarrow>
   (\<And>i x. map_of (orders t) i = Some x \<Longrightarrow> \<exists>y. map_of (orders s) i = Some y \<and> ID y = ID x) \<Longrightarrow> mem_inv t"
proof -
  assume inv: "mem_inv s" and keys: "map fst (orders t) = map fst (orders s)" "nextID t = nextID s"
    and ids: "\<And>i x. map_of (orders t) i = Some x \<Longrightarrow> \<exists>y. map_of (orders s) i = Some y \<and> ID y = ID x"
  have d: "distinct (map fst (orders t))" using inv keys by (simp add: mem_inv_def)
  have "ID x = i" if "(i, x) \<in> set (orders t)" for i x
  proof -
    from that d have "map_of (orders t) i = Some x" by simp
    from ids [OF this] obtain y where "map_of (orders s) i = Some y" and "ID y = ID x" by blast
    with inv show ?thesis by (auto simp: mem_inv_def dest: map_of_SomeD)
  qed
  moreover have "fst ` set (orders t) = fst ` set (orders s)" using keys(1) by (metis set_map)
  ultimately show "mem_inv t" using inv d keys by (auto simp: mem_inv_def)
qed

lemma mem_cancel_law:
  assumes "mem_inv s" and "mem_cancel nows cutoff s = (k, t)"
  shows "mem_inv t \<and> nextID t = nextID s \<and>
    (\<exists>ids. k = Inr ids \<and> mem_abs t = sweep nows cutoff (mem_abs s) \<and> distinct ids \<and>
       set ids = {i. \<exists>x. mem_abs s i = Some x \<and> stale cutoff x})"
proof -
  obtain c u where cu: "next_choice s = (c, u)" by force
  then have u: "orders u = orders s" "nextID u = nextID s"
    using next_choice_frame [of s] by simp_all
  let ?ks = "range_order c (map fst (orders s))"
  obtain ids m where loop: "cancel_loop nows cutoff ?ks (orders s) = (ids, m)" by force
  have k: "k = Inr ids" and t: "t = u\<lparr>orders := m\<rparr>"
    using assms(2) cu loop u by (auto simp: mem_cancel_def)
  have d: "distinct ?ks" using assms(1) by (simp add: mem_inv_def)
  from cancel_loop_spec [OF loop d]
  have m: "map_of m = (\<lambda>i. if i \<in> fst ` set (orders s) then sweep nows cutoff (map_of (orders s)) i
        else map_of (orders s) i)"
    and ids: "ids = filter (\<lambda>i. \<exists>x. map_of (orders s) i = Some x \<and> stale cutoff x) ?ks"
    and keys: "map fst m = map fst (orders s)" by auto
  have sw: "map_of m = sweep nows cutoff (map_of (orders s))"
    unfolding m by (auto simp: sweep_def fun_eq_iff iff: map_of_eq_None_iff [THEN iffD2])
  have "mem_inv t"
    by (rule mem_inv_cong [OF assms(1)])
       (auto simp: t u keys sw sweep_def split: if_splits)
  moreover have "set ids = {i. \<exists>x. map_of (orders s) i = Some x \<and> stale cutoff x}"
    unfolding ids by (force dest: map_of_SomeD)
  ultimately show ?thesis using k d sw by (simp add: t u mem_abs_def ids)
qed

interpretation mem_repo: order_repo mem_store mem_abs mem_inv mem_room
proof (unfold_locales, goal_cases)
  case (1 n s)
  then show ?case by (simp add: mem_room_def)
next
  case (2 s n now c its r t)
  then show ?case using mem_create_law [of s n now c its r t] by (simp add: created_def split: sum.splits)
next
  case (3 s i q t n)
  then show ?case by (auto simp: mem_get_def mem_abs_def split: option.splits)
next
  case (4 s l t n)
  then obtain c where c: "next_choice s = (c, t)" and l: "l = Inr (map snd (range_order c (orders t)))"
    by (auto simp: mem_list_def split: prod.splits)
  have t: "orders t = orders s" "nextID t = nextID s"
    using next_choice_frame [of s] c by simp_all
  have "mset (map ID (map snd (range_order c (orders s)))) = mset (map ID (map snd (orders s)))"
    by (simp flip: mset_map) (simp add: mset_map)
  then have "distinct (map ID (map snd (range_order c (orders s))))"
    using mem_list_distinct [OF 4(1)] mset_eq_imp_distinct_iff by blast
  then show ?case
    using 4(1) ran_map_of [of "orders s"]
    by (simp add: l t mem_inv_def mem_room_def mem_abs_def)
next
  case (5 s now i b t n)
  then show ?case
    using mem_confirm_law [of s now i b t] by (auto simp: mem_room_def confirmed_def split: sum.splits bool.splits)
next
  case (6 s nows cutoff k t n)
  then show ?case using mem_cancel_law [of s nows cutoff k t] by (auto simp: mem_room_def swept_def)
qed

interpretation mem: order_store mem_store mem_abs mem_inv mem_room
  by unfold_locales
    (auto simp: mem_create_def mem_confirm_def mem_cancel_def Let_def split: option.splits if_splits prod.splits)

interpretation mem_get: order_reads mem_store mem_abs mem_inv mem_room
  by unfold_locales (auto simp: mem_get_def mem_abs_def split: option.splits)

lemma mem_new:
  assumes "length cs < 2 ^ 64"
  shows "mem_inv (NewInMemoryStore chs)" "mem_room (length cs) (NewInMemoryStore chs)"
    "mem_abs (NewInMemoryStore chs) = Map.empty"
  using assms by (simp_all add: NewInMemoryStore_def mem_inv_def mem_room_def mem_abs_def)

lemma settled_exactly:
  assumes "length cs < 2 ^ 64" and "run_calls mem_store cs (NewInMemoryStore chs) = (es, t)"
  shows "distinct (map fst es) \<and>
    (\<forall>i k. (i, k) \<in> set es \<longleftrightarrow>
       (\<exists>x. map_of (orders t) i = Some x \<and> Status x = k \<and> k \<noteq> StatusPending))"
proof -
  note new = mem_new [OF assms(1), of chs]
  from mem_repo.run_effect [OF new(1,2) assms(2)] mem.run_reports [OF new(1,2) assms(2)] new(3)
  show ?thesis by (fastforce simp: mem_abs_def)
qed

text \<open>C24.
  Confirmation and expiry never race. Over any sequence of calls on a fresh in-memory store
  (the id counter not wrapping around), every order is reported as settled at most once; its
  final status is the reported one; and no order is settled without having been reported.
  This holds for every order in which the map iterations visit the orders.
\<close>
theorem orders_settled_once:
  assumes "length cs < 2 ^ 64" and "run_calls mem_store cs (NewInMemoryStore chs) = (es, t)"
  shows "distinct (map fst es) \<and>
    (\<forall>i k. (i, k) \<in> set es \<longleftrightarrow>
       (\<exists>x. map_of (orders t) i = Some x \<and> Status x = k \<and> k \<noteq> StatusPending))"
  using settled_exactly [OF assms] .

theorem orders_settled_once_witness:
  "\<exists>t. run_calls mem_store
      [CCreate 1 ''ann'' [], CCreate 2 ''bob'' [], CConfirm 3 ''ord_1'', CCancel (\<lambda>_. 9) 5, CConfirm 10 ''ord_2'']
      (NewInMemoryStore [[1]]) = ([(''ord_1'', StatusConfirmed), (''ord_2'', StatusCanceled)], t) \<and>
    (\<exists>x. map_of (orders t) ''ord_2'' = Some x \<and> Status x = StatusCanceled)"
proof -
  let ?cs = "[CCreate 1 ''ann'' [], CCreate 2 ''bob'' [], CConfirm 3 ''ord_1'', CCancel (\<lambda>_. 9) 5, CConfirm 10 ''ord_2'']"
  let ?es = "[(''ord_1'', StatusConfirmed), (''ord_2'', StatusCanceled)]"
  have ids: "order_id 1 = ''ord_1''" "order_id 2 = ''ord_2''" by code_simp+
  obtain t where t: "run_calls mem_store ?cs (NewInMemoryStore [[1]]) = (?es, t)"
    by (simp add: NewInMemoryStore_def mem_create_def mem_confirm_def mem_cancel_def next_choice_def
        ids new_order_def Let_def status_defs)
  from orders_settled_once [OF _ t]
  have "\<exists>x. map_of (orders t) ''ord_2'' = Some x \<and> Status x = StatusCanceled" by auto
  with t show ?thesis by blast
qed

end
