(* ===== verification/Events.thy ===== *)
theory Events
  imports MemoryStore
begin

text \<open>
  Domain events, \<^verbatim>\<open>example/orders-service/events.go\<close>: PublishingStore wraps a store and publishes an
  event after each successful mutation, whatever the publisher answers. The publisher and the
  clock read for the event are parameters over a world; the ghost field \<open>sent\<close> lists the calls
  of Publish. The decorator keeps every contract of the store it wraps.
\<close>


section \<open>Events\<close>

definition OrdersEventsTopic :: string where "OrdersEventsTopic = ''orders.events''"

definition EventCreated :: string where "EventCreated = ''created''"
definition EventConfirmed :: string where "EventConfirmed = ''confirmed''"
definition EventCanceled :: string where "EventCanceled = ''canceled''"

lemmas event_defs = EventCreated_def EventConfirmed_def EventCanceled_def

record OrderEvent =
  Type :: string
  OrderID :: string
  EvCustomer :: string
  EvStatus :: string
  At :: int

record 'w EventPublisher =
  Publish :: "OrderEvent \<Rightarrow> 'w \<Rightarrow> err option \<times> 'w"
  Now :: "'w \<Rightarrow> int \<times> 'w"

record ('s, 'w) publishing =
  inner :: 's
  broker :: 'w
  sent :: "OrderEvent list"


section \<open>PublishingStore\<close>

text \<open>A publish error is only logged.\<close>

definition emit :: "'w EventPublisher \<Rightarrow> string \<Rightarrow> string \<Rightarrow> string \<Rightarrow> string \<Rightarrow> ('s, 'w) publishing \<Rightarrow> ('s, 'w) publishing" where
  "emit P ty i cu status s =
     (case Now P (broker s) of
        (at, w) \<Rightarrow>
          (let ev = \<lparr>Type = ty, OrderID = i, EvCustomer = cu, EvStatus = status, At = at\<rparr>
           in case Publish P ev w of (r, w') \<Rightarrow> s\<lparr>broker := w', sent := sent s @ [ev]\<rparr>))"

definition pub_create :: "'s Store \<Rightarrow> 'w EventPublisher \<Rightarrow> int \<Rightarrow> string \<Rightarrow> Item list \<Rightarrow> (('s, 'w) publishing, Order) op" where
  "pub_create st P now c its s =
     (case Create st now c its (inner s) of
        (Inl e, t) \<Rightarrow> (Inl (Wrap ''publishing store: create'' e), s\<lparr>inner := t\<rparr>)
      | (Inr x, t) \<Rightarrow> (Inr x, emit P EventCreated (ID x) (CustomerID x) (Status x) (s\<lparr>inner := t\<rparr>)))"

definition pub_confirm :: "'s Store \<Rightarrow> 'w EventPublisher \<Rightarrow> int \<Rightarrow> string \<Rightarrow> (('s, 'w) publishing, bool) op" where
  "pub_confirm st P now i s =
     (case ConfirmPending st now i (inner s) of
        (Inl e, t) \<Rightarrow> (Inl (Wrap ''publishing store: confirm'' e), s\<lparr>inner := t\<rparr>)
      | (Inr b, t) \<Rightarrow>
          (Inr b, if b then emit P EventConfirmed i '''' StatusConfirmed (s\<lparr>inner := t\<rparr>) else s\<lparr>inner := t\<rparr>))"

definition pub_cancel :: "'s Store \<Rightarrow> 'w EventPublisher \<Rightarrow> (string \<Rightarrow> int) \<Rightarrow> int \<Rightarrow> (('s, 'w) publishing, string list) op" where
  "pub_cancel st P nows cutoff s =
     (case CancelStalePending st nows cutoff (inner s) of
        (Inl e, t) \<Rightarrow> (Inl (Wrap ''publishing store: cancel stale'' e), s\<lparr>inner := t\<rparr>)
      | (Inr ids, t) \<Rightarrow>
          (Inr ids, fold (\<lambda>i. emit P EventCanceled i '''' StatusCanceled) ids (s\<lparr>inner := t\<rparr>)))"

text \<open>Get and List are those of the embedded store.\<close>

definition lift_read :: "('s, 'a) op \<Rightarrow> (('s, 'w) publishing, 'a) op" where
  "lift_read f s = (case f (inner s) of (r, t) \<Rightarrow> (r, s\<lparr>inner := t\<rparr>))"

definition NewPublishingStore :: "'s Store \<Rightarrow> 'w EventPublisher \<Rightarrow> ('s, 'w) publishing Store" where
  "NewPublishingStore st P =
     \<lparr>Create = pub_create st P, Get = (\<lambda>i. lift_read (Get st i)), List = lift_read (List st),
      ConfirmPending = pub_confirm st P, CancelStalePending = pub_cancel st P\<rparr>"

lemma publishing_simps [simp]:
  "Create (NewPublishingStore st P) = pub_create st P"
  "Get (NewPublishingStore st P) = (\<lambda>i. lift_read (Get st i))"
  "List (NewPublishingStore st P) = lift_read (List st)"
  "ConfirmPending (NewPublishingStore st P) = pub_confirm st P"
  "CancelStalePending (NewPublishingStore st P) = pub_cancel st P"
  by (simp_all add: NewPublishingStore_def)

lemma emit_inner [simp]: "inner (emit P ty i cu status s) = inner s"
  by (simp add: emit_def Let_def split: prod.split)

lemma emit_sent:
  "\<exists>at. sent (emit P ty i cu status s) = sent s @ [\<lparr>Type = ty, OrderID = i, EvCustomer = cu, EvStatus = status, At = at\<rparr>]"
  by (simp add: emit_def Let_def split: prod.split)

lemma fold_emit_inner [simp]: "inner (fold (\<lambda>i. emit P ty i cu status) ids s) = inner s"
  by (induction ids arbitrary: s) simp_all

lemma fold_emit_sent:
  "\<exists>evs. sent (fold (\<lambda>i. emit P ty i cu status) ids s) = sent s @ evs \<and> map OrderID evs = ids \<and>
     list_all (\<lambda>e. Type e = ty \<and> EvStatus e = status) evs"
proof (induction ids arbitrary: s)
  case (Cons i ids)
  obtain at where "sent (emit P ty i cu status s) =
      sent s @ [\<lparr>Type = ty, OrderID = i, EvCustomer = cu, EvStatus = status, At = at\<rparr>]" using emit_sent by blast
  moreover obtain evs where "sent (fold (\<lambda>i. emit P ty i cu status) ids (emit P ty i cu status s)) =
      sent (emit P ty i cu status s) @ evs" "map OrderID evs = ids"
      "list_all (\<lambda>e. Type e = ty \<and> EvStatus e = status) evs" using Cons.IH by blast
  ultimately show ?case
    by (intro exI [of _ "\<lparr>Type = ty, OrderID = i, EvCustomer = cu, EvStatus = status, At = at\<rparr> # evs"]) simp
qed simp


section \<open>The decorator keeps the contract\<close>

context order_repo
begin

lemma published_repo:
  "order_repo (NewPublishingStore st P) (\<lambda>s. abs (inner s)) (\<lambda>s. inv (inner s)) (\<lambda>n s. room n (inner s))"
proof (unfold_locales, goal_cases)
  case (1 n s)
  then show ?case by (rule room_less)
next
  case (2 s n now c its r t)
  obtain r0 t0 where r0: "Create st now c its (inner s) = (r0, t0)" by force
  show ?case using create [OF 2(1,2) r0] 2(3) r0 by (cases r0) (auto simp: pub_create_def)
next
  case (3 s i q t n)
  obtain q0 t0 where q0: "Get st i (inner s) = (q0, t0)" by force
  show ?case using get [OF 3(1) q0, of n] 3(2) q0 by (auto simp: lift_read_def)
next
  case (4 s l t n)
  obtain l0 t0 where l0: "List st (inner s) = (l0, t0)" by force
  show ?case using list [OF 4(1) l0, of n] 4(2) l0 by (auto simp: lift_read_def)
next
  case (5 s now i b t n)
  obtain b0 t0 where b0: "ConfirmPending st now i (inner s) = (b0, t0)" by force
  show ?case using confirm [OF 5(1) b0, of n] 5(2) b0
    by (cases b0) (auto simp: pub_confirm_def ErrOrderNotFound_def split: if_splits bool.splits)
next
  case (6 s nows cutoff k t n)
  obtain k0 t0 where k0: "CancelStalePending st nows cutoff (inner s) = (k0, t0)" by force
  show ?case using cancel [OF 6(1) k0, of n] 6(2) k0 by (cases k0) (auto simp: pub_cancel_def)
qed

end

context order_store
begin

lemma published_store:
  "order_store (NewPublishingStore st P) (\<lambda>s. abs (inner s)) (\<lambda>s. inv (inner s)) (\<lambda>n s. room n (inner s))"
proof (intro order_store.intro published_repo order_store_axioms.intro, goal_cases)
  case (1 s now c its e t)
  then show ?case
    using create_fails [OF 1(1), of now c its] by (auto simp: pub_create_def split: prod.splits sum.splits)
next
  case (2 s now i e t)
  then show ?case
    using confirm_fails [OF 2(1), of now i] by (auto simp: pub_confirm_def split: prod.splits sum.splits)
next
  case (3 s nows cutoff e t)
  then show ?case
    using cancel_fails [OF 3(1), of nows cutoff] by (auto simp: pub_cancel_def split: prod.splits sum.splits)
qed

end

context order_reads
begin

lemma published_reads:
  "order_reads (NewPublishingStore st P) (\<lambda>s. abs (inner s)) (\<lambda>s. inv (inner s)) (\<lambda>n s. room n (inner s))"
  using get_exact
  by (intro order_reads.intro published_repo order_reads_axioms.intro)
    (force simp: lift_read_def split: prod.splits)

end

interpretation pub_mem: order_store "NewPublishingStore mem_store P" "\<lambda>s. mem_abs (inner s)"
  "\<lambda>s. mem_inv (inner s)" "\<lambda>n s. mem_room n (inner s)" for P :: "'w EventPublisher"
  by (rule mem.published_store)

interpretation pub_mem_get: order_reads "NewPublishingStore mem_store P" "\<lambda>s. mem_abs (inner s)"
  "\<lambda>s. mem_inv (inner s)" "\<lambda>n s. mem_room n (inner s)" for P :: "'w EventPublisher"
  by (rule mem_get.published_reads)


section \<open>Events tell what happened\<close>

definition is_created :: "OrderEvent \<Rightarrow> bool" where
  "is_created e \<longleftrightarrow> Type e = EventCreated"

definition transitions :: "OrderEvent list \<Rightarrow> (string \<times> Status) list" where
  "transitions evs = map (\<lambda>e. (OrderID e, EvStatus e)) (filter (\<lambda>e. \<not> is_created e) evs)"

lemma transitions_append [simp]: "transitions (xs @ ys) = transitions xs @ transitions ys"
  by (simp add: transitions_def)

lemma event_distinct [simp]: "EventConfirmed \<noteq> EventCreated" "EventCanceled \<noteq> EventCreated"
  by (simp_all add: event_defs)

text \<open>The id of the order that a call creates.\<close>

fun creates :: "'s Store \<Rightarrow> call \<Rightarrow> 's \<Rightarrow> string list" where
  "creates st (CCreate now cu its) s = (case fst (Create st now cu its s) of Inr x \<Rightarrow> [ID x] | Inl e \<Rightarrow> [])"
| "creates st _ s = []"

text \<open>The wrapped store runs as if alone; the events sent are the transitions it reports.\<close>

lemma exec_published:
  assumes "exec (NewPublishingStore st P) c s = (es, t)"
  obtains evs where "exec st c (inner s) = (es, inner t)" and "sent t = sent s @ evs" and "transitions evs = es"
    and "map OrderID (filter is_created evs) = creates st c (inner s)"
proof (cases c)
  case (CCreate now cu its)
  obtain r u where r: "Create st now cu its (inner s) = (r, u)" by force
  show thesis
  proof (cases r)
    case (Inl e)
    then show thesis using that [of "[]"] assms CCreate r by (auto simp: pub_create_def transitions_def)
  next
    case (Inr x)
    obtain at where "sent t = sent s @ [\<lparr>Type = EventCreated, OrderID = ID x, EvCustomer = CustomerID x,
        EvStatus = Status x, At = at\<rparr>]"
      using assms CCreate r Inr emit_sent [of P EventCreated "ID x" "CustomerID x" "Status x" "s\<lparr>inner := u\<rparr>"]
      by (auto simp: pub_create_def)
    then show thesis
      by (rule that [rotated]) (use assms CCreate r Inr in \<open>auto simp: pub_create_def transitions_def is_created_def\<close>)
  qed
next
  case (CGet i)
  then show thesis using that [of "[]"] assms by (auto simp: lift_read_def transitions_def split: prod.splits)
next
  case CList
  then show thesis using that [of "[]"] assms by (auto simp: lift_read_def transitions_def split: prod.splits)
next
  case (CConfirm now i)
  obtain b u where b: "ConfirmPending st now i (inner s) = (b, u)" by force
  show thesis
  proof (cases "b = Inr True")
    case True
    obtain at where "sent t = sent s @ [\<lparr>Type = EventConfirmed, OrderID = i, EvCustomer = '''',
        EvStatus = StatusConfirmed, At = at\<rparr>]"
      using assms CConfirm b True emit_sent [of P EventConfirmed i "''''" StatusConfirmed "s\<lparr>inner := u\<rparr>"]
      by (auto simp: pub_confirm_def)
    then show thesis
      by (rule that [rotated]) (use assms CConfirm b True in \<open>auto simp: pub_confirm_def transitions_def is_created_def\<close>)
  next
    case False
    then show thesis
      using that [of "[]"] assms CConfirm b by (cases b) (auto simp: pub_confirm_def transitions_def split: bool.splits)
  qed
next
  case (CCancel nows cutoff)
  obtain k u where k: "CancelStalePending st nows cutoff (inner s) = (k, u)" by force
  show thesis
  proof (cases k)
    case (Inl e)
    then show thesis using that [of "[]"] assms CCancel k by (auto simp: pub_cancel_def transitions_def)
  next
    case (Inr ids)
    obtain evs where evs: "sent t = sent s @ evs" "map OrderID evs = ids"
        "list_all (\<lambda>e. Type e = EventCanceled \<and> EvStatus e = StatusCanceled) evs"
      using assms CCancel k Inr fold_emit_sent [of P EventCanceled "''''" StatusCanceled ids "s\<lparr>inner := u\<rparr>"]
      by (auto simp: pub_cancel_def)
    have no: "filter is_created evs = []" "filter (\<lambda>e. \<not> is_created e) evs = evs"
      using evs(3) by (auto simp: filter_empty_conv filter_id_conv list_all_iff is_created_def)
    have "transitions evs = map (\<lambda>i. (i, StatusCanceled)) ids"
      unfolding transitions_def no(2) evs(2) [symmetric] using evs(3) by (simp add: list_all_iff)
    then show thesis
      using that [of evs] evs(1) no(1) assms CCancel k Inr by (auto simp: pub_cancel_def)
  qed
qed

lemma run_published:
  assumes "run_calls (NewPublishingStore st P) cs s = (es, t)"
  shows "run_calls st cs (inner s) = (es, inner t) \<and> (\<exists>evs. sent t = sent s @ evs \<and> transitions evs = es)"
  using assms
proof (induction cs arbitrary: s es)
  case Nil
  then show ?case by (simp add: transitions_def)
next
  case (Cons c cs)
  obtain ds u where c: "exec (NewPublishingStore st P) c s = (ds, u)" by force
  obtain fs where r: "run_calls (NewPublishingStore st P) cs u = (fs, t)" and es: "es = ds @ fs"
    using Cons.prems c by (auto split: prod.splits)
  from exec_published [OF c] obtain evs where "exec st c (inner s) = (ds, inner u)" "sent u = sent s @ evs" "transitions evs = ds"
    by metis
  with Cons.IH [OF r] es show ?case by (auto intro: exI [of _ "evs @ _"])
qed

text \<open>One created event for each order in the store.\<close>

definition created_once :: "('s \<Rightarrow> string \<Rightarrow> Order option) \<Rightarrow> ('s, 'w) publishing \<Rightarrow> bool" where
  "created_once f s \<longleftrightarrow> distinct (map OrderID (filter is_created (sent s))) \<and>
     set (map OrderID (filter is_created (sent s))) = dom (f (inner s))"

lemma evolves_dom: "evolves m m' \<Longrightarrow> dom m \<subseteq> dom m'"
  by (auto simp: evolves_def)

context order_store
begin

lemma exec_dom:
  assumes "inv s" and "room (Suc n) s" and "exec st c s = (es, t)"
  shows "dom (abs t) = dom (abs s) \<union> set (creates st c s) \<and> distinct (creates st c s) \<and>
    set (creates st c s) \<inter> dom (abs s) = {}"
proof (cases c)
  case (CCreate now cu its)
  obtain r where r: "Create st now cu its s = (r, t)"
    using assms(3) CCreate by (cases "Create st now cu its s") auto
  show ?thesis
    using create [OF assms(1,2) r] create_fails [OF assms(1)] r CCreate
    by (cases r) (auto simp: created_def)
next
  case (CGet i)
  obtain q where q: "Get st i s = (q, t)" using assms(3) CGet by (cases "Get st i s") auto
  show ?thesis using get [OF assms(1) q, of n] CGet by auto
next
  case CList
  obtain l where l: "List st s = (l, t)" using assms(3) CList by (cases "List st s") auto
  show ?thesis using list [OF assms(1) l, of n] CList by auto
next
  case (CConfirm now i)
  obtain b where b: "ConfirmPending st now i s = (b, t)"
    using assms(3) CConfirm by (auto split: prod.splits sum.splits bool.splits)
  show ?thesis
    using confirm [OF assms(1) b, of n] CConfirm
    by (cases b) (auto simp: confirmed_def split: bool.splits if_splits)
next
  case (CCancel now cutoff)
  obtain k where k: "CancelStalePending st now cutoff s = (k, t)"
    using assms(3) CCancel by (auto split: prod.splits sum.splits)
  show ?thesis
    using cancel [OF assms(1) k, of n] CCancel
    by (cases k) (auto simp: swept_def sweep_def dom_def)
qed

lemma run_created_once:
  "inv (inner s) \<Longrightarrow> room (length cs) (inner s) \<Longrightarrow> created_once abs s \<Longrightarrow>
   run_calls (NewPublishingStore st P) cs s = (es, t) \<Longrightarrow> created_once abs t"
proof (induction cs arbitrary: s es)
  case Nil
  then show ?case by simp
next
  case (Cons c cs)
  obtain ds u where c: "exec (NewPublishingStore st P) c s = (ds, u)" by force
  obtain fs where r: "run_calls (NewPublishingStore st P) cs u = (fs, t)"
    using Cons.prems c by (auto split: prod.splits)
  from exec_published [OF c] obtain evs where ev: "exec st c (inner s) = (ds, inner u)" "sent u = sent s @ evs"
      "map OrderID (filter is_created evs) = creates st c (inner s)"
    by metis
  have rm: "room (Suc (length cs)) (inner s)" using Cons.prems(2) by simp
  have "created_once abs u"
    using exec_dom [OF Cons.prems(1) rm ev(1)] Cons.prems(3)
    unfolding created_once_def ev(2) filter_append map_append ev(3) distinct_append set_append by auto
  moreover have "inv (inner u)" "room (length cs) (inner u)" using exec_effect [OF Cons.prems(1) rm ev(1)] by auto
  ultimately show ?case using Cons.IH r by blast
qed

end

text \<open>C30.
  Events are faithful, whatever the publisher does. Over any sequence of calls on a fresh store
  that publishes, the in-memory store below runs exactly as without the decorator; the events
  other than created are, in order, the transitions the store reported; no order gets two of
  them, each carries the order's final status, and every settled order has one; and every
  order in the store has exactly one created event.
\<close>
theorem publishing_events:
  assumes "length cs < 2 ^ 64"
    and "run_calls (NewPublishingStore mem_store P) cs \<lparr>inner = NewInMemoryStore chs, broker = w, sent = []\<rparr> = (es, t)"
  shows "run_calls mem_store cs (NewInMemoryStore chs) = (es, inner t) \<and>
    transitions (sent t) = es \<and> distinct (map fst es) \<and>
    (\<forall>i k. (i, k) \<in> set es \<longleftrightarrow>
       (\<exists>x. map_of (orders (inner t)) i = Some x \<and> Status x = k \<and> k \<noteq> StatusPending)) \<and>
    distinct (map OrderID (filter is_created (sent t))) \<and>
    set (map OrderID (filter is_created (sent t))) = dom (map_of (orders (inner t)))"
proof -
  let ?s = "\<lparr>inner = NewInMemoryStore chs, broker = w, sent = []\<rparr>"
  note new = mem_new [OF assms(1), of chs]
  have once: "created_once mem_abs ?s" by (simp add: created_once_def new(3))
  from run_published [OF assms(2)] have r: "run_calls mem_store cs (NewInMemoryStore chs) = (es, inner t)"
    and tr: "transitions (sent t) = es" by auto
  from mem.run_created_once [OF _ _ once assms(2)] new have "created_once mem_abs t" by simp
  with r tr settled_exactly [OF assms(1) r] show ?thesis by (simp add: created_once_def mem_abs_def)
qed

text \<open>A publisher that always fails.\<close>

definition failing_publisher :: "nat EventPublisher" where
  "failing_publisher = \<lparr>Publish = (\<lambda>e n. (Some (ErrNew ''broker down''), Suc n)), Now = (\<lambda>n. (0, n))\<rparr>"

theorem publishing_events_witness:
  "\<exists>t. run_calls (NewPublishingStore mem_store failing_publisher)
      [CCreate 1 ''ann'' [], CConfirm 2 ''ord_1'', CConfirm 3 ''ord_1'']
      \<lparr>inner = NewInMemoryStore [], broker = 0, sent = []\<rparr> = ([(''ord_1'', StatusConfirmed)], t) \<and>
    map Type (sent t) = [EventCreated, EventConfirmed] \<and>
    transitions (sent t) = [(''ord_1'', StatusConfirmed)]"
proof -
  let ?cs = "[CCreate 1 ''ann'' [], CConfirm 2 ''ord_1'', CConfirm 3 ''ord_1'']"
  let ?s = "\<lparr>inner = NewInMemoryStore [], broker = 0, sent = []\<rparr>"
  have ids: "order_id 1 = ''ord_1''" by code_simp
  define t where "t = snd (run_calls (NewPublishingStore mem_store failing_publisher) ?cs ?s)"
  note eval = NewInMemoryStore_def pub_create_def pub_confirm_def mem_create_def mem_confirm_def emit_def
        failing_publisher_def ids new_order_def Let_def
  have "fst (run_calls (NewPublishingStore mem_store failing_publisher) ?cs ?s) = [(''ord_1'', StatusConfirmed)]"
    by (simp add: eval)
  then have t: "run_calls (NewPublishingStore mem_store failing_publisher) ?cs ?s = ([(''ord_1'', StatusConfirmed)], t)"
    by (simp only: t_def prod_eq_iff fst_conv snd_conv simp_thms)
  have ty: "map Type (sent t) = [EventCreated, EventConfirmed]"
    unfolding t_def by (simp add: eval)
  have "length ?cs < 2 ^ 64" by simp
  from publishing_events [OF this t] have "transitions (sent t) = [(''ord_1'', StatusConfirmed)]" by (elim conjE)
  with t ty show ?thesis by (intro exI [of _ t] conjI)
qed

end
