(* ===== verification/Rfc3339.thy ===== *)
theory Rfc3339
  imports Prelude "HOL-Library.Monad_Syntax"
begin

text \<open>
  Timestamps as text, the part of package \<^verbatim>\<open>time\<close> the program uses: the layouts RFC3339 and
  RFC3339Nano of \<^verbatim>\<open>Time.Format\<close> (the latter is also the JSON form of a time) and
  \<^verbatim>\<open>time.Parse\<close>. An instant is a number of nanoseconds since the Unix epoch; the zone in which
  it is printed is an offset in minutes. Leap seconds do not exist, years are proleptic
  Gregorian.
\<close>


section \<open>Calendar\<close>

text \<open>Days since 1970-01-01, counted in years that begin on the first of March.\<close>

record date =
  year :: int
  month :: int
  day :: int

definition civil_from_days :: "int \<Rightarrow> date" where
  "civil_from_days n =
     (let z = n + 719468; era = z div 146097; doe = z mod 146097;
          c = min 3 (doe div 36524); r1 = doe - c * 36524;
          q = r1 div 1461; r2 = r1 mod 1461;
          y = min 3 (r2 div 365); doy = r2 - y * 365;
          mp = (5 * doy + 2) div 153;
          m = (if mp < 10 then mp + 3 else mp - 9)
      in \<lparr>year = 400 * era + 100 * c + 4 * q + y + (if m \<le> 2 then 1 else 0), month = m,
          day = doy - (153 * mp + 2) div 5 + 1\<rparr>)"

definition days_from_civil :: "date \<Rightarrow> int" where
  "days_from_civil d =
     (let y = year d - (if month d \<le> 2 then 1 else 0); era = y div 400; yoe = y mod 400;
          mp = (month d + 9) mod 12;
          doy = (153 * mp + 2) div 5 + day d - 1;
          doe = yoe * 365 + yoe div 4 - yoe div 100 + doy
      in era * 146097 + doe - 719468)"

definition leap :: "int \<Rightarrow> bool" where
  "leap y \<longleftrightarrow> y mod 4 = 0 \<and> (y mod 100 \<noteq> 0 \<or> y mod 400 = 0)"

definition days_in_month :: "int \<Rightarrow> int \<Rightarrow> int" where
  "days_in_month y m =
     (if m = 2 then (if leap y then 29 else 28) else if m \<in> {4, 6, 9, 11} then 30 else 31)"

definition valid_date :: "date \<Rightarrow> bool" where
  "valid_date d \<longleftrightarrow> 1 \<le> month d \<and> month d \<le> 12 \<and> 1 \<le> day d \<and> day d \<le> days_in_month (year d) (month d)"

lemma min_div_last: "0 < k \<Longrightarrow> x - min b (x div k) * k = k \<Longrightarrow> min b (x div k) = b" for x k b :: int
  by (cases "b \<le> x div k") (use pos_mod_bound [of k x] in \<open>auto simp: min_def minus_div_mult_eq_mod\<close>)

text \<open>The position of a day in its four-hundred-year cycle.\<close>

lemma cycle_split:
  fixes doe :: int
  assumes "0 \<le> doe" and "doe < 146097"
  obtains c q y doy where "c = min 3 (doe div 36524)" "q = (doe - c * 36524) div 1461"
    "y = min 3 ((doe - c * 36524) mod 1461 div 365)" "doy = (doe - c * 36524) mod 1461 - y * 365"
    "doe = 36524 * c + 1461 * q + 365 * y + doy" "0 \<le> c" "c \<le> 3" "0 \<le> q" "q \<le> 24" "0 \<le> y" "y \<le> 3"
    "0 \<le> doy" "doy \<le> 365" "doy = 365 \<Longrightarrow> y = 3 \<and> (q = 24 \<longrightarrow> c = 3)"
proof -
  define c where "c = min 3 (doe div 36524)"
  define r1 where "r1 = doe - c * 36524"
  define q where "q = r1 div 1461"
  define r2 where "r2 = r1 mod 1461"
  define y where "y = min 3 (r2 div 365)"
  have c: "0 \<le> c" "c \<le> 3" "0 \<le> r1" "r1 \<le> 36524" "r1 = 36524 \<Longrightarrow> c = 3"
    using assms min_div_last [of 36524 doe 3] by (auto simp: c_def r1_def min_def)
  have r2: "0 \<le> r2" "r2 \<le> 1460" "r1 = 1461 * q + r2" by (auto simp: r2_def q_def)
  have q: "0 \<le> q" "q \<le> 24" using c by (auto simp: q_def)
  have y: "0 \<le> y" "y \<le> 3" "0 \<le> r2 - y * 365" "r2 - y * 365 \<le> 365" "r2 - y * 365 = 365 \<Longrightarrow> r2 = 1460 \<and> y = 3"
    using r2 min_div_last [of 365 r2 3] by (auto simp: y_def min_def)
  have last: "y = 3 \<and> (q = 24 \<longrightarrow> c = 3)" if "r2 - y * 365 = 365"
    using y(5) [OF that] r2(3) c(4,5) by auto
  have "q = (doe - c * 36524) div 1461" "y = min 3 ((doe - c * 36524) mod 1461 div 365)"
    "r2 - y * 365 = (doe - c * 36524) mod 1461 - y * 365" "doe = 36524 * c + 1461 * q + 365 * y + (r2 - y * 365)"
    using r2(3) by (simp_all add: q_def y_def r1_def r2_def)
  from that [OF c_def this c(1,2) q y(1-4) last] show thesis by blast
qed

lemma month_split:
  fixes doy :: int
  assumes "0 \<le> doy" and "doy \<le> 365"
  obtains mp d where "mp = (5 * doy + 2) div 153" "d = doy - (153 * mp + 2) div 5 + 1" "0 \<le> mp" "mp \<le> 11"
    "1 \<le> d" "d \<le> 31" "mp \<in> {1, 3, 6, 8} \<Longrightarrow> d \<le> 30" "mp = 11 \<Longrightarrow> d \<le> 29" "mp = 11 \<Longrightarrow> doy < 365 \<Longrightarrow> d \<le> 28"
proof -
  define mp where "mp = (5 * doy + 2) div 153"
  have mp: "0 \<le> mp" "mp \<le> 11" using assms by (auto simp: mp_def)
  have b: "153 * mp \<le> 5 * doy + 2" "5 * doy + 2 < 153 * mp + 153" by (auto simp: mp_def)
  have "mp = 0 \<or> mp = 1 \<or> mp = 2 \<or> mp = 3 \<or> mp = 4 \<or> mp = 5 \<or> mp = 6 \<or> mp = 7 \<or> mp = 8 \<or> mp = 9 \<or>
    mp = 10 \<or> mp = 11" using mp by presburger
  then have "1 \<le> doy - (153 * mp + 2) div 5 + 1 \<and> doy - (153 * mp + 2) div 5 + 1 \<le> 31 \<and>
      (mp \<in> {1, 3, 6, 8} \<longrightarrow> doy - (153 * mp + 2) div 5 + 1 \<le> 30) \<and>
      (mp = 11 \<longrightarrow> doy - (153 * mp + 2) div 5 + 1 \<le> 29) \<and>
      (mp = 11 \<and> doy < 365 \<longrightarrow> doy - (153 * mp + 2) div 5 + 1 \<le> 28)"
    using b assms by (elim disjE) simp_all
  then show thesis using that [OF mp_def refl] mp by blast
qed

lemma civil_parts:
  obtains era c q y mp d where
    "n + 719468 = 146097 * era + 36524 * c + 1461 * q + 365 * y + ((153 * mp + 2) div 5 + d - 1)"
    "civil_from_days n = \<lparr>year = 400 * era + 100 * c + 4 * q + y + (if mp < 10 then 0 else 1),
       month = (if mp < 10 then mp + 3 else mp - 9), day = d\<rparr>"
    "0 \<le> c" "c \<le> 3" "0 \<le> q" "q \<le> 24" "0 \<le> y" "y \<le> 3" "0 \<le> mp" "mp \<le> 11" "1 \<le> d" "d \<le> 31"
    "mp \<in> {1, 3, 6, 8} \<Longrightarrow> d \<le> 30" "mp = 11 \<Longrightarrow> d \<le> 28 \<or> d \<le> 29 \<and> y = 3 \<and> (q = 24 \<longrightarrow> c = 3)"
proof -
  define doe where "doe = (n + 719468) mod 146097"
  define era where "era = (n + 719468) div 146097"
  have doe: "0 \<le> doe" "doe < 146097" "n + 719468 = 146097 * era + doe" by (auto simp: doe_def era_def)
  from cycle_split [OF doe(1,2)] obtain c q y doy
    where cyc: "c = min 3 (doe div 36524)" "q = (doe - c * 36524) div 1461"
      "y = min 3 ((doe - c * 36524) mod 1461 div 365)" "doy = (doe - c * 36524) mod 1461 - y * 365"
      and parts: "doe = 36524 * c + 1461 * q + 365 * y + doy" "0 \<le> c" "c \<le> 3" "0 \<le> q" "q \<le> 24" "0 \<le> y" "y \<le> 3"
      "0 \<le> doy" "doy \<le> 365" "doy = 365 \<Longrightarrow> y = 3 \<and> (q = 24 \<longrightarrow> c = 3)" by metis
  from month_split [OF parts(8,9)] obtain mp d where mo: "mp = (5 * doy + 2) div 153" "d = doy - (153 * mp + 2) div 5 + 1"
      and mb: "0 \<le> mp" "mp \<le> 11" "1 \<le> d" "d \<le> 31" "mp \<in> {1, 3, 6, 8} \<Longrightarrow> d \<le> 30" "mp = 11 \<Longrightarrow> d \<le> 29"
      "mp = 11 \<Longrightarrow> doy < 365 \<Longrightarrow> d \<le> 28" by metis
  have eq: "civil_from_days n = \<lparr>year = 400 * era + 100 * c + 4 * q + y + (if mp < 10 then 0 else 1),
       month = (if mp < 10 then mp + 3 else mp - 9), day = d\<rparr>"
    unfolding civil_from_days_def Let_def doe_def [symmetric] era_def [symmetric] cyc(1) [symmetric]
      cyc(2) [symmetric] cyc(3) [symmetric] cyc(4) [symmetric] mo(1) [symmetric] mo(2) [symmetric]
    using mb(1,2) by simp
  have sum: "n + 719468 = 146097 * era + 36524 * c + 1461 * q + 365 * y + ((153 * mp + 2) div 5 + d - 1)"
    using doe(3) parts(1) mo(2) by linarith
  have feb: "d \<le> 28 \<or> d \<le> 29 \<and> y = 3 \<and> (q = 24 \<longrightarrow> c = 3)" if "mp = 11"
    using mb(6,7) [OF that] parts(9,10) by (cases "doy = 365") auto
  show thesis
    by (rule that [OF sum eq parts(2-7) mb(1-4)]) (use mb(5) feb in blast)+
qed

lemma days_civil: "days_from_civil (civil_from_days n) = n"
proof (rule civil_parts [of n])
  fix era c q y mp d :: int
  assume n: "n + 719468 = 146097 * era + 36524 * c + 1461 * q + 365 * y + ((153 * mp + 2) div 5 + d - 1)"
    and eq: "civil_from_days n = \<lparr>year = 400 * era + 100 * c + 4 * q + y + (if mp < 10 then 0 else 1),
       month = (if mp < 10 then mp + 3 else mp - 9), day = d\<rparr>"
    and b: "0 \<le> c" "c \<le> 3" "0 \<le> q" "q \<le> 24" "0 \<le> y" "y \<le> 3" "0 \<le> mp" "mp \<le> 11"
  define m where "m = (if mp < 10 then mp + 3 else mp - 9)"
  have m: "(m \<le> 2) = (mp \<ge> 10)" "(m + 9) mod 12 = mp"
    using b(7,8) by (auto simp: m_def)
  define k where "k = 100 * c + 4 * q + y"
  have k: "0 \<le> k" "k < 400" using b by (simp_all add: k_def)
  have "k = y + 4 * (25 * c + q)" "k = (4 * q + y) + 100 * c" by (simp_all add: k_def)
  moreover have "y div 4 = 0" "(4 * q + y) div 100 = 0"
    by (rule div_pos_pos_trivial; use b in linarith)+
  moreover have "(x + j * z) div j = z + x div j" if "j \<noteq> 0" for x j z :: int
    using that by simp
  ultimately have kd: "k div 4 = 25 * c + q" "k div 100 = c"
    using zero_neq_numeral by (metis add.right_neutral)+
  have yr: "year (civil_from_days n) - (if month (civil_from_days n) \<le> 2 then 1 else 0) = 400 * era + k"
    using m(1) by (simp add: eq m_def [symmetric] k_def)
  have "(400 * era + k) div 400 = era" "(400 * era + k) mod 400 = k" using k(1,2) by auto
  moreover have "month (civil_from_days n) = m" "day (civil_from_days n) = d" by (simp_all add: eq m_def)
  ultimately have "days_from_civil (civil_from_days n) =
      era * 146097 + (k * 365 + k div 4 - k div 100 + ((153 * mp + 2) div 5 + d - 1)) - 719468"
    unfolding days_from_civil_def Let_def yr by (simp only: m(2))
  then show ?thesis using n unfolding kd by (simp add: k_def)
qed

lemma valid_civil: "valid_date (civil_from_days n)"
proof (rule civil_parts [of n])
  fix era c q y mp d :: int
  assume eq: "civil_from_days n = \<lparr>year = 400 * era + 100 * c + 4 * q + y + (if mp < 10 then 0 else 1),
       month = (if mp < 10 then mp + 3 else mp - 9), day = d\<rparr>"
    and b: "0 \<le> c" "c \<le> 3" "0 \<le> q" "q \<le> 24" "0 \<le> y" "y \<le> 3" "0 \<le> mp" "mp \<le> 11" "1 \<le> d" "d \<le> 31"
    and d: "mp \<in> {1, 3, 6, 8} \<Longrightarrow> d \<le> 30" "mp = 11 \<Longrightarrow> d \<le> 28 \<or> d \<le> 29 \<and> y = 3 \<and> (q = 24 \<longrightarrow> c = 3)"
  show ?thesis
  proof (cases "mp = 11")
    case False
    have "d \<le> days_in_month Y (if mp < 10 then mp + 3 else mp - 9)" for Y
      using False b(7,8,10) d(1) by (cases "mp \<in> {1, 3, 6, 8}") (auto simp: days_in_month_def)
    then show ?thesis using b by (simp add: valid_date_def eq)
  next
    case True
    have "leap (400 * era + 100 * c + 4 * q + 4)" if h: "q = 24 \<longrightarrow> c = 3"
    proof -
      have "400 * era + 100 * c + 4 * q + 4 = 4 * (100 * era + 25 * c + q + 1)" by simp
      then have "(400 * era + 100 * c + 4 * q + 4) mod 4 = 0" by simp
      moreover have "(400 * era + 100 * c + 4 * q + 4) mod 100 \<noteq> 0" if "q \<noteq> 24"
      proof -
        have "400 * era + 100 * c + 4 * q + 4 = (4 * q + 4) + (4 * era + c) * 100" by (simp add: algebra_simps)
        then have "(400 * era + 100 * c + 4 * q + 4) mod 100 = (4 * q + 4) mod 100" by (simp only: mod_mult_self1)
        then show ?thesis using that b(3,4) by (simp add: mod_pos_pos_trivial)
      qed
      moreover have "(400 * era + 100 * c + 4 * q + 4) mod 400 = 0" if "q = 24" and "c = 3"
        using that by simp
      ultimately show ?thesis unfolding leap_def using h by (cases "q = 24") simp_all
    qed
    then show ?thesis
      using d(2) [OF True] b True by (auto simp: valid_date_def eq days_in_month_def algebra_simps)
  qed
qed


section \<open>Digits\<close>

definition digit :: "char \<Rightarrow> bool" where
  "digit c \<longleftrightarrow> 48 \<le> (of_char c :: nat) \<and> of_char c \<le> (57 :: nat)"

definition pad :: "nat \<Rightarrow> nat \<Rightarrow> string" where
  "pad w n = replicate (w - length (show_nat n)) (CHR ''0'') @ show_nat n"

definition read_digits :: "nat \<Rightarrow> string \<Rightarrow> (nat \<times> string) option" where
  "read_digits w s =
     (if w \<le> length s \<and> list_all digit (take w s) then Some (digits_val (take w s), drop w s) else None)"

definition expect :: "char \<Rightarrow> string \<Rightarrow> string option" where
  "expect c s = (case s of x # r \<Rightarrow> if x = c then Some r else None | [] \<Rightarrow> None)"

lemma expect_Cons [simp]: "expect c (c # r) = Some r"
  by (simp add: expect_def)

lemma digits_val_zeros: "digits_val (replicate k (CHR ''0'') @ s) = digits_val s"
  by (induction k) (simp_all add: digits_val_def)

lemma digit_char: "d < 10 \<Longrightarrow> digit (char_of (48 + d :: nat))"
  by (simp add: digit_def of_char_digit)

lemma show_nat_digits: "list_all digit (show_nat n)"
proof (induction n rule: show_nat.induct)
  case (1 n)
  then show ?case by (subst show_nat.simps) (auto simp: digit_char)
qed

lemma show_nat_length: "0 < w \<Longrightarrow> n < 10 ^ w \<Longrightarrow> length (show_nat n) \<le> w"
proof (induction n arbitrary: w rule: show_nat.induct)
  case (1 n)
  show ?case
  proof (cases "n < 10")
    case True
    then show ?thesis using 1(2) by (subst show_nat.simps) simp
  next
    case False
    obtain v where w: "w = Suc v" using 1(2) by (cases w) auto
    have "0 < v" using False 1(3) w by (cases v) auto
    moreover have "n div 10 < 10 ^ v" using 1(3) w by (simp add: div_less_iff_less_mult mult.commute)
    ultimately have "length (show_nat (n div 10)) \<le> v" using 1(1) False by simp
    then show ?thesis using False w by (subst show_nat.simps) simp
  qed
qed

lemma pad_length: "0 < w \<Longrightarrow> n < 10 ^ w \<Longrightarrow> length (pad w n) = w"
  using show_nat_length by (simp add: pad_def)

lemma digit_0 [simp]: "digit (CHR ''0'')"
  by (simp add: digit_def)

lemma pad_digits: "list_all digit (pad w n)"
  using show_nat_digits [of n] by (auto simp: pad_def list_all_iff)

lemma pad_val [simp]: "digits_val (pad w n) = n"
  by (simp add: pad_def digits_val_zeros)

lemma read_pad [simp]: "0 < w \<Longrightarrow> n < 10 ^ w \<Longrightarrow> read_digits w (pad w n @ r) = Some (n, r)"
  using pad_length [of w n] pad_digits by (simp add: read_digits_def)


section \<open>Fractions of a second\<close>

text \<open>The layout \<^verbatim>\<open>.999999999\<close>: nothing for zero, otherwise without trailing zeros.\<close>

definition trim_zeros :: "string \<Rightarrow> string" where
  "trim_zeros s = rev (dropWhile (\<lambda>c. c = CHR ''0'') (rev s))"

definition fraction_text :: "nat \<Rightarrow> string" where
  "fraction_text ns = (if ns = 0 then [] else CHR ''.'' # trim_zeros (pad 9 ns))"

definition fraction :: "string \<Rightarrow> nat \<times> string" where
  "fraction s = (case s of
     c # r \<Rightarrow>
       (let ds = takeWhile digit r
        in if (c = CHR ''.'' \<or> c = CHR '','') \<and> ds \<noteq> []
           then (digits_val (take 9 (ds @ replicate 9 (CHR ''0''))), dropWhile digit r) else (0, s))
   | [] \<Rightarrow> (0, s))"

lemma trim_zeros_split: "\<exists>k. s = trim_zeros s @ replicate k (CHR ''0'')"
proof -
  let ?z = "takeWhile (\<lambda>c. c = CHR ''0'') (rev s)"
  have "?z = replicate (length ?z) (CHR ''0'')"
    by (rule replicate_length_same [symmetric]) (auto dest: set_takeWhileD)
  moreover have "s = trim_zeros s @ rev ?z"
    unfolding trim_zeros_def by (metis rev_append rev_rev_ident takeWhile_dropWhile_id)
  ultimately show ?thesis by (metis rev_replicate)
qed

lemma trim_zeros_pad: "length s = n \<Longrightarrow> take n (trim_zeros s @ replicate n (CHR ''0'')) = s"
proof -
  assume n: "length s = n"
  obtain k where k: "s = trim_zeros s @ replicate k (CHR ''0'')" using trim_zeros_split by blast
  then have "length (trim_zeros s) = n - k" "k \<le> n"
    by (metis n length_append length_replicate diff_add_inverse2, metis n length_append length_replicate le_add2)
  then have "take n (trim_zeros s @ replicate n (CHR ''0'')) = trim_zeros s @ replicate k (CHR ''0'')"
    by (simp add: take_replicate)
  with k show ?thesis by simp
qed

lemma fraction_print:
  assumes "ns < 10 ^ 9" and "r = [] \<or> \<not> digit (hd r) \<and> hd r \<noteq> CHR ''.'' \<and> hd r \<noteq> CHR '',''"
  shows "fraction (fraction_text ns @ r) = (ns, r)"
proof (cases "ns = 0")
  case True
  then show ?thesis using assms(2) by (cases r) (auto simp: fraction_text_def fraction_def Let_def)
next
  case False
  let ?t = "trim_zeros (pad 9 ns)"
  have len: "length (pad 9 ns) = 9" by (rule pad_length) (use assms(1) in simp_all)
  have restored: "take 9 (?t @ replicate 9 (CHR ''0'')) = pad 9 ns" by (rule trim_zeros_pad [OF len])
  have "set ?t \<subseteq> set (pad 9 ns)" by (auto simp: trim_zeros_def dest: set_dropWhileD)
  then have dig: "\<forall>c \<in> set ?t. digit c" using pad_digits [of 9 ns] by (auto simp: list_all_iff)
  have "?t \<noteq> []"
  proof
    assume "?t = []"
    with restored have "pad 9 ns = replicate 9 (CHR ''0'')" by simp
    then have "digits_val (pad 9 ns) = 0" using digits_val_zeros [of 9 "[]"] by (simp add: digits_val_def)
    with False show False by simp
  qed
  moreover have "takeWhile digit (?t @ r) = ?t" "dropWhile digit (?t @ r) = r"
    using dig assms(2) by (cases r; auto simp: takeWhile_append dropWhile_append)+
  ultimately show ?thesis
    using False restored by (simp add: fraction_text_def fraction_def Let_def)
qed


section \<open>Timestamps\<close>

definition ns_per_s :: int where "ns_per_s = 1000000000"

definition year_text :: "int \<Rightarrow> string" where
  "year_text y = (if y < 0 then CHR ''-'' # pad 4 (nat (- y)) else pad 4 (nat y))"

definition zone_text :: "int \<Rightarrow> string" where
  "zone_text off =
     (if off = 0 then ''Z''
      else (if off < 0 then CHR ''-'' else CHR ''+'') # pad 2 (nat (\<bar>off\<bar> div 60)) @ CHR '':'' # pad 2 (nat (\<bar>off\<bar> mod 60)))"

definition date_text :: "date \<Rightarrow> string" where
  "date_text d = year_text (year d) @ CHR ''-'' # pad 2 (nat (month d)) @ CHR ''-'' # pad 2 (nat (day d))"

definition clock_text :: "int \<Rightarrow> string" where
  "clock_text sod =
     pad 2 (nat (sod div 3600)) @ CHR '':'' # pad 2 (nat (sod mod 3600 div 60)) @ CHR '':'' # pad 2 (nat (sod mod 60))"

definition format_time :: "bool \<Rightarrow> int \<Rightarrow> int \<Rightarrow> string" where
  "format_time nano off t =
     (let l = t + off * 60 * ns_per_s; secs = l div ns_per_s; ns = l mod ns_per_s
      in date_text (civil_from_days (secs div 86400)) @ CHR ''T'' # clock_text (secs mod 86400) @
         (if nano then fraction_text (nat ns) else []) @ zone_text off)"

definition parse_zone :: "string \<Rightarrow> int option" where
  "parse_zone s =
     (if s = ''Z'' then Some 0
      else case s of
        [] \<Rightarrow> None
      | c # r \<Rightarrow>
          if c = CHR ''+'' \<or> c = CHR ''-'' then
            do {
              (h, r) \<leftarrow> read_digits 2 r;
              r \<leftarrow> expect (CHR '':'') r;
              (m, r) \<leftarrow> read_digits 2 r;
              if r = [] \<and> h \<le> 24 \<and> m < 60
              then Some ((if c = CHR ''-'' then - 1 else 1) * (60 * int h + int m)) else None
            }
          else None)"

definition parse_time :: "string \<Rightarrow> int option" where
  "parse_time s =
     do {
       (y, s) \<leftarrow> read_digits 4 s;
       s \<leftarrow> expect (CHR ''-'') s;
       (mo, s) \<leftarrow> read_digits 2 s;
       s \<leftarrow> expect (CHR ''-'') s;
       (d, s) \<leftarrow> read_digits 2 s;
       s \<leftarrow> expect (CHR ''T'') s;
       (h, s) \<leftarrow> read_digits 2 s;
       s \<leftarrow> expect (CHR '':'') s;
       (mi, s) \<leftarrow> read_digits 2 s;
       s \<leftarrow> expect (CHR '':'') s;
       (sec, s) \<leftarrow> read_digits 2 s;
       (let (ns, s) = fraction s; date = \<lparr>year = int y, month = int mo, day = int d\<rparr> in
        do {
          z \<leftarrow> parse_zone s;
          if valid_date date \<and> h < 24 \<and> mi < 60 \<and> sec < 60
          then Some ((days_from_civil date * 86400 + int (3600 * h + 60 * mi + sec) - z * 60) * ns_per_s + int ns)
          else None
        })
     }"

text \<open>The instants that print with a four-digit year, in a zone less than a day off.\<close>

definition printable :: "int \<Rightarrow> int \<Rightarrow> bool" where
  "printable off t \<longleftrightarrow> \<bar>off\<bar> < 1440 \<and>
     (let y = year (civil_from_days ((t + off * 60 * ns_per_s) div ns_per_s div 86400)) in 0 \<le> y \<and> y \<le> 9999)"

lemma parse_zone_text: "\<bar>off\<bar> < 1440 \<Longrightarrow> parse_zone (zone_text off) = Some off"
proof -
  assume off: "\<bar>off\<bar> < 1440"
  define h where "h = nat (\<bar>off\<bar> div 60)"
  define m where "m = nat (\<bar>off\<bar> mod 60)"
  have b: "h < 10 ^ 2" "m < 10 ^ 2" "h \<le> 24" "m < 60" using off by (auto simp: h_def m_def)
  have "0 \<le> \<bar>off\<bar> div 60" by (simp add: pos_imp_zdiv_nonneg_iff)
  then have sum: "60 * int h + int m = \<bar>off\<bar>" by (simp add: h_def m_def)
  have printed: "off \<noteq> 0 \<Longrightarrow> zone_text off = (if off < 0 then CHR ''-'' else CHR ''+'') # pad 2 h @ CHR '':'' # pad 2 m"
    by (simp add: zone_text_def h_def m_def)
  show ?thesis
  proof (cases "off = 0")
    case True
    then show ?thesis by (simp add: zone_text_def parse_zone_def)
  next
    case False
    then show ?thesis
      using b sum read_pad [of 2 m "[]"] by (auto simp: printed parse_zone_def)
  qed
qed

lemma zone_text_hd:
  "zone_text off \<noteq> []" "\<not> digit (hd (zone_text off))" "hd (zone_text off) \<noteq> CHR ''.''"
  "hd (zone_text off) \<noteq> CHR '',''"
  by (auto simp: zone_text_def digit_def)

text \<open>Parsing a printed instant gives the instant back, to the second without the fraction.\<close>

lemma parse_format:
  assumes "printable off t"
  shows "parse_time (format_time nano off t) = Some (if nano then t else t div ns_per_s * ns_per_s)"
proof -
  define l where "l = t + off * 60 * ns_per_s"
  define secs where "secs = l div ns_per_s"
  define ns where "ns = nat (l mod ns_per_s)"
  define sod where "sod = secs mod 86400"
  define d where "d = civil_from_days (secs div 86400)"
  have ns: "ns < 10 ^ 9" "int ns = l mod ns_per_s" by (auto simp: ns_def ns_per_s_def nat_less_iff)
  have valid: "valid_date d" and days: "days_from_civil d = secs div 86400"
    by (simp_all add: d_def valid_civil days_civil)
  have "0 \<le> year d" "year d \<le> 9999" "\<bar>off\<bar> < 1440"
    using assms by (auto simp: printable_def Let_def d_def secs_def l_def)
  then have dd: "year_text (year d) = pad 4 (nat (year d))" "nat (year d) < 10 ^ 4" "nat (month d) < 10 ^ 2" "nat (day d) < 10 ^ 2"
    "\<lparr>year = int (nat (year d)), month = int (nat (month d)), day = int (nat (day d))\<rparr> = d"
    using valid by (auto simp: year_text_def valid_date_def days_in_month_def split: if_splits)
  have sod: "0 \<le> sod" "sod < 86400" by (simp_all add: sod_def)
  define h where "h = nat (sod div 3600)"
  define mi where "mi = nat (sod mod 3600 div 60)"
  define sec where "sec = nat (sod mod 60)"
  have "sod mod 3600 mod 60 = sod mod 60" by (rule mod_mod_cancel) simp
  then have "3600 * (sod div 3600) + 60 * (sod mod 3600 div 60) + sod mod 60 = sod"
    using mult_div_mod_eq [of 3600 sod] mult_div_mod_eq [of 60 "sod mod 3600"] by linarith
  then have clock: "h < 24" "mi < 60" "sec < 60" "int (3600 * h + 60 * mi + sec) = sod"
    using sod by (auto simp: h_def mi_def sec_def nat_less_iff)
  have printed: "format_time nano off t = pad 4 (nat (year d)) @ CHR ''-'' # pad 2 (nat (month d)) @ CHR ''-'' #
      pad 2 (nat (day d)) @ CHR ''T'' # pad 2 h @ CHR '':'' # pad 2 mi @ CHR '':'' # pad 2 sec @
      fraction_text (if nano then ns else 0) @ zone_text off"
    by (simp add: format_time_def Let_def l_def [symmetric] secs_def [symmetric] sod_def [symmetric] d_def [symmetric]
        ns_def [symmetric] date_text_def clock_text_def dd(1) h_def mi_def sec_def fraction_text_def)
  have frac: "fraction (fraction_text (if nano then ns else 0) @ zone_text off) = (if nano then ns else 0, zone_text off)"
    using ns(1) zone_text_hd by (intro fraction_print) auto
  have "parse_time (format_time nano off t) =
      Some ((days_from_civil d * 86400 + int (3600 * h + 60 * mi + sec) - off * 60) * ns_per_s + int (if nano then ns else 0))"
    using dd(2-5) clock(1-3) valid frac \<open>\<bar>off\<bar> < 1440\<close> unfolding printed parse_time_def
    by (simp add: parse_zone_text)
  also have "days_from_civil d * 86400 + int (3600 * h + 60 * mi + sec) = secs"
    unfolding clock(4) days by (simp add: sod_def)
  also have "(secs - off * 60) * ns_per_s + int (if nano then ns else 0) = (if nano then t else t div ns_per_s * ns_per_s)"
  proof (cases nano)
    case True
    have "secs * ns_per_s + int ns = l" by (simp add: secs_def ns(2))
    then show ?thesis using True by (simp add: l_def algebra_simps)
  next
    case False
    have "secs = t div ns_per_s + off * 60" by (simp add: secs_def l_def ns_per_s_def)
    then show ?thesis using False by simp
  qed
  finally show ?thesis .
qed

end
