(* ===== verification/OrderWire.thy ===== *)
theory OrderWire
  imports Events Json Rfc3339
begin

text \<open>
  Orders on the wire: how \<^verbatim>\<open>encoding/json\<close> writes and reads the structs of the example, by field
  names and tags: \<^verbatim>\<open>Item\<close>, \<^verbatim>\<open>Order\<close> (as the cache and the database column hold them),
  \<^verbatim>\<open>OrderEvent\<close> (\<^verbatim>\<open>events.go\<close>), \<^verbatim>\<open>createOrderRequest\<close> and \<^verbatim>\<open>orderResponse\<close> (\<^verbatim>\<open>httpapi.go\<close>). Keys are
  matched without regard to case, unknown keys are skipped, null leaves a field as it is, and
  a slice is replaced as a whole. The offset from UTC at which a time is printed is the
  parameter \<open>zone\<close>.
\<close>


section \<open>Reading into structs\<close>

function fold_key :: "string \<Rightarrow> string" where
  "fold_key s =
     (if s = [] then []
      else if take 3 s = [CHR 0xE2, CHR 0x84, CHR 0xAA] then CHR ''k'' # fold_key (drop 3 s)
      else if take 2 s = [CHR 0xC5, CHR 0xBF] then CHR ''s'' # fold_key (drop 2 s)
      else (if in_range (hd s) 65 90 then char_of (of_char (hd s) + 32 :: nat) else hd s) # fold_key (tl s))"
  by auto
termination by (relation "measure length") auto

declare fold_key.simps [simp del]

definition same_key :: "string \<Rightarrow> string \<Rightarrow> bool" where
  "same_key k name \<longleftrightarrow> fold_key k = fold_key name"

fun dec_fields :: "(string \<Rightarrow> json \<Rightarrow> 'r \<Rightarrow> 'r option) \<Rightarrow> (string \<times> json) list \<Rightarrow> 'r \<Rightarrow> 'r option" where
  "dec_fields assign [] r = Some r"
| "dec_fields assign ((k, v) # ms) r = Option.bind (assign k v r) (dec_fields assign ms)"

definition dec_struct :: "(string \<Rightarrow> json \<Rightarrow> 'r \<Rightarrow> 'r option) \<Rightarrow> json \<Rightarrow> 'r \<Rightarrow> 'r option" where
  "dec_struct assign v r = (case v of JObj ms \<Rightarrow> dec_fields assign ms r | JNull \<Rightarrow> Some r | _ \<Rightarrow> None)"

definition dec_string :: "json \<Rightarrow> string \<Rightarrow> string option" where
  "dec_string v old = (case v of JStr s \<Rightarrow> Some s | JNull \<Rightarrow> Some old | _ \<Rightarrow> None)"

text \<open>\<^verbatim>\<open>strconv.ParseInt\<close> in base ten, for a signed integer of the given width.\<close>

definition parse_int :: "nat \<Rightarrow> string \<Rightarrow> int option" where
  "parse_int w s =
     (let neg = (s \<noteq> [] \<and> hd s = CHR ''-''); ds = (if s \<noteq> [] \<and> (hd s = CHR ''-'' \<or> hd s = CHR ''+'') then tl s else s);
          i = (if neg then - int (digits_val ds) else int (digits_val ds))
      in if ds \<noteq> [] \<and> list_all is_digit ds \<and> - (2 ^ (w - 1)) \<le> i \<and> i < 2 ^ (w - 1) then Some i else None)"

definition dec_int32 :: "json \<Rightarrow> int \<Rightarrow> int option" where
  "dec_int32 v old = (case v of JNum n \<Rightarrow> parse_int 32 n | JNull \<Rightarrow> Some old | _ \<Rightarrow> None)"

fun dec_elems :: "(json \<Rightarrow> 'a option) \<Rightarrow> json list \<Rightarrow> 'a list option" where
  "dec_elems dec [] = Some []"
| "dec_elems dec (v # vs) = Option.bind (dec v) (\<lambda>x. map_option ((#) x) (dec_elems dec vs))"

text \<open>
  The elements of a slice are decoded from zero. Only for an object that has the key of the
  slice twice does Go decode the second array into the elements of the first, so that a member
  missing there keeps the value of the first array; this is left out. A nil and an empty slice
  are the same list.
\<close>

definition dec_slice :: "(json \<Rightarrow> 'a option) \<Rightarrow> json \<Rightarrow> 'a list option" where
  "dec_slice dec v = (case v of JArr vs \<Rightarrow> dec_elems dec vs | JNull \<Rightarrow> Some [] | _ \<Rightarrow> None)"

text \<open>A time is strict RFC 3339: no comma before the fraction.\<close>

definition dec_time :: "json \<Rightarrow> int \<Rightarrow> int option" where
  "dec_time v old = (case v of
     JStr s \<Rightarrow> if CHR '','' \<in> set s then None else parse_time s
   | JNull \<Rightarrow> Some old | _ \<Rightarrow> None)"

text \<open>A time outside the years 0 to 9999 cannot be written.\<close>

definition enc_time :: "(int \<Rightarrow> int) \<Rightarrow> int \<Rightarrow> json option" where
  "enc_time zone t = (if printable (zone t) t then Some (JStr (format_time True (zone t) t)) else None)"

definition Unmarshal :: "(json \<Rightarrow> 'r \<Rightarrow> 'r option) \<Rightarrow> string \<Rightarrow> 'r \<Rightarrow> 'r option" where
  "Unmarshal dec s r = Option.bind (parse_json s) (\<lambda>v. dec v r)"

text \<open>The errors of \<^verbatim>\<open>encoding/json\<close>; their texts are not modelled.\<close>

definition json_error :: err where
  "json_error = LibErr ''encoding/json'' ''''"


section \<open>Numbers and times come back\<close>

lemma show_nat_hd: "n \<noteq> 0 \<Longrightarrow> hd (show_nat n) \<noteq> CHR ''0''"
proof (induction n rule: show_nat.induct)
  case (1 n)
  show ?case
  proof (cases "n < 10")
    case True
    have "(of_char (hd (show_nat n)) :: nat) = 48 + n"
      using True by (subst show_nat.simps) simp
    then show ?thesis using 1(2) by auto
  next
    case False
    then show ?thesis using 1 by (subst show_nat.simps) simp
  qed
qed

lemma is_digit_eq: "is_digit c = digit c"
  by (simp add: is_digit_def digit_def in_range_def)

lemma show_nat_is_digit: "list_all is_digit (show_nat n)"
  using show_nat_digits by (simp add: is_digit_eq [abs_def])

lemma minus_not_digit [simp]: "\<not> is_digit (CHR ''-'')" "\<not> is_digit (CHR ''+'')"
  by (simp_all add: is_digit_def in_range_def)

lemma show_nat_no_sign: "hd (show_nat n) \<noteq> CHR ''-''" "hd (show_nat n) \<noteq> CHR ''+''"
  using show_nat_is_digit [of n] show_nat_not_Nil [of n] minus_not_digit
  by (metis hd_in_set list_all_iff)+

lemma parse_int_itoa: "- (2 ^ (w - 1)) \<le> i \<Longrightarrow> i < 2 ^ (w - 1) \<Longrightarrow> parse_int w (itoa i) = Some i"
  using show_nat_is_digit show_nat_no_sign by (auto simp: parse_int_def itoa_def Let_def)

lemma valid_num_itoa: "valid_num (itoa i)"
proof -
  have dig: "valid_num (show_nat n)" "valid_num (CHR ''-'' # show_nat n)" for n
  proof -
    obtain c r where cr: "show_nat n = c # r" by (cases "show_nat n") auto
    have d: "is_digit c" "dropWhile is_digit r = []"
      using show_nat_is_digit [of n] by (auto simp: cr list_all_iff)
    have "c \<noteq> CHR ''0'' \<or> r = []"
    proof (cases "n = 0")
      case True
      then show ?thesis using cr by (subst (asm) show_nat.simps) simp
    qed (use show_nat_hd [of n] cr in simp)
    moreover have "c \<noteq> CHR ''-''" using d(1) by auto
    moreover have "num_frac (dropWhile is_digit r)" "num_frac []" unfolding d(2) by (simp_all add: num_frac_def)
    ultimately show "valid_num (show_nat n)" "valid_num (CHR ''-'' # show_nat n)"
      using d(1) by (simp_all add: valid_num_def cr)
  qed
  show ?thesis by (simp add: itoa_def dig)
qed

lemma num_char_itoa: "list_all num_char (itoa i)"
  using show_nat_is_digit by (auto simp: itoa_def num_char_def list_all_iff)

definition time_char :: "char \<Rightarrow> bool" where
  "time_char c \<longleftrightarrow> digit c \<or> c \<in> {CHR ''-'', CHR ''+'', CHR '':'', CHR ''T'', CHR ''.'', CHR ''Z''}"

lemma pad_time_char: "list_all time_char (pad w n)"
  using pad_digits [of w n] by (auto simp: list_all_iff time_char_def)

lemma trim_time_char: "list_all time_char s \<Longrightarrow> list_all time_char (trim_zeros s)"
  by (auto simp: list_all_iff trim_zeros_def dest: set_dropWhileD)

lemma format_time_char: "list_all time_char (format_time nano off t)"
proof -
  have "time_char (CHR ''-'')" "time_char (CHR ''+'')" "time_char (CHR '':'')" "time_char (CHR ''T'')"
    "time_char (CHR ''.'')" "time_char (CHR ''Z'')" by (simp_all add: time_char_def)
  then show ?thesis
    by (simp add: format_time_def Let_def date_text_def year_text_def clock_text_def zone_text_def fraction_text_def
        pad_time_char trim_time_char)
qed

lemma time_char_ascii: "time_char c \<Longrightarrow> in_range c 0 0x7F \<and> c \<noteq> CHR '',''"
  by (auto simp: time_char_def digit_def in_range_def)

lemma format_time_ascii:
  "valid_utf8 (format_time nano off t)" "CHR '','' \<notin> set (format_time nano off t)"
proof -
  have "list_all (\<lambda>c. in_range c 0 0x7F \<and> c \<noteq> CHR '','') (format_time nano off t)"
    using format_time_char by (rule list.pred_mono_strong) (rule time_char_ascii)
  then have *: "\<forall>c \<in> set (format_time nano off t). in_range c 0 0x7F \<and> c \<noteq> CHR '',''"
    by (simp only: list_all_iff)
  show "valid_utf8 (format_time nano off t)"
    by (rule valid_utf8_ascii, unfold list_all_iff) (use * in blast)
  show "CHR '','' \<notin> set (format_time nano off t)" using * by blast
qed

lemma enc_dec_time: "enc_time zone t = Some v \<Longrightarrow> dec_time v old = Some t"
  using format_time_ascii(2) by (auto simp: enc_time_def dec_time_def parse_format split: if_split_asm)

lemma depth_enc_time: "enc_time zone t = Some v \<Longrightarrow> depth v = 0"
  by (auto simp: enc_time_def split: if_splits)

lemma enc_time_wf: "enc_time zone t = Some v \<Longrightarrow> wf_json v"
  using format_time_ascii(1) by (auto simp: enc_time_def split: if_split_asm)


section \<open>Items\<close>

definition zero_time :: int where
  "zero_time = - 62135596800 * ns_per_s"

definition item_json :: "string \<Rightarrow> string \<Rightarrow> Item \<Rightarrow> json" where
  "item_json ks kq it = JObj [(ks, JStr (SKU it)), (kq, JNum (itoa (Quantity it)))]"

definition dec_item :: "string \<Rightarrow> string \<Rightarrow> json \<Rightarrow> Item option" where
  "dec_item ks kq v = dec_struct
     (\<lambda>k v r. if same_key k ks then map_option (\<lambda>s. r\<lparr>SKU := s\<rparr>) (dec_string v (SKU r))
              else if same_key k kq then map_option (\<lambda>q. r\<lparr>Quantity := q\<rparr>) (dec_int32 v (Quantity r))
              else Some r)
     v \<lparr>SKU = '''', Quantity = 0\<rparr>"

text \<open>An item as a Go value: its quantity is an int32 and its SKU is UTF-8.\<close>

definition wf_item :: "Item \<Rightarrow> bool" where
  "wf_item it \<longleftrightarrow> valid_utf8 (SKU it) \<and> - (2 ^ 31) \<le> Quantity it \<and> Quantity it < 2 ^ 31"

lemma dec_item_json:
  "wf_item it \<Longrightarrow> \<not> same_key kq ks \<Longrightarrow> dec_item ks kq (item_json ks kq it) = Some it"
  using parse_int_itoa [of 32 "Quantity it"]
  by (simp add: dec_item_def item_json_def dec_struct_def dec_string_def dec_int32_def wf_item_def same_key_def)

lemma dec_elems_map: "(\<And>x. x \<in> set xs \<Longrightarrow> dec (enc x) = Some x) \<Longrightarrow> dec_elems dec (map enc xs) = Some xs"
  by (induction xs) auto

lemma wf_item_json: "wf_item it \<Longrightarrow> valid_utf8 ks \<Longrightarrow> valid_utf8 kq \<Longrightarrow> wf_json (item_json ks kq it)"
  by (simp add: item_json_def wf_item_def valid_num_itoa num_char_itoa)

lemma fold_key_names [simp]:
  "fold_key ''SKU'' = ''sku''" "fold_key ''Quantity'' = ''quantity''" "fold_key ''sku'' = ''sku''"
  "fold_key ''quantity'' = ''quantity''" "fold_key ''ID'' = ''id''" "fold_key ''CustomerID'' = ''customerid''"
  "fold_key ''Items'' = ''items''" "fold_key ''Status'' = ''status''" "fold_key ''CreatedAt'' = ''createdat''"
  "fold_key ''UpdatedAt'' = ''updatedat''" "fold_key ''type'' = ''type''" "fold_key ''order_id'' = ''order_id''"
  "fold_key ''customer_id'' = ''customer_id''" "fold_key ''status'' = ''status''" "fold_key ''at'' = ''at''"
  "fold_key ''items'' = ''items''" "fold_key ''id'' = ''id''" "fold_key ''created_at'' = ''created_at''"
  "fold_key ''updated_at'' = ''updated_at''"
  by code_simp+

lemma valid_utf8_names [simp]:
  "valid_utf8 ''SKU''" "valid_utf8 ''Quantity''" "valid_utf8 ''sku''" "valid_utf8 ''quantity''" "valid_utf8 ''ID''"
  "valid_utf8 ''CustomerID''" "valid_utf8 ''Items''" "valid_utf8 ''Status''" "valid_utf8 ''CreatedAt''"
  "valid_utf8 ''UpdatedAt''" "valid_utf8 ''type''" "valid_utf8 ''order_id''" "valid_utf8 ''customer_id''"
  "valid_utf8 ''status''" "valid_utf8 ''at''" "valid_utf8 ''items''" "valid_utf8 ''id''" "valid_utf8 ''created_at''"
  "valid_utf8 ''updated_at''"
  by code_simp+


section \<open>Orders\<close>

text \<open>
  The line items as an array. Go prints null for a nil slice and \<^verbatim>\<open>[]\<close> for an empty one; the model,
  which has one empty list, prints the latter, and both are read back as the empty list. The
  service itself creates no order without items (\<^verbatim>\<open>ValidateNewOrder\<close>).
\<close>

definition items_json :: "string \<Rightarrow> string \<Rightarrow> Item list \<Rightarrow> json" where
  "items_json ks kq its = JArr (map (item_json ks kq) its)"

definition order_json :: "(int \<Rightarrow> int) \<Rightarrow> Order \<Rightarrow> json option" where
  "order_json zone x =
     do {
       c \<leftarrow> enc_time zone (CreatedAt x);
       u \<leftarrow> enc_time zone (UpdatedAt x);
       Some (JObj [(''ID'', JStr (ID x)), (''CustomerID'', JStr (CustomerID x)),
         (''Items'', items_json ''SKU'' ''Quantity'' (Items x)), (''Status'', JStr (Status x)),
         (''CreatedAt'', c), (''UpdatedAt'', u)])
     }"

definition marshal_order :: "(int \<Rightarrow> int) \<Rightarrow> Order \<Rightarrow> string option" where
  "marshal_order zone x = map_option print_json (order_json zone x)"

definition zero_order :: Order where
  "zero_order = \<lparr>ID = '''', CustomerID = '''', Items = [], Status = '''', CreatedAt = zero_time, UpdatedAt = zero_time\<rparr>"

definition dec_order :: "json \<Rightarrow> Order \<Rightarrow> Order option" where
  "dec_order = dec_struct
     (\<lambda>k v r.
        if same_key k ''ID'' then map_option (\<lambda>s. r\<lparr>ID := s\<rparr>) (dec_string v (ID r))
        else if same_key k ''CustomerID'' then map_option (\<lambda>s. r\<lparr>CustomerID := s\<rparr>) (dec_string v (CustomerID r))
        else if same_key k ''Items'' then map_option (\<lambda>its. r\<lparr>Items := its\<rparr>) (dec_slice (dec_item ''SKU'' ''Quantity'') v)
        else if same_key k ''Status'' then map_option (\<lambda>s. r\<lparr>Status := s\<rparr>) (dec_string v (Status r))
        else if same_key k ''CreatedAt'' then map_option (\<lambda>t. r\<lparr>CreatedAt := t\<rparr>) (dec_time v (CreatedAt r))
        else if same_key k ''UpdatedAt'' then map_option (\<lambda>t. r\<lparr>UpdatedAt := t\<rparr>) (dec_time v (UpdatedAt r))
        else Some r)"

definition unmarshal_order :: "string \<Rightarrow> Order option" where
  "unmarshal_order s = Unmarshal dec_order s zero_order"

definition wf_order :: "Order \<Rightarrow> bool" where
  "wf_order x \<longleftrightarrow> valid_utf8 (ID x) \<and> valid_utf8 (CustomerID x) \<and> valid_utf8 (Status x) \<and> list_all wf_item (Items x)"

lemma items_roundtrip:
  assumes "list_all wf_item its" and "\<not> same_key kq ks"
  shows "dec_slice (dec_item ks kq) (items_json ks kq its) = Some its"
  using assms by (auto simp: items_json_def dec_slice_def list_all_iff intro: dec_elems_map dec_item_json)

lemma depth_items: "2 \<le> b \<Longrightarrow> depth (items_json ks kq its) \<le> b"
  by (cases b) (auto simp: items_json_def item_json_def fold_max_le list_all_iff)

lemma items_wf: "list_all wf_item its \<Longrightarrow> valid_utf8 ks \<Longrightarrow> valid_utf8 kq \<Longrightarrow> wf_json (items_json ks kq its)"
  by (auto simp: items_json_def list_all_iff intro: wf_item_json)

text \<open>The line items alone, as the database column holds them.\<close>

definition items_text :: "Item list \<Rightarrow> string" where
  "items_text its = print_json (items_json ''SKU'' ''Quantity'' its)"

definition unmarshal_items :: "string \<Rightarrow> Item list option" where
  "unmarshal_items s = Unmarshal (\<lambda>v old. dec_slice (dec_item ''SKU'' ''Quantity'') v) s []"

lemma items_text_roundtrip: "list_all wf_item its \<Longrightarrow> unmarshal_items (items_text its) = Some its"
  using items_roundtrip [of its "''Quantity''" "''SKU''"]
  by (simp add: unmarshal_items_def items_text_def Unmarshal_def parse_print items_wf depth_items max_depth_def same_key_def)

lemma order_roundtrip:
  assumes "wf_order x" and "marshal_order zone x = Some s"
  shows "unmarshal_order s = Some x"
proof -
  from assms(2) obtain c u where c: "enc_time zone (CreatedAt x) = Some c" and u: "enc_time zone (UpdatedAt x) = Some u"
    and s: "s = print_json (JObj [(''ID'', JStr (ID x)), (''CustomerID'', JStr (CustomerID x)),
         (''Items'', items_json ''SKU'' ''Quantity'' (Items x)), (''Status'', JStr (Status x)),
         (''CreatedAt'', c), (''UpdatedAt'', u)])" (is "s = print_json ?v")
    by (auto simp: marshal_order_def order_json_def split: Option.bind_splits)
  have "wf_json ?v"
    using assms(1) c u by (simp add: wf_order_def enc_time_wf items_wf)
  moreover have "depth ?v \<le> max_depth"
    by (simp add: depth_enc_time [OF c] depth_enc_time [OF u] fold_max_le depth_items max_depth_def)
  ultimately have "parse_json s = Some ?v" unfolding s by (rule parse_print)
  moreover have "dec_order ?v zero_order = Some x"
    using assms(1) enc_dec_time [OF c] enc_dec_time [OF u] items_roundtrip [of "Items x" "''Quantity''" "''SKU''"]
    by (simp add: dec_order_def dec_struct_def same_key_def dec_string_def zero_order_def wf_order_def)
  ultimately show ?thesis by (simp add: unmarshal_order_def Unmarshal_def)
qed

text \<open>C32.
  An order written to the cache is read back as it was: JSON text, escapes, numbers and
  timestamps included, in every time zone. Writing it fails only for a timestamp outside the
  years 0 to 9999.
\<close>
theorem order_json_roundtrip:
  assumes "wf_order x" and "marshal_order zone x = Some s"
  shows "unmarshal_order s = Some x"
  using assms by (rule order_roundtrip)

definition demo_order :: Order where
  "demo_order = \<lparr>ID = ''ord_7'', CustomerID = [CHR 0x22, CHR 0xC3, CHR 0xA9, CHR ''<''], Items = [\<lparr>SKU = ''a'', Quantity = 2\<rparr>],
     Status = ''PENDING'', CreatedAt = 1700000000123000000, UpdatedAt = 1700000001000000000\<rparr>"

theorem order_json_roundtrip_witness:
  "\<exists>s. marshal_order (\<lambda>_. 120) demo_order = Some s \<and> unmarshal_order s = Some demo_order"
proof -
  have wf: "wf_order demo_order" by code_simp
  have "marshal_order (\<lambda>_. 120) demo_order \<noteq> None"
  proof -
    have "printable 120 1700000000123000000" "printable 120 1700000001000000000" by code_simp+
    then show ?thesis by (simp add: marshal_order_def order_json_def enc_time_def demo_order_def)
  qed
  then obtain s where "marshal_order (\<lambda>_. 120) demo_order = Some s" by blast
  with order_json_roundtrip [OF wf this] show ?thesis by blast
qed

text \<open>What the in-memory store makes up itself is plain ASCII.\<close>

lemma order_id_utf8: "valid_utf8 (order_id n)"
proof -
  have "list_all (\<lambda>c. in_range c 0 0x7F) (show_nat (unat n))"
    using show_nat_digits [of "unat n"] by (auto simp: list_all_iff digit_def in_range_def)
  then have "list_all (\<lambda>c. in_range c 0 0x7F) (order_id n)" by (simp add: order_id_def in_range_def)
  then show ?thesis by (rule valid_utf8_ascii)
qed

lemma status_utf8: "valid_utf8 StatusPending" "valid_utf8 StatusConfirmed" "valid_utf8 StatusCanceled"
  by (rule valid_utf8_ascii, simp add: status_defs in_range_def)+


section \<open>Events\<close>

definition event_json :: "(int \<Rightarrow> int) \<Rightarrow> OrderEvent \<Rightarrow> json option" where
  "event_json zone e =
     do {
       t \<leftarrow> enc_time zone (At e);
       Some (JObj [(''type'', JStr (Type e)), (''order_id'', JStr (OrderID e)), (''customer_id'', JStr (EvCustomer e)),
         (''status'', JStr (EvStatus e)), (''at'', t)])
     }"

definition marshal_event :: "(int \<Rightarrow> int) \<Rightarrow> OrderEvent \<Rightarrow> string option" where
  "marshal_event zone e = map_option print_json (event_json zone e)"

definition zero_event :: OrderEvent where
  "zero_event = \<lparr>Type = '''', OrderID = '''', EvCustomer = '''', EvStatus = '''', At = zero_time\<rparr>"

definition dec_event :: "json \<Rightarrow> OrderEvent \<Rightarrow> OrderEvent option" where
  "dec_event = dec_struct
     (\<lambda>k v r.
        if same_key k ''type'' then map_option (\<lambda>s. r\<lparr>Type := s\<rparr>) (dec_string v (Type r))
        else if same_key k ''order_id'' then map_option (\<lambda>s. r\<lparr>OrderID := s\<rparr>) (dec_string v (OrderID r))
        else if same_key k ''customer_id'' then map_option (\<lambda>s. r\<lparr>EvCustomer := s\<rparr>) (dec_string v (EvCustomer r))
        else if same_key k ''status'' then map_option (\<lambda>s. r\<lparr>EvStatus := s\<rparr>) (dec_string v (EvStatus r))
        else if same_key k ''at'' then map_option (\<lambda>t. r\<lparr>At := t\<rparr>) (dec_time v (At r))
        else Some r)"

definition wf_event :: "OrderEvent \<Rightarrow> bool" where
  "wf_event e \<longleftrightarrow> valid_utf8 (Type e) \<and> valid_utf8 (OrderID e) \<and> valid_utf8 (EvCustomer e) \<and> valid_utf8 (EvStatus e)"

lemma event_roundtrip:
  assumes "wf_event e" and "marshal_event zone e = Some s"
  shows "Unmarshal dec_event s zero_event = Some e"
proof -
  from assms(2) obtain t where t: "enc_time zone (At e) = Some t"
    and s: "s = print_json (JObj [(''type'', JStr (Type e)), (''order_id'', JStr (OrderID e)),
         (''customer_id'', JStr (EvCustomer e)), (''status'', JStr (EvStatus e)), (''at'', t)])" (is "s = print_json ?v")
    by (auto simp: marshal_event_def event_json_def split: Option.bind_splits)
  have "wf_json ?v" using assms(1) t by (simp add: wf_event_def enc_time_wf)
  moreover have "depth ?v \<le> max_depth" by (simp add: depth_enc_time [OF t] max_depth_def)
  ultimately have "parse_json s = Some ?v" unfolding s by (rule parse_print)
  moreover have "dec_event ?v zero_event = Some e"
    using enc_dec_time [OF t]
    by (simp add: dec_event_def dec_struct_def same_key_def dec_string_def zero_event_def)
  ultimately show ?thesis by (simp add: Unmarshal_def)
qed


section \<open>Requests and responses of the REST API\<close>

record createOrderRequest =
  reqCustomer :: string
  reqItems :: "Item list"

definition request_json :: "createOrderRequest \<Rightarrow> json" where
  "request_json r = JObj [(''customer_id'', JStr (reqCustomer r)), (''items'', items_json ''sku'' ''quantity'' (reqItems r))]"

definition dec_request :: "json \<Rightarrow> createOrderRequest \<Rightarrow> createOrderRequest option" where
  "dec_request = dec_struct
     (\<lambda>k v r.
        if same_key k ''customer_id'' then map_option (\<lambda>s. r\<lparr>reqCustomer := s\<rparr>) (dec_string v (reqCustomer r))
        else if same_key k ''items'' then map_option (\<lambda>its. r\<lparr>reqItems := its\<rparr>) (dec_slice (dec_item ''sku'' ''quantity'') v)
        else Some r)"

definition zero_request :: createOrderRequest where
  "zero_request = \<lparr>reqCustomer = '''', reqItems = []\<rparr>"

lemma dec_request_json: "list_all wf_item (reqItems r) \<Longrightarrow> dec_request (request_json r) zero_request = Some r"
  using items_roundtrip [of "reqItems r" "''quantity''" "''sku''"]
  by (simp add: dec_request_def request_json_def dec_struct_def same_key_def dec_string_def zero_request_def)

lemma request_json_wf: "list_all wf_item (reqItems r) \<Longrightarrow> valid_utf8 (reqCustomer r) \<Longrightarrow> wf_json (request_json r)"
  by (simp add: request_json_def items_wf)

record orderResponse =
  respID :: string
  respCustomer :: string
  respStatus :: string
  respItems :: "Item list"
  respCreated :: string
  respUpdated :: string

definition toResponse :: "(int \<Rightarrow> int) \<Rightarrow> Order \<Rightarrow> orderResponse" where
  "toResponse zone x =
     \<lparr>respID = ID x, respCustomer = CustomerID x, respStatus = Status x, respItems = Items x,
      respCreated = format_time False (zone (CreatedAt x)) (CreatedAt x),
      respUpdated = format_time False (zone (UpdatedAt x)) (UpdatedAt x)\<rparr>"

definition response_json :: "orderResponse \<Rightarrow> json" where
  "response_json r = JObj [(''id'', JStr (respID r)), (''customer_id'', JStr (respCustomer r)),
     (''status'', JStr (respStatus r)), (''items'', items_json ''sku'' ''quantity'' (respItems r)),
     (''created_at'', JStr (respCreated r)), (''updated_at'', JStr (respUpdated r))]"

definition zero_response :: orderResponse where
  "zero_response = \<lparr>respID = '''', respCustomer = '''', respStatus = '''', respItems = [], respCreated = '''', respUpdated = ''''\<rparr>"

definition dec_response :: "json \<Rightarrow> orderResponse option" where
  "dec_response v = dec_struct
     (\<lambda>k v r.
        if same_key k ''id'' then map_option (\<lambda>s. r\<lparr>respID := s\<rparr>) (dec_string v (respID r))
        else if same_key k ''customer_id'' then map_option (\<lambda>s. r\<lparr>respCustomer := s\<rparr>) (dec_string v (respCustomer r))
        else if same_key k ''status'' then map_option (\<lambda>s. r\<lparr>respStatus := s\<rparr>) (dec_string v (respStatus r))
        else if same_key k ''items'' then map_option (\<lambda>its. r\<lparr>respItems := its\<rparr>) (dec_slice (dec_item ''sku'' ''quantity'') v)
        else if same_key k ''created_at'' then map_option (\<lambda>s. r\<lparr>respCreated := s\<rparr>) (dec_string v (respCreated r))
        else if same_key k ''updated_at'' then map_option (\<lambda>s. r\<lparr>respUpdated := s\<rparr>) (dec_string v (respUpdated r))
        else Some r)
     v zero_response"

definition wf_response :: "orderResponse \<Rightarrow> bool" where
  "wf_response r \<longleftrightarrow> list_all valid_utf8 [respID r, respCustomer r, respStatus r, respCreated r, respUpdated r] \<and>
     list_all wf_item (respItems r)"

lemma dec_response_json: "wf_response r \<Longrightarrow> dec_response (response_json r) = Some r"
  using items_roundtrip [of "respItems r" "''quantity''" "''sku''"]
  by (simp add: dec_response_def response_json_def dec_struct_def same_key_def dec_string_def zero_response_def wf_response_def)

lemma response_json_wf: "wf_response r \<Longrightarrow> wf_json (response_json r)"
  by (simp add: response_json_def wf_response_def items_wf)

lemma toResponse_wf: "wf_order x \<Longrightarrow> wf_response (toResponse zone x)"
  by (simp add: wf_order_def wf_response_def toResponse_def format_time_ascii)

lemma request_json_depth: "depth (request_json r) \<le> max_depth"
  by (simp add: request_json_def fold_max_le depth_items max_depth_def)

lemma response_json_depth: "3 \<le> b \<Longrightarrow> depth (response_json r) \<le> b"
  by (cases b) (simp_all add: response_json_def fold_max_le depth_items)

end
