(* ===== verification/EventBus.thy ===== *)
theory EventBus
  imports OrderWire KafkaProducer KafkaConsumer
begin

text \<open>
  The way of an event through Kafka: KafkaPublisher (\<^verbatim>\<open>example/orders-service/store/publisher.go\<close>)
  writes it with the producer, and the consumer's handler \<^verbatim>\<open>logOrderEvent\<close>
  (\<^verbatim>\<open>serverkit/backends.go\<close>) reads it back.
\<close>

record ('tls, 'm) KafkaPublisher =
  pubWriter :: "('tls, 'm) writer option"
  pubApp :: string
  pubTopic :: string

definition NewKafkaPublisher :: "string \<Rightarrow> ('tls, 'm) writer option \<Rightarrow> string \<Rightarrow> ('tls, 'm) KafkaPublisher" where
  "NewKafkaPublisher app wr topic = \<lparr>pubWriter = wr, pubApp = app, pubTopic = topic\<rparr>"

definition publish ::
  "('w, 'tls, 'm) writer_api \<Rightarrow> (int \<Rightarrow> int) \<Rightarrow> ('tls, 'm) KafkaPublisher \<Rightarrow> OrderEvent \<Rightarrow> 'w \<Rightarrow> err option \<times> metric list \<times> 'w"
where
  "publish api zone k ev w =
     (case marshal_event zone ev of
        None \<Rightarrow> (Some (Wrap (''kafka publish '' @ Type ev @ '': marshal'') json_error), [], w)
      | Some payload \<Rightarrow>
          (case Produce api (pubApp k) (pubWriter k) (pubTopic k) (Some (OrderID ev)) (Some payload) [] w of
             (Some e, ms, w1) \<Rightarrow> (Some (Wrap (''kafka publish '' @ Type ev) e), ms, w1)
           | (None, ms, w1) \<Rightarrow> (None, ms, w1)))"

text \<open>What the handler logs, or the error that keeps the message uncommitted.\<close>

definition logOrderEvent :: "KafkaConsumer.Message \<Rightarrow> OrderEvent res" where
  "logOrderEvent msg =
     (case Unmarshal dec_event (case Value msg of Some b \<Rightarrow> b | None \<Rightarrow> []) zero_event of
        None \<Rightarrow> Inl (Wrap ''decode order event'' json_error)
      | Some ev \<Rightarrow> Inr ev)"

text \<open>C31.
  An event that was published without error is one message, keyed by the order's id, whose
  value the consumer's handler reads back as exactly that event: for whatever message the
  broker delivers with that value, the handler succeeds on the event.
\<close>
theorem event_delivery:
  assumes "wf_event ev" and "pubWriter k = Some wr" and "publish api zone k ev w = (None, ms, w')"
  shows "\<exists>msg. WriteMessages api wr [msg] w = (None, w') \<and> kTopic msg = pubTopic k \<and>
    kKey msg = toKafkaKey (Some (OrderID ev)) \<and>
    (\<forall>m. rValue m = kValue msg \<longrightarrow> logOrderEvent (toMessage m) = Inr ev)"
proof -
  from assms(3) obtain payload where p: "marshal_event zone ev = Some payload"
    by (auto simp: publish_def split: option.splits)
  let ?msg = "\<lparr>kTopic = pubTopic k, kKey = toKafkaKey (Some (OrderID ev)), kValue = Some payload,
      kHeaders = toKafkaHeaders []\<rparr>"
  have "WriteMessages api wr [?msg] w = (None, w')"
    using assms(2,3) p by (auto simp: publish_def Produce_def Let_def split: prod.splits option.splits)
  moreover have "logOrderEvent (toMessage m) = Inr ev" if "rValue m = Some payload" for m
    using event_roundtrip [OF assms(1) p] that by (simp add: logOrderEvent_def toMessage_def)
  ultimately show ?thesis by (intro exI [of _ ?msg]) simp
qed

definition demo_event :: OrderEvent where
  "demo_event = \<lparr>Type = EventCreated, OrderID = ''ord_7'', EvCustomer = ''ann'', EvStatus = StatusPending, At = 1700000000123000000\<rparr>"

definition demo_api :: "(nat, unit, unit) writer_api" where
  "demo_api = \<lparr>WriteMessages = (\<lambda>wr ms n. (None, n + length ms)), CloseWriter = (\<lambda>wr n. (None, n))\<rparr>"

definition demo_publisher :: "(unit, unit) KafkaPublisher" where
  "demo_publisher = NewKafkaPublisher ''orders-service''
     (Some (new_writer (KafkaProducer.New [''b''] []) \<lparr>Timeout = dialTimeout, DualStack = True, dialTLS = None, dialSASL = None\<rparr>)) OrdersEventsTopic"

theorem event_delivery_witness:
  "\<exists>wr ms w' msg. publish demo_api (\<lambda>_. 0) demo_publisher demo_event 0 = (None, ms, w') \<and>
     WriteMessages demo_api wr [msg] 0 = (None, w') \<and>
     (\<forall>m. rValue m = kValue msg \<longrightarrow> logOrderEvent (toMessage m) = Inr demo_event)"
proof -
  have wf: "wf_event demo_event" by code_simp
  obtain wr where wr: "pubWriter demo_publisher = Some wr" by (simp add: demo_publisher_def NewKafkaPublisher_def)
  have "printable 0 1700000000123000000" by code_simp
  then obtain payload where "marshal_event (\<lambda>_. 0) demo_event = Some payload"
    by (simp add: marshal_event_def event_json_def enc_time_def demo_event_def)
  then obtain ms w' where "publish demo_api (\<lambda>_. 0) demo_publisher demo_event 0 = (None, ms, w')"
    using wr by (simp add: publish_def Produce_def demo_api_def Let_def)
  with event_delivery [OF wf wr this] show ?thesis by blast
qed

end
