(* ===== verification/OrderJobs.thy ===== *)
theory OrderJobs
  imports Events WorkerPool
begin

text \<open>
  The background work of the orders example: OrderProcessor (\<^verbatim>\<open>worker.go\<close>) confirms orders on a
  worker pool, CleanupJob (\<^verbatim>\<open>cleanup.go\<close>) cancels stale ones. The machine at the end composes
  both with the calls of the API over one store: an event list is an interleaving of API
  calls, pool actions, processing of single orders and sweeps.
\<close>


section \<open>OrderProcessor\<close>

text \<open>The pool's tasks are the ids of the orders to process. None is a panic of make.\<close>

record OrderProcessor =
  procPool :: "string pool"
  processDelay :: duration

definition NewOrderProcessor :: "int \<Rightarrow> int \<Rightarrow> duration \<Rightarrow> OrderProcessor option" where
  "NewOrderProcessor lim poolSize delay =
     map_option (\<lambda>p. \<lparr>procPool = p, processDelay = delay\<rparr>) (WorkerPool.New lim poolSize [WithDrainOnStop])"

definition Enqueue :: "submit_pick \<Rightarrow> ctx \<Rightarrow> string \<Rightarrow> string pool \<Rightarrow> (err option \<times> string pool) option" where
  "Enqueue pick c i p =
     map_option
       (\<lambda>(r, q). (case r of Inl e \<Rightarrow> Some (Wrap (''enqueue order '' @ i) e) | Inr _ \<Rightarrow> None, q))
       (Submit pick c i p)"

text \<open>
  The select of process: its context ended, or the delay passed and the order is confirmed at
  the given time, with the context after the store's answer. The result is what process logs:
  nothing when it is interrupted.
\<close>

datatype process_pick = PickDone | PickTimer int ctx

datatype outcome = Interrupted | Failed err | Skipped | Confirmed

definition process :: "'s Store \<Rightarrow> process_pick \<Rightarrow> string \<Rightarrow> 's \<Rightarrow> outcome \<times> 's" where
  "process st pick i s =
     (case pick of
        PickDone \<Rightarrow> (Interrupted, s)
      | PickTimer now c \<Rightarrow>
          (case ConfirmPending st now i s of
             (Inl e, t) \<Rightarrow> (if c \<noteq> None then Interrupted else Failed e, t)
           | (Inr False, t) \<Rightarrow> (Skipped, t)
           | (Inr True, t) \<Rightarrow> (Confirmed, t)))"


text \<open>Only the end of the context cuts a processing short.\<close>

fun pick_enabled :: "bool \<Rightarrow> process_pick \<Rightarrow> bool" where
  "pick_enabled ctx_done PickDone = ctx_done"
| "pick_enabled ctx_done (PickTimer now c) = (c \<noteq> None \<longrightarrow> ctx_done)"

lemma process_interrupted: "process st pick i s = (Interrupted, t) \<Longrightarrow> pick_enabled d pick \<Longrightarrow> d"
  by (auto simp: process_def split: process_pick.splits prod.splits sum.splits bool.splits if_splits)


section \<open>CleanupJob\<close>

record CleanupJob =
  staleAfter :: duration
  gated :: bool
  warmedUp :: bool

datatype cleanup_option = WithReadyGate

fun apply_option :: "cleanup_option \<Rightarrow> CleanupJob \<Rightarrow> CleanupJob" where
  "apply_option WithReadyGate j = j\<lparr>gated := True\<rparr>"

definition NewCleanupJob :: "duration \<Rightarrow> cleanup_option list \<Rightarrow> CleanupJob" where
  "NewCleanupJob d opts = fold apply_option opts \<lparr>staleAfter = d, gated = False, warmedUp = False\<rparr>"

definition errCleanupNotWarmedUp :: err where
  "errCleanupNotWarmedUp = LibErr ''orders.errCleanupNotWarmedUp'' ''cleanup job has not completed its first sweep yet''"

text \<open>
  One sweep: \<open>gate\<close> is what the ready gate returned, \<open>c\<close> the context after the store's answer,
  \<open>now\<close> and \<open>nows\<close> the readings of the clock.
\<close>

definition run_sweep ::
  "'s Store \<Rightarrow> err option \<Rightarrow> ctx \<Rightarrow> int \<Rightarrow> (string \<Rightarrow> int) \<Rightarrow> CleanupJob \<Rightarrow> 's \<Rightarrow> err option \<times> string list \<times> CleanupJob \<times> 's"
where
  "run_sweep st gate c now nows j s =
     (if gated j \<and> gate \<noteq> None then (None, [], j, s)
      else case CancelStalePending st nows (now - staleAfter j) s of
             (Inl e, t) \<Rightarrow>
               (if c \<noteq> None then None else Some (Wrap ''cancel stale pending orders'' e), [], j, t)
           | (Inr ids, t) \<Rightarrow> (None, ids, j\<lparr>warmedUp := True\<rparr>, t))"

definition Probe :: "CleanupJob \<Rightarrow> err option" where
  "Probe j = (if warmedUp j then None else Some errCleanupNotWarmedUp)"

context order_repo
begin

text \<open>A sweep that warms the job up leaves no stale order pending; the others it does not touch.\<close>

lemma sweep_done:
  assumes "inv s" and "run_sweep st gate c now nows j s = (r, ids, j', t)" and "\<not> warmedUp j" and "Probe j' = None"
  shows "r = None \<and> (gated j \<longrightarrow> gate = None) \<and>
    (\<forall>i x. abs s i = Some x \<longrightarrow>
       (if stale (now - staleAfter j) x then i \<in> set ids \<and> (\<exists>u. abs t i = Some (x\<lparr>Status := StatusCanceled, UpdatedAt := u\<rparr>))
        else i \<notin> set ids \<and> abs t i = Some x)) \<and> dom (abs t) = dom (abs s)"
proof -
  obtain k u where k: "CancelStalePending st nows (now - staleAfter j) s = (k, u)" by force
  from assms(2-4) k obtain ks where "k = Inr ks" and g: "gated j \<longrightarrow> gate = None" and r: "r = None" "ids = ks" "t = u"
    by (auto simp: run_sweep_def Probe_def split: if_splits sum.splits)
  with cancel [OF assms(1) k, of 0] obtain ts where t: "abs t = sweep ts (now - staleAfter j) (abs s)"
    and ids: "set ids = {i. \<exists>x. abs s i = Some x \<and> stale (now - staleAfter j) x}"
    by (auto simp: swept_def)
  show ?thesis using r(1) g unfolding t ids by (auto simp: sweep_def dom_def)
qed

lemma sweep_frame:
  assumes "inv s" and "run_sweep st gate c now nows j s = (r, ids, j', t)"
  shows "inv t \<and> (room n s \<longrightarrow> room n t) \<and> evolves (abs s) (abs t)"
proof -
  obtain k u where k: "CancelStalePending st nows (now - staleAfter j) s = (k, u)" by force
  show ?thesis
    using cancel [OF assms(1) k, of n] assms k
    by (auto simp: run_sweep_def intro: evolves_effects split: if_splits sum.splits)
qed

lemma process_frame:
  assumes "inv s" and "process st pick i s = (out, t)"
  shows "inv t \<and> (room n s \<longrightarrow> room n t) \<and> evolves (abs s) (abs t) \<and>
    (out = Confirmed \<longrightarrow> (\<exists>x. abs t i = Some x \<and> Status x = StatusConfirmed)) \<and>
    (out = Skipped \<longrightarrow> (\<exists>x. abs t i = Some x \<and> Status x \<noteq> StatusPending))"
proof (cases pick)
  case PickDone
  then show ?thesis using assms by (auto simp: process_def)
next
  case (PickTimer now c)
  obtain b u where b: "ConfirmPending st now i s = (b, u)" by force
  show ?thesis
    using confirm [OF assms(1) b, of n] assms(2) b PickTimer
    by (auto simp: process_def confirmed_def intro: evolves_settle split: sum.splits bool.splits if_splits)
qed

end


section \<open>The service as one machine\<close>

text \<open>
  The API creates and reads orders and enqueues them, the pool's workers process them, the
  cleanup job sweeps. A processing is interrupted only once the pool's context has ended.
  \<open>processed\<close> lists the outcome of every task, in the order in which they finished.
\<close>

record 's service_state =
  store :: 's
  pool :: "string pool"
  job :: CleanupJob
  processed :: "(string \<times> outcome) list"

datatype service_event =
    ApiCreate int string "Item list"
  | ApiGet string
  | ApiList
  | PoolAction "string event"
  | Process nat process_pick
  | Sweep "err option" ctx int "string \<Rightarrow> int"

definition pool_action :: "string event \<Rightarrow> bool" where
  "pool_action e = (case e of Finish i \<Rightarrow> False | _ \<Rightarrow> True)"

fun service_step :: "'s Store \<Rightarrow> 's service_state \<Rightarrow> service_event \<Rightarrow> 's service_state option" where
  "service_step st s (ApiCreate now c its) = Some (s\<lparr>store := snd (Create st now c its (store s))\<rparr>)"
| "service_step st s (ApiGet i) = Some (s\<lparr>store := snd (Get st i (store s))\<rparr>)"
| "service_step st s ApiList = Some (s\<lparr>store := snd (List st (store s))\<rparr>)"
| "service_step st s (PoolAction e) =
     (if pool_action e then map_option (\<lambda>p. s\<lparr>pool := p\<rparr>) (pool_step (pool s) e) else None)"
| "service_step st s (Process i pick) =
     (if i < length (workers (pool s)) \<and> pick_enabled (ctxDone (pool s)) pick
      then case workers (pool s) ! i of
             Busy t \<Rightarrow>
               (case process st pick t (store s) of
                  (out, u) \<Rightarrow>
                    map_option (\<lambda>p. s\<lparr>pool := p, store := u, processed := processed s @ [(t, out)]\<rparr>)
                      (pool_step (pool s) (Finish i)))
           | _ \<Rightarrow> None
      else None)"
| "service_step st s (Sweep gate c now nows) =
     (case run_sweep st gate c now nows (job s) (store s) of
        (r, ids, j, u) \<Rightarrow> Some (s\<lparr>store := u, job := j\<rparr>))"

text \<open>What the log says about the orders.\<close>

definition log_ok :: "('s \<Rightarrow> string \<Rightarrow> Order option) \<Rightarrow> 's service_state \<Rightarrow> bool" where
  "log_ok f s \<longleftrightarrow> map fst (processed s) = finished (pool s) \<and>
     (\<forall>(i, out) \<in> set (processed s).
        (out = Interrupted \<longrightarrow> ctxDone (pool s)) \<and>
        (out = Confirmed \<longrightarrow> (\<exists>x. f (store s) i = Some x \<and> Status x = StatusConfirmed)) \<and>
        (out = Skipped \<longrightarrow> (\<exists>x. f (store s) i = Some x \<and> Status x \<noteq> StatusPending)))"

lemma log_ok_evolves:
  assumes "log_ok f s" and "evolves (f (store s)) (f (store t))" and "pool t = pool s" and "processed t = processed s"
  shows "log_ok f t"
  using assms(1) evolves_settled [OF assms(2)] status_distinct unfolding log_ok_def assms(3,4) by fastforce

lemma pool_action_frame:
  assumes "pool_step p e = Some q" and "pool_action e"
  shows "finished q = finished p \<and> (ctxDone p \<longrightarrow> ctxDone q)"
  using assms
  by (cases e)
    (auto simp: pool_step_def pool_action_def Submit_def split: if_splits option.splits received.splits sent.splits submit_pick.splits)

lemma pool_step_finish:
  assumes "pool_step p (Finish i) = Some q" and "workers p ! i = Busy t"
  shows "finished q = finished p @ [t] \<and> ctxDone q = ctxDone p"
  using assms by (auto simp: pool_step_def split: if_splits)

text \<open>The pool's own view of a run.\<close>

fun pool_view :: "service_event \<Rightarrow> string event list" where
  "pool_view (PoolAction e) = [e]"
| "pool_view (Process i pick) = [Finish i]"
| "pool_view _ = []"

lemma service_pool_view:
  "service_step st s e = Some t \<Longrightarrow> lts_run pool_step (pool s) (pool_view e) = Some (pool t)"
  by (cases e) (auto split: if_splits worker.splits prod.splits)

lemma service_run_pool:
  "lts_run (service_step st) s es = Some t \<Longrightarrow> pool_run (pool s) (concat (map pool_view es)) = Some (pool t)"
proof (induction es arbitrary: s)
  case Nil
  then show ?case by (simp add: pool_run_def)
next
  case (Cons e es)
  then obtain u where u: "service_step st s e = Some u" "lts_run (service_step st) u es = Some t"
    unfolding lts_run_Cons_Some by blast
  with service_pool_view [OF u(1)] Cons.IH [OF u(2)] show ?case
    by (simp add: pool_run_def lts_run_append)
qed

context order_repo
begin

lemma service_step_ok:
  assumes "service_step st s e = Some t" and "inv (store s)" and "room (Suc n) (store s)" and "log_ok abs s"
  shows "inv (store t) \<and> room n (store t) \<and> log_ok abs t"
proof (cases e)
  case (ApiCreate now c its)
  have "inv (store t) \<and> room n (store t) \<and> evolves (abs (store s)) (abs (store t))"
    using exec_effect [OF assms(2,3), of "CCreate now c its"] assms(1) ApiCreate by auto
  then show ?thesis using log_ok_evolves [OF assms(4)] assms(1) ApiCreate by auto
next
  case (ApiGet i)
  have "inv (store t) \<and> room n (store t) \<and> evolves (abs (store s)) (abs (store t))"
    using exec_effect [OF assms(2,3), of "CGet i"] assms(1) ApiGet by auto
  then show ?thesis using log_ok_evolves [OF assms(4)] assms(1) ApiGet by auto
next
  case ApiList
  have "inv (store t) \<and> room n (store t) \<and> evolves (abs (store s)) (abs (store t))"
    using exec_effect [OF assms(2,3), of CList] assms(1) ApiList by auto
  then show ?thesis using log_ok_evolves [OF assms(4)] assms(1) ApiList by auto
next
  case (PoolAction a)
  then obtain p where p: "pool_step (pool s) a = Some p" "pool_action a" and t: "t = s\<lparr>pool := p\<rparr>"
    using assms(1) by (auto split: if_splits)
  show ?thesis
    using pool_action_frame [OF p] assms(2,4) room_less [OF assms(3)] by (fastforce simp: t log_ok_def)
next
  case (Process i pick)
  then obtain w out u p where w: "workers (pool s) ! i = Busy w" and pr: "process st pick w (store s) = (out, u)"
    and p: "pool_step (pool s) (Finish i) = Some p" and d: "pick_enabled (ctxDone (pool s)) pick"
    and t: "t = s\<lparr>pool := p, store := u, processed := processed s @ [(w, out)]\<rparr>"
    using assms(1) by (auto split: if_splits worker.splits prod.splits)
  note fr = process_frame [OF assms(2) pr, of n] and fin = pool_step_finish [OF p w]
  have old: "log_ok abs (s\<lparr>store := u\<rparr>)" using fr by (intro log_ok_evolves [OF assms(4)]) simp_all
  have "out = Interrupted \<longrightarrow> ctxDone (pool s)" using process_interrupted [of st pick w "store s" u, OF _ d] pr by simp
  then show ?thesis
    using old fr fin room_less [OF assms(3)] by (auto simp: t log_ok_def)
next
  case (Sweep gate c now nows)
  then obtain r ids j u where sw: "run_sweep st gate c now nows (job s) (store s) = (r, ids, j, u)"
    and t: "t = s\<lparr>store := u, job := j\<rparr>" using assms(1) by (auto split: prod.splits)
  show ?thesis
    using sweep_frame [OF assms(2) sw, of n] room_less [OF assms(3)] by (auto simp: t intro: log_ok_evolves [OF assms(4)])
qed

lemma service_run_ok:
  "lts_run (service_step st) s es = Some t \<Longrightarrow> inv (store s) \<Longrightarrow> room (length es) (store s) \<Longrightarrow> log_ok abs s \<Longrightarrow>
   inv (store t) \<and> log_ok abs t"
proof (induction es arbitrary: s)
  case Nil
  then show ?case by simp
next
  case (Cons e es)
  then obtain u where u: "service_step st s e = Some u" "lts_run (service_step st) u es = Some t"
    unfolding lts_run_Cons_Some by blast
  from service_step_ok [OF u(1) Cons.prems(2)] Cons.prems(3,4) have "inv (store u)" "room (length es) (store u)" "log_ok abs u"
    by auto
  from Cons.IH [OF u(2) this] show ?case .
qed

end

text \<open>Two more facts about runs: the pool keeps draining, and the memory store only fails on unknown ids.\<close>

lemma pool_step_drains: "pool_step p e = Some q \<Longrightarrow> drainOnStop q = drainOnStop p"
  by (cases e)
    (auto simp: pool_step_def Submit_def split: if_splits option.splits received.splits sent.splits submit_pick.splits worker.splits)

interpretation dos: lts_invariant pool_step drainOnStop
  by unfold_locales (simp add: pool_step_drains)

definition only_unknown :: "'s service_state \<Rightarrow> bool" where
  "only_unknown s \<longleftrightarrow> (\<forall>i e. (i, Failed e) \<in> set (processed s) \<longrightarrow> e = ErrOrderNotFound)"

interpretation unk: lts_invariant "service_step mem_store" only_unknown
proof (unfold_locales, goal_cases)
  case (1 s e t)
  then show ?case
    by (cases e)
      (auto simp: only_unknown_def process_def mem_confirm_def
        split: if_splits worker.splits prod.splits process_pick.splits option.splits)
qed


section \<open>Properties\<close>


text \<open>One order, processed and confirmed before the pool is stopped.\<close>

definition demo_events :: "service_event list" where
  "demo_events =
     [ApiCreate 1 ''ann'' [], PoolAction StartWorkers, PoolAction (SubmitCall PickSend None ''ord_1''),
      PoolAction (Take 0), Process 0 (PickTimer 5 None), Sweep None None 100 (\<lambda>_. 100), PoolAction CtxEnds,
      PoolAction CloseTasks, PoolAction (Exit 0), PoolAction StartReturns]"

definition demo_pool :: "string pool" where
  "demo_pool = \<lparr>psize = 1, tasks = \<lparr>buf = [], cap = 2, closed = False\<rparr>, drainOnStop = True, workers = [], started = False,
     ctxDone = False, returned = False, accepted = [], begun = [], finished = []\<rparr>"

lemma demo_new_pool: "NewOrderProcessor 10 1 300 = Some \<lparr>procPool = demo_pool, processDelay = 300\<rparr>"
  by (simp add: NewOrderProcessor_def WorkerPool.New_def make_chan_def demo_pool_def wrap64_def)


text \<open>C29.
  The readiness probe of the cleanup job tells the truth: when a sweep makes it report ready, the
  gate had been passed, every order pending since before the cutoff has been canceled and is
  among the reported ids, and no other order has been touched or lost.
\<close>
theorem cleanup_sweep_complete:
  assumes "mem_inv s" and "run_sweep mem_store gate c now nows j s = (r, ids, j', t)"
    and "\<not> warmedUp j" and "Probe j' = None"
  shows "r = None \<and> (gated j \<longrightarrow> gate = None) \<and>
    (\<forall>i x. map_of (orders s) i = Some x \<longrightarrow>
       (if Status x = StatusPending \<and> CreatedAt x < now - staleAfter j
        then i \<in> set ids \<and> (\<exists>u. map_of (orders t) i = Some (x\<lparr>Status := StatusCanceled, UpdatedAt := u\<rparr>))
        else i \<notin> set ids \<and> map_of (orders t) i = Some x)) \<and>
    dom (map_of (orders t)) = dom (map_of (orders s))"
  using mem_repo.sweep_done [OF assms] unfolding mem_abs_def stale_def .

definition demo_stale :: InMemoryStore where
  "demo_stale = snd (mem_create 50 ''bob'' [] (snd (mem_create 1 ''ann'' [] (NewInMemoryStore []))))"

theorem cleanup_sweep_complete_witness:
  "\<exists>ids j t. run_sweep mem_store None None 60 (\<lambda>_. 60) (NewCleanupJob 10 [WithReadyGate]) demo_stale = (None, ids, j, t) \<and>
    ids = [''ord_1''] \<and> Probe j = None \<and>
    (\<exists>u x. map_of (orders demo_stale) ''ord_1'' = Some x \<and>
       map_of (orders t) ''ord_1'' = Some (x\<lparr>Status := StatusCanceled, UpdatedAt := u\<rparr>))"
proof -
  have ids: "order_id 1 = ''ord_1''" "order_id 2 = ''ord_2''" by code_simp+
  have d: "demo_stale = \<lparr>orders = [(''ord_1'', new_order ''ord_1'' 1 ''ann'' []), (''ord_2'', new_order ''ord_2'' 50 ''bob'' [])],
      nextID = 2, choices = []\<rparr>"
    by (simp add: demo_stale_def mem_create_def NewInMemoryStore_def Let_def ids)
  have inv: "mem_inv demo_stale"
    using ids by (auto simp: d mem_inv_def new_order_def intro: exI [of _ 1] exI [of _ 2])
  obtain j t where run: "run_sweep mem_store None None 60 (\<lambda>_. 60) (NewCleanupJob 10 [WithReadyGate]) demo_stale =
      (None, [''ord_1''], j, t)" and p: "Probe j = None"
    by (simp add: d run_sweep_def NewCleanupJob_def mem_cancel_def next_choice_def new_order_def Probe_def)
  have "\<not> warmedUp (NewCleanupJob 10 [WithReadyGate])" by (simp add: NewCleanupJob_def)
  from cleanup_sweep_complete [OF inv run this p]
  have "\<forall>x. map_of (orders demo_stale) ''ord_1'' = Some x \<longrightarrow> ''ord_1'' \<in> set [''ord_1''] \<longrightarrow>
      (\<exists>u. map_of (orders t) ''ord_1'' = Some (x\<lparr>Status := StatusCanceled, UpdatedAt := u\<rparr>))"
    by (auto split: if_splits)
  moreover have "\<exists>x. map_of (orders demo_stale) ''ord_1'' = Some x" by (simp add: d)
  ultimately have "\<exists>u x. map_of (orders demo_stale) ''ord_1'' = Some x \<and>
       map_of (orders t) ''ord_1'' = Some (x\<lparr>Status := StatusCanceled, UpdatedAt := u\<rparr>)" by auto
  with run p show ?thesis by blast
qed

end
