(* ===== verification/OrderApi.thy ===== *)
theory OrderApi
  imports HttpServer OrderJobs OrderWire
begin

text \<open>
  The two transports of the orders example, \<^verbatim>\<open>httpapi.go\<close> and \<^verbatim>\<open>grpcapi.go\<close>, over one store and
  one order processor. A handler is given what its request carries, the readings of the clock
  and the outcome of the select in Submit; it returns what it answers with the new states of
  store and pool, or None where Submit still blocks. \<open>zone\<close> is the offset from UTC at which
  times are printed.
\<close>


section \<open>Shared outcome\<close>

text \<open>
  What both adapters decide before they put it into the words of their transport. This is the
  specification that the handlers are shown to implement.
\<close>

datatype 'a answer = Answer 'a | Invalid string | NotFound | InternalError

definition create_spec ::
  "'s Store \<Rightarrow> string \<Rightarrow> Item list \<Rightarrow> int \<Rightarrow> submit_pick \<Rightarrow> ctx \<Rightarrow> 's \<Rightarrow> string pool \<Rightarrow>
   (Order answer \<times> 's \<times> string pool) option"
where
  "create_spec st cust its now pick c s p =
     (if \<not> snd (ValidateNewOrder cust its) then Some (Invalid (fst (ValidateNewOrder cust its)), s, p)
      else case Create st now cust its s of
             (Inl e, t) \<Rightarrow> Some (InternalError, t, p)
           | (Inr x, t) \<Rightarrow> map_option (\<lambda>(_, q). (Answer x, t, q)) (Enqueue pick c (ID x) p))"

definition get_spec :: "'s Store \<Rightarrow> string \<Rightarrow> 's \<Rightarrow> Order answer \<times> 's" where
  "get_spec st i s =
     (case Get st i s of
        (Inr x, t) \<Rightarrow> (Answer x, t)
      | (Inl e, t) \<Rightarrow> (if errors_is e ErrOrderNotFound then NotFound else InternalError, t))"

definition list_spec :: "'s Store \<Rightarrow> 's \<Rightarrow> Order list answer \<times> 's" where
  "list_spec st s = (case List st s of (Inr xs, t) \<Rightarrow> (Answer xs, t) | (Inl e, t) \<Rightarrow> (InternalError, t))"


section \<open>HTTPAPI\<close>

definition writeJSON :: "int \<Rightarrow> json \<Rightarrow> conn_write \<Rightarrow> action list" where
  "writeJSON status v io =
     [ASetHeader ''Content-Type'' ''application/json'', AWriteHeader status, AWrite (print_json v @ [CHR 0x0A]) io]"

definition writeError :: "int \<Rightarrow> string \<Rightarrow> conn_write \<Rightarrow> action list" where
  "writeError status message io = writeJSON status (JObj [(''error'', JStr message)]) io"

definition maxCreateBodyBytes :: nat where "maxCreateBodyBytes = 64 * 1024"

text \<open>
  Decode reads one value from the front of the body. \<open>eof\<close> says that the body could be read to
  its end; a body longer than the limit cannot. An object is complete at its last byte, any
  other value only once something follows it.
\<close>

fun closed_value :: "json \<Rightarrow> bool" where
  "closed_value (JArr vs) = True"
| "closed_value (JObj ms) = True"
| "closed_value v = False"

definition decode_body :: "string \<Rightarrow> bool \<Rightarrow> createOrderRequest option" where
  "decode_body payload eof =
     (case parse_prefix (take maxCreateBodyBytes payload) of
        None \<Rightarrow> None
      | Some (v, r) \<Rightarrow>
          if (length payload > maxCreateBodyBytes \<or> \<not> eof) \<and> r = [] \<and> \<not> closed_value v then None
          else dec_request v zero_request)"

definition handleCreate ::
  "'s Store \<Rightarrow> (int \<Rightarrow> int) \<Rightarrow> string \<Rightarrow> bool \<Rightarrow> int \<Rightarrow> submit_pick \<Rightarrow> ctx \<Rightarrow> conn_write \<Rightarrow> 's \<Rightarrow> string pool \<Rightarrow>
   (action list \<times> 's \<times> string pool) option"
where
  "handleCreate st zone payload eof now pick c io s p =
     (case decode_body payload eof of
        None \<Rightarrow> Some (writeError 400 ''invalid request body'' io, s, p)
      | Some req \<Rightarrow>
          (case ValidateNewOrder (reqCustomer req) (reqItems req) of
             (reason, ok) \<Rightarrow>
               if \<not> ok then Some (writeError 400 reason io, s, p)
               else case Create st now (reqCustomer req) (reqItems req) s of
                      (Inl e, t) \<Rightarrow> Some (writeError 500 ''internal error'' io, t, p)
                    | (Inr x, t) \<Rightarrow>
                        (case Enqueue pick c (ID x) p of
                           None \<Rightarrow> None
                         | Some (e, q) \<Rightarrow> Some (writeJSON 201 (response_json (toResponse zone x)) io, t, q))))"

definition handleGet :: "'s Store \<Rightarrow> (int \<Rightarrow> int) \<Rightarrow> string \<Rightarrow> conn_write \<Rightarrow> 's \<Rightarrow> action list \<times> 's" where
  "handleGet st zone i io s =
     (case Get st i s of
        (Inl e, t) \<Rightarrow>
          (if errors_is e ErrOrderNotFound then writeError 404 ''order not found'' io
           else writeError 500 ''internal error'' io, t)
      | (Inr x, t) \<Rightarrow> (writeJSON 200 (response_json (toResponse zone x)) io, t))"

definition handleList :: "'s Store \<Rightarrow> (int \<Rightarrow> int) \<Rightarrow> conn_write \<Rightarrow> 's \<Rightarrow> action list \<times> 's" where
  "handleList st zone io s =
     (case List st s of
        (Inl e, t) \<Rightarrow> (writeError 500 ''internal error'' io, t)
      | (Inr xs, t) \<Rightarrow> (writeJSON 200 (JArr (map (\<lambda>x. response_json (toResponse zone x)) xs)) io, t))"

text \<open>The mux, on a clean and unescaped path: a segment after /orders/ is the id.\<close>

datatype api_route = RCreate | RList | RGet string | RMethodNotAllowed | RNotFound

definition Mux :: "string \<Rightarrow> string \<Rightarrow> api_route" where
  "Mux meth path =
     (let pre = ''/orders/''; i = drop (length pre) path in
      if path = ''/orders'' then
        if meth = ''POST'' then RCreate else if meth \<in> {''GET'', ''HEAD''} then RList else RMethodNotAllowed
      else if take (length pre) path = pre \<and> i \<noteq> '''' \<and> CHR ''/'' \<notin> set i then
        if meth \<in> {''GET'', ''HEAD''} then RGet i else RMethodNotAllowed
      else RNotFound)"


section \<open>GRPCAPI\<close>

text \<open>The messages of \<^verbatim>\<open>orders.proto\<close>, as the generated structs hold them.\<close>

record OrderItem =
  Sku :: string
  ItemQuantity :: int

datatype OrderStatus = STATUS_UNSPECIFIED | STATUS_PENDING | STATUS_CONFIRMED | STATUS_CANCELED

record ProtoOrder =
  Id :: string
  CustomerId :: string
  ProtoItems :: "OrderItem list"
  ProtoStatus :: OrderStatus
  CreatedAtUnix :: int
  UpdatedAtUnix :: int

record CreateOrderRequest =
  ReqCustomerId :: string
  ReqItems :: "OrderItem list"

datatype code = CInvalidArgument | CNotFound | CInternal

fun code_name :: "code \<Rightarrow> string" where
  "code_name CInvalidArgument = ''InvalidArgument''"
| "code_name CNotFound = ''NotFound''"
| "code_name CInternal = ''Internal''"

definition status_Error :: "code \<Rightarrow> string \<Rightarrow> err" where
  "status_Error c m = LibErr (''grpc/status.'' @ code_name c) (''rpc error: code = '' @ code_name c @ '' desc = '' @ m)"

definition toProtoStatus :: "Status \<Rightarrow> OrderStatus" where
  "toProtoStatus s =
     (if s = StatusPending then STATUS_PENDING
      else if s = StatusConfirmed then STATUS_CONFIRMED
      else if s = StatusCanceled then STATUS_CANCELED
      else STATUS_UNSPECIFIED)"

text \<open>\<^verbatim>\<open>Unix()\<close>: whole seconds, rounded down.\<close>

definition toProto :: "Order \<Rightarrow> ProtoOrder" where
  "toProto x =
     \<lparr>Id = ID x, CustomerId = CustomerID x,
      ProtoItems = map (\<lambda>it. \<lparr>Sku = SKU it, ItemQuantity = Quantity it\<rparr>) (Items x),
      ProtoStatus = toProtoStatus (Order.Status x),
      CreatedAtUnix = CreatedAt x div ns_per_s, UpdatedAtUnix = UpdatedAt x div ns_per_s\<rparr>"

definition from_items :: "OrderItem list \<Rightarrow> Item list" where
  "from_items its = map (\<lambda>it. \<lparr>SKU = Sku it, Quantity = ItemQuantity it\<rparr>) its"

definition CreateOrder ::
  "'s Store \<Rightarrow> CreateOrderRequest \<Rightarrow> int \<Rightarrow> submit_pick \<Rightarrow> ctx \<Rightarrow> 's \<Rightarrow> string pool \<Rightarrow>
   (ProtoOrder res \<times> 's \<times> string pool) option"
where
  "CreateOrder st req now pick c s p =
     (let items = from_items (ReqItems req)
      in case ValidateNewOrder (ReqCustomerId req) items of
           (reason, ok) \<Rightarrow>
             if \<not> ok then Some (Inl (Wrap ''create order'' (status_Error CInvalidArgument reason)), s, p)
             else case Create st now (ReqCustomerId req) items s of
                    (Inl e, t) \<Rightarrow> Some (Inl (Wrap ''create order'' (status_Error CInternal ''internal error'')), t, p)
                  | (Inr x, t) \<Rightarrow>
                      (case Enqueue pick c (ID x) p of
                         None \<Rightarrow> None
                       | Some (e, q) \<Rightarrow> Some (Inr (toProto x), t, q)))"

definition GetOrder :: "'s Store \<Rightarrow> string \<Rightarrow> 's \<Rightarrow> ProtoOrder res \<times> 's" where
  "GetOrder st i s =
     (case Get st i s of
        (Inl e, t) \<Rightarrow>
          (Inl (Wrap ''get order''
             (if errors_is e ErrOrderNotFound then status_Error CNotFound ''order not found''
              else status_Error CInternal ''internal error'')), t)
      | (Inr x, t) \<Rightarrow> (Inr (toProto x), t))"

definition ListOrders :: "'s Store \<Rightarrow> 's \<Rightarrow> ProtoOrder list res \<times> 's" where
  "ListOrders st s =
     (case List st s of
        (Inl e, t) \<Rightarrow> (Inl (Wrap ''list orders'' (status_Error CInternal ''internal error'')), t)
      | (Inr xs, t) \<Rightarrow> (Inr (map toProto xs), t))"


section \<open>The handlers implement the specification\<close>

fun http_answer :: "int \<Rightarrow> ('a \<Rightarrow> json) \<Rightarrow> conn_write \<Rightarrow> 'a answer \<Rightarrow> action list" where
  "http_answer ok f io (Answer x) = writeJSON ok (f x) io"
| "http_answer ok f io (Invalid m) = writeError 400 m io"
| "http_answer ok f io NotFound = writeError 404 ''order not found'' io"
| "http_answer ok f io InternalError = writeError 500 ''internal error'' io"

fun grpc_answer :: "string \<Rightarrow> ('a \<Rightarrow> 'b) \<Rightarrow> 'a answer \<Rightarrow> 'b res" where
  "grpc_answer what f (Answer x) = Inr (f x)"
| "grpc_answer what f (Invalid m) = Inl (Wrap what (status_Error CInvalidArgument m))"
| "grpc_answer what f NotFound = Inl (Wrap what (status_Error CNotFound ''order not found''))"
| "grpc_answer what f InternalError = Inl (Wrap what (status_Error CInternal ''internal error''))"

definition order_view :: "(int \<Rightarrow> int) \<Rightarrow> Order \<Rightarrow> json" where
  "order_view zone x = response_json (toResponse zone x)"

lemma handleCreate_spec:
  assumes "decode_body payload eof = Some req"
  shows "handleCreate st zone payload eof now pick c io s p =
    map_option (\<lambda>(a, t, q). (http_answer 201 (order_view zone) io a, t, q))
      (create_spec st (reqCustomer req) (reqItems req) now pick c s p)"
  using assms
  by (auto simp: handleCreate_def create_spec_def order_view_def option.map_comp split: prod.splits sum.splits option.splits)

lemma CreateOrder_spec:
  "CreateOrder st req now pick c s p =
    map_option (\<lambda>(a, t, q). (grpc_answer ''create order'' toProto a, t, q))
      (create_spec st (ReqCustomerId req) (from_items (ReqItems req)) now pick c s p)"
  by (auto simp: CreateOrder_def create_spec_def Let_def split: prod.splits sum.splits option.splits)

lemma handleGet_spec: "handleGet st zone i io s = apfst (http_answer 200 (order_view zone) io) (get_spec st i s)"
  by (auto simp: handleGet_def get_spec_def order_view_def split: prod.splits sum.splits)

lemma GetOrder_spec: "GetOrder st i s = apfst (grpc_answer ''get order'' toProto) (get_spec st i s)"
  by (auto simp: GetOrder_def get_spec_def split: prod.splits sum.splits)

lemma handleList_spec:
  "handleList st zone io s = apfst (http_answer 200 (\<lambda>xs. JArr (map (order_view zone) xs)) io) (list_spec st s)"
  by (auto simp: handleList_def list_spec_def order_view_def [abs_def] split: prod.splits sum.splits)

lemma ListOrders_spec: "ListOrders st s = apfst (grpc_answer ''list orders'' (map toProto)) (list_spec st s)"
  by (auto simp: ListOrders_def list_spec_def split: prod.splits sum.splits)

section \<open>Requests and responses on the wire\<close>

text \<open>Status and body that a client sees of a handler's run.\<close>

definition served :: "action list \<Rightarrow> int \<times> string" where
  "served as =
     (let w = responseWriter.inner (snd (run_handler as
        \<lparr>responseWriter.inner = new_response True True, statusCode = 200, size = 0, wroteHeader = False\<rparr>))
      in (final_status w, response.body w))"

text \<open>
  The service behind the mux: status and body of the answer, with the new store and queue. The
  server sends no body in answer to a HEAD.
\<close>

definition api_serve ::
  "'s Store \<Rightarrow> (int \<Rightarrow> int) \<Rightarrow> int \<Rightarrow> submit_pick \<Rightarrow> ctx \<Rightarrow> string \<Rightarrow> string \<Rightarrow> string \<Rightarrow> 's \<Rightarrow> string pool \<Rightarrow>
   ((int \<times> string) \<times> 's \<times> string pool) option"
where
  "api_serve st zone now pick c meth path payload s p =
     (let reply = (\<lambda>(as, t). Some (if meth = ''HEAD'' then (fst (served as), '''') else served as, t, p)) in
      case Mux meth path of
        RCreate \<Rightarrow>
          map_option (\<lambda>(as, t, q). (served as, t, q)) (handleCreate st zone payload True now pick c None s p)
      | RList \<Rightarrow> reply (handleList st zone None s)
      | RGet i \<Rightarrow> reply (handleGet st zone i None s)
      | RMethodNotAllowed \<Rightarrow> Some ((405, ''Method Not Allowed'' @ [CHR 0x0A]), s, p)
      | RNotFound \<Rightarrow> Some ((404, ''404 page not found'' @ [CHR 0x0A]), s, p))"

lemma served_raw:
  "st \<in> {200, 201, 400, 404, 500, 503} \<Longrightarrow>
   served [ASetHeader ''Content-Type'' ''application/json'', AWriteHeader st, AWrite b None] = (st, b)"
  by (auto simp: served_def handler_defs Let_def)

lemma served_JSON: "st \<in> {200, 201, 400, 404, 500} \<Longrightarrow> served (writeJSON st v None) = (st, print_json v @ [CHR 0x0A])"
  unfolding writeJSON_def by (rule served_raw) auto

lemma served_error: "st \<in> {400, 404, 500} \<Longrightarrow> fst (served (writeError st m None)) = st"
  by (auto simp: writeError_def served_JSON)

lemma served_answer:
  "ok \<in> {200, 201} \<Longrightarrow> fst (served (http_answer ok f None a)) =
    (case a of Answer x \<Rightarrow> ok | Invalid m \<Rightarrow> 400 | NotFound \<Rightarrow> 404 | InternalError \<Rightarrow> 500)"
  by (cases a) (auto simp: served_error served_JSON)

lemma num_char_newline [simp]: "\<not> num_char (CHR 0x0A)"
  by (simp add: num_char_def is_digit_def in_range_def)

lemma parse_line:
  "wf_json v \<Longrightarrow> depth v \<le> max_depth \<Longrightarrow> parse_json (print_json v @ [CHR 0x0A]) = Some v"
  using prefix_print [of v "[CHR 0x0A]"] by (simp add: parse_json_def ws_def is_space_def)

definition wf_request :: "createOrderRequest \<Rightarrow> bool" where
  "wf_request r \<longleftrightarrow> valid_utf8 (reqCustomer r) \<and> list_all wf_item (reqItems r) \<and>
     length (print_json (request_json r)) \<le> maxCreateBodyBytes"

lemma decode_request:
  assumes "wf_request r"
  shows "decode_body (print_json (request_json r)) eof = Some r"
proof -
  have "parse_prefix (print_json (request_json r)) = Some (request_json r, [])"
    using assms prefix_print [of "request_json r" "[]"]
    by (simp add: wf_request_def request_json_wf request_json_depth)
  moreover have "closed_value (request_json r)" by (simp add: request_json_def)
  ultimately show ?thesis using assms by (simp add: decode_body_def wf_request_def dec_request_json)
qed

definition read_response :: "string \<Rightarrow> orderResponse option" where
  "read_response b = Option.bind (parse_json b) dec_response"

lemma read_view:
  assumes "wf_order x"
  shows "read_response (print_json (order_view zone x) @ [CHR 0x0A]) = Some (toResponse zone x)"
proof -
  have "wf_response (toResponse zone x)" using assms by (rule toResponse_wf)
  then show ?thesis
    by (simp add: read_response_def order_view_def parse_line response_json_wf response_json_depth dec_response_json max_depth_def)
qed


section \<open>Properties\<close>

text \<open>C26.
  The two transports are adapters over one set of business logic. For every store and every
  request, the REST and the gRPC handler reach the same decision and leave the same store and
  the same queue; they only word it differently: 201 or 200 and OK, 400 and InvalidArgument
  with the same reason, 404 and NotFound, 500 and Internal.
\<close>
theorem transports_agree:
  assumes "decode_body payload eof = Some \<lparr>reqCustomer = ReqCustomerId req, reqItems = from_items (ReqItems req)\<rparr>"
  shows "handleCreate st zone payload eof now pick c io s p =
      map_option (\<lambda>(a, t, q). (http_answer 201 (order_view zone) io a, t, q))
        (create_spec st (ReqCustomerId req) (from_items (ReqItems req)) now pick c s p) \<and>
    CreateOrder st req now pick c s p =
      map_option (\<lambda>(a, t, q). (grpc_answer ''create order'' toProto a, t, q))
        (create_spec st (ReqCustomerId req) (from_items (ReqItems req)) now pick c s p) \<and>
    handleGet st zone i io s = apfst (http_answer 200 (order_view zone) io) (get_spec st i s) \<and>
    GetOrder st i s = apfst (grpc_answer ''get order'' toProto) (get_spec st i s) \<and>
    handleList st zone io s = apfst (http_answer 200 (\<lambda>xs. JArr (map (order_view zone) xs)) io) (list_spec st s) \<and>
    ListOrders st s = apfst (grpc_answer ''list orders'' (map toProto)) (list_spec st s)"
  unfolding handleCreate_spec [OF assms] CreateOrder_spec handleGet_spec GetOrder_spec handleList_spec ListOrders_spec
  by simp

definition demo_request :: createOrderRequest where
  "demo_request = \<lparr>reqCustomer = ''ann'', reqItems = [\<lparr>SKU = ''pen'', Quantity = 2\<rparr>]\<rparr>"

lemma demo_request_wf: "wf_request demo_request"
proof -
  have "length (print_json (request_json demo_request)) = 58" by code_simp
  moreover have "valid_utf8 (reqCustomer demo_request)" "list_all wf_item (reqItems demo_request)" by code_simp+
  ultimately show ?thesis by (simp add: wf_request_def maxCreateBodyBytes_def)
qed

definition demo_proto :: CreateOrderRequest where
  "demo_proto = \<lparr>ReqCustomerId = ''ann'', ReqItems = [\<lparr>Sku = ''pen'', ItemQuantity = 2\<rparr>]\<rparr>"

theorem transports_agree_witness:
  "handleList mem_store (\<lambda>_. 0) None (NewInMemoryStore []) = (writeJSON 200 (JArr []) None, NewInMemoryStore []) \<and>
   CreateOrder mem_store demo_proto 5 PickCtx (Some DeadlineExceeded) (NewInMemoryStore []) demo_pool =
     map_option (\<lambda>(a, t, q). (grpc_answer ''create order'' toProto a, t, q))
       (create_spec mem_store ''ann'' [\<lparr>SKU = ''pen'', Quantity = 2\<rparr>] 5 PickCtx (Some DeadlineExceeded) (NewInMemoryStore []) demo_pool)"
proof -
  have "decode_body (print_json (request_json demo_request)) True =
      Some \<lparr>reqCustomer = ReqCustomerId demo_proto, reqItems = from_items (ReqItems demo_proto)\<rparr>"
    using decode_request [OF demo_request_wf] by (simp add: demo_request_def demo_proto_def from_items_def)
  from transports_agree [OF this, of mem_store "\<lambda>_. 0" 5 PickCtx "Some DeadlineExceeded" None "NewInMemoryStore []" demo_pool]
  show ?thesis
    by (simp add: list_spec_def mem_list_def next_choice_def NewInMemoryStore_def demo_proto_def from_items_def)
qed

text \<open>
  A refused request has no effect. Whatever the store is, POST /orders answers 400 exactly when
  the body is not a readable request or the order in it is not valid, and then neither the store
  nor the queue has changed.
\<close>
lemma rejected_request:
  assumes "handleCreate st zone payload eof now pick c None s p = Some (as, t, q)"
  shows "(fst (served as) = 400 \<longleftrightarrow>
      (case decode_body payload eof of
         None \<Rightarrow> True | Some req \<Rightarrow> \<not> snd (ValidateNewOrder (reqCustomer req) (reqItems req)))) \<and>
    (fst (served as) = 400 \<longrightarrow> t = s \<and> q = p)"
proof (cases "decode_body payload eof")
  case None
  then show ?thesis using assms by (auto simp: handleCreate_def served_error)
next
  case (Some req)
  show ?thesis
    using assms unfolding handleCreate_spec [OF Some]
    by (auto simp: Some create_spec_def served_error served_JSON split: if_splits prod.splits sum.splits)
qed

text \<open>What Enqueue says is what has happened to the queue.\<close>

lemma enqueue_outcome:
  assumes "Enqueue pick c i p = Some (e, q)"
  shows "if e = None then accepted q = accepted p @ [i] else q = p"
    and "c = None \<and> \<not> closed (tasks p) \<longrightarrow> accepted q = accepted p @ [i]"
  using assms
  by (auto simp: Enqueue_def Submit_def chan_send_def split: submit_pick.splits sent.splits if_splits option.splits)

lemma valid_wf_items: "snd (ValidateNewOrder c its) \<Longrightarrow> list_all (\<lambda>it. valid_utf8 (SKU it)) its \<Longrightarrow> list_all wf_item its"
  by (auto simp: ValidateNewOrder_def validate_items_ok MaxItemQuantity_def wf_item_def list_all_iff split: if_splits)

text \<open>C27.
  Create, then read back, over the wire. A valid order posted as JSON, in a body of at most
  64 KiB, to a service on the in-memory store is answered with 201; the new order is in the
  store with the posted customer and items, PENDING, and all other orders are as before; the
  answer decodes to exactly this order, and a GET on its id returns 200 with the same bytes. The
  order's id was given to Enqueue, which has put it into the processing queue exactly once when it returned
  nil and left the queue alone when it returned an error; it is in the queue whenever the request's
  context is live and the pool has not been stopped.
\<close>
theorem rest_create_then_get:
  assumes "mem_inv s" and "mem_room 1 s" and "wf_request r" and "snd (ValidateNewOrder (reqCustomer r) (reqItems r))"
    and "handleCreate mem_store zone (print_json (request_json r)) eof now pick c None s p = Some (as, t, q)"
  shows "\<exists>x answer.
    map_of (orders s) (ID x) = None \<and> map_of (orders t) = (map_of (orders s))(ID x \<mapsto> x) \<and>
    x = \<lparr>ID = ID x, CustomerID = reqCustomer r, Items = reqItems r, Status = StatusPending, CreatedAt = now, UpdatedAt = now\<rparr> \<and>
    served as = (201, answer) \<and> read_response answer = Some (toResponse zone x) \<and>
    served (fst (handleGet mem_store zone (ID x) None t)) = (200, answer) \<and>
    (\<exists>err. Enqueue pick c (ID x) p = Some (err, q) \<and>
       (if err = None then accepted q = accepted p @ [ID x] else q = p)) \<and>
    (c = None \<and> \<not> closed (tasks p) \<longrightarrow> accepted q = accepted p @ [ID x])"
proof -
  obtain x u where cr: "mem_create now (reqCustomer r) (reqItems r) s = (Inr x, u)"
    by (simp add: mem_create_def Let_def)
  have x: "mem_abs s (ID x) = None" "mem_abs u = (mem_abs s)(ID x \<mapsto> x)" "x = new_order (ID x) now (reqCustomer r) (reqItems r)"
    using mem_create_law [OF assms(1) _ cr, of 0] assms(2) by simp_all
  have "ID x = order_id (nextID s + 1)" using cr by (auto simp: mem_create_def Let_def new_order_def)
  then have "valid_utf8 (ID x)" by (simp add: order_id_utf8)
  then have "wf_order x"
    using assms(3) by (subst x(3)) (simp add: wf_order_def new_order_def wf_request_def status_utf8)
  note view = read_view [OF this, of zone]
  obtain e where e: "Enqueue pick c (ID x) p = Some (e, q)" and as: "as = writeJSON 201 (order_view zone x) None" and t: "t = u"
    using assms(5) unfolding handleCreate_spec [OF decode_request [OF assms(3)]]
    by (auto simp: create_spec_def assms(4) cr split: prod.splits)
  have "map_of (orders t) (ID x) = Some x" using x(2) t by (simp add: mem_abs_def)
  then have "served (fst (handleGet mem_store zone (ID x) None t)) = (200, print_json (order_view zone x) @ [CHR 0x0A])"
    by (simp add: handleGet_def mem_get_def served_JSON order_view_def)
  moreover note enqueue_outcome [OF e]
  moreover have "served as = (201, print_json (order_view zone x) @ [CHR 0x0A])" by (simp add: as served_JSON)
  ultimately show ?thesis
    using x view e unfolding t mem_abs_def new_order_def
    by (intro exI [of _ x] exI [of _ "print_json (order_view zone x) @ [CHR 0x0A]"]) simp
qed

theorem rest_create_then_get_witness:
  "\<exists>as t q answer.
    handleCreate mem_store (\<lambda>_. 0) (print_json (request_json demo_request)) True 5 PickSend None None (NewInMemoryStore []) demo_pool
      = Some (as, t, q) \<and>
    served as = (201, answer) \<and> map_of (orders t) ''ord_1'' \<noteq> None \<and> accepted q = [''ord_1'']"
proof -
  have ids: "order_id 1 = ''ord_1''" by code_simp
  have v: "snd (ValidateNewOrder (reqCustomer demo_request) (reqItems demo_request))" by code_simp
  have inv: "mem_inv (NewInMemoryStore [])" "mem_room 1 (NewInMemoryStore [])" using mem_new [of "[()]" "[]"] by simp_all
  have dec: "decode_body (print_json (request_json demo_request)) True = Some demo_request"
    by (rule decode_request [OF demo_request_wf])
  obtain as t q where h: "handleCreate mem_store (\<lambda>_. 0) (print_json (request_json demo_request)) True 5 PickSend None None
      (NewInMemoryStore []) demo_pool = Some (as, t, q)" and q: "accepted q = [''ord_1'']" and t: "fst ` set (orders t) = {''ord_1''}"
    unfolding handleCreate_spec [OF dec]
    by (simp add: create_spec_def v mem_create_def NewInMemoryStore_def Let_def ids new_order_def Enqueue_def Submit_def
        chan_send_def demo_pool_def)
  from rest_create_then_get [OF inv demo_request_wf v h] obtain answer where "served as = (201, answer)" by blast
  moreover have "map_of (orders t) ''ord_1'' \<noteq> None" by (simp add: map_of_eq_None_iff t)
  ultimately show ?thesis using h q by blast
qed

end
