(* ===== verification/Caching.thy ===== *)
theory Caching
  imports OrderWire
begin

text \<open>
  The Redis read-through cache, \<^verbatim>\<open>store/caching.go\<close>. The client is a parameter: operations on a
  world, with the laws of Redis that the cache relies on in \<open>redis_laws\<close>. First the methods of
  CachingStore as operations, then the same phases as a machine in which Gets, mutations and
  invalidations of several goroutines overlap.
\<close>


section \<open>The store\<close>

text \<open>
  Client says whether redisservice has a client at the moment; a missing key is an error of
  GetKey.
\<close>

record 'w redis_api =
  Client :: "'w \<Rightarrow> bool \<times> 'w"
  GetKey :: "string \<Rightarrow> ('w, string) op"
  SetKey :: "string \<Rightarrow> string \<Rightarrow> duration \<Rightarrow> ('w, unit) op"
  DelKeys :: "string list \<Rightarrow> ('w, unit) op"

record 'w CachingStore =
  provider :: "'w redis_api"
  ttl :: duration
  zone :: "int \<Rightarrow> int"

definition cacheKey :: "string \<Rightarrow> string" where
  "cacheKey i = ''order:'' @ i"

lemma cacheKey_inject [simp]: "cacheKey i = cacheKey j \<longleftrightarrow> i = j"
  by (simp add: cacheKey_def)

text \<open>The first part of Get: the cached order if there is a readable one, and whether there is a client.\<close>

definition lookup :: "'w CachingStore \<Rightarrow> string \<Rightarrow> 'w \<Rightarrow> Order option \<times> bool \<times> 'w" where
  "lookup cs i w =
     (case Client (provider cs) w of
        (False, w1) \<Rightarrow> (None, False, w1)
      | (True, w1) \<Rightarrow>
          (case GetKey (provider cs) (cacheKey i) w1 of
             (Inr cached, w2) \<Rightarrow> (unmarshal_order cached, True, w2)
           | (Inl e, w2) \<Rightarrow> (None, True, w2)))"

definition getFromStore :: "'s Store \<Rightarrow> string \<Rightarrow> ('s, Order) op" where
  "getFromStore st i s = (case Get st i s of (r, t) \<Rightarrow> (wrap_res ''caching store: get'' r, t))"

definition fill :: "'w CachingStore \<Rightarrow> string \<Rightarrow> Order \<Rightarrow> 'w \<Rightarrow> 'w" where
  "fill cs i x w =
     (case marshal_order (zone cs) x of
        None \<Rightarrow> w
      | Some payload \<Rightarrow> snd (SetKey (provider cs) (cacheKey i) payload (ttl cs) w))"

definition cache_get :: "'s Store \<Rightarrow> 'w CachingStore \<Rightarrow> string \<Rightarrow> ('s \<times> 'w, Order) op" where
  "cache_get st cs i = (\<lambda>(s, w).
     (case lookup cs i w of
        (Some x, c, w1) \<Rightarrow> (Inr x, s, w1)
      | (None, c, w1) \<Rightarrow>
          (case getFromStore st i s of
             (Inl e, t) \<Rightarrow> (Inl e, t, w1)
           | (Inr x, t) \<Rightarrow> (Inr x, t, if c then fill cs i x w1 else w1))))"

definition invalidate :: "'w CachingStore \<Rightarrow> string list \<Rightarrow> 'w \<Rightarrow> 'w" where
  "invalidate cs is w =
     (case Client (provider cs) w of
        (c, w1) \<Rightarrow> if \<not> c \<or> is = [] then w1 else snd (DelKeys (provider cs) (map cacheKey is) w1))"

definition cache_confirm :: "'s Store \<Rightarrow> 'w CachingStore \<Rightarrow> int \<Rightarrow> string \<Rightarrow> ('s \<times> 'w, bool) op" where
  "cache_confirm st cs now i = (\<lambda>(s, w).
     (case ConfirmPending st now i s of
        (Inl e, t) \<Rightarrow> (Inl (Wrap ''caching store: confirm'' e), t, w)
      | (Inr b, t) \<Rightarrow> (Inr b, t, invalidate cs [i] w)))"

definition cache_cancel ::
  "'s Store \<Rightarrow> 'w CachingStore \<Rightarrow> (string \<Rightarrow> int) \<Rightarrow> int \<Rightarrow> ('s \<times> 'w, string list) op"
where
  "cache_cancel st cs nows cutoff = (\<lambda>(s, w).
     (case CancelStalePending st nows cutoff s of
        (Inl e, t) \<Rightarrow> (Inl (Wrap ''caching store: cancel stale'' e), t, w)
      | (Inr ids, t) \<Rightarrow> (Inr ids, t, invalidate cs ids w)))"

text \<open>Create and List are those of the embedded store.\<close>

definition NewCachingStore :: "'s Store \<Rightarrow> 'w CachingStore \<Rightarrow> ('s \<times> 'w) Store" where
  "NewCachingStore st cs =
     \<lparr>Create = (\<lambda>now c its (s, w). case Create st now c its s of (r, t) \<Rightarrow> (r, t, w)),
      Get = cache_get st cs,
      List = (\<lambda>(s, w). case List st s of (r, t) \<Rightarrow> (r, t, w)),
      ConfirmPending = cache_confirm st cs,
      CancelStalePending = cache_cancel st cs\<rparr>"

lemma cached_simps [simp]:
  "Create (NewCachingStore st cs) now c its = (\<lambda>(s, w). case Create st now c its s of (r, t) \<Rightarrow> (r, t, w))"
  "Get (NewCachingStore st cs) = cache_get st cs"
  "List (NewCachingStore st cs) = (\<lambda>(s, w). case List st s of (r, t) \<Rightarrow> (r, t, w))"
  "ConfirmPending (NewCachingStore st cs) = cache_confirm st cs"
  "CancelStalePending (NewCachingStore st cs) = cache_cancel st cs"
  by (simp_all add: NewCachingStore_def)


section \<open>A cached store is still a store\<close>

context order_repo
begin

text \<open>Whatever Redis does, the laws of the Store contract are those of the embedded store.\<close>

lemma cached_repo:
  "order_repo (NewCachingStore st cs) (\<lambda>(s, w). abs s) (\<lambda>(s, w). inv s) (\<lambda>n (s, w). room n s)"
proof (unfold_locales, goal_cases)
  case (1 n s)
  then show ?case using room_less by (auto split: prod.splits)
next
  case (2 s n now c its r t)
  then show ?case by (auto split: prod.splits dest: create)
next
  case (3 s i q t n)
  obtain s1 w1 where s: "s = (s1, w1)" by force
  show ?case
  proof (cases "lookup cs i w1")
    case (fields o1 c w2)
    show ?thesis
    proof (cases o1)
      case None
      obtain r u where g: "Get st i s1 = (r, u)" by force
      have "inv u \<and> abs u = abs s1 \<and> (room n s1 \<longrightarrow> room n u)" using get [OF _ g, of n] 3(1) by (simp add: s)
      moreover have "fst t = u"
        using 3(2) None fields g by (cases r) (auto simp: s cache_get_def getFromStore_def)
      ultimately show ?thesis by (cases t) (simp add: s)
    next
      case (Some x)
      then show ?thesis using 3 fields by (auto simp: s cache_get_def)
    qed
  qed
next
  case (4 s l t n)
  then show ?case by (auto split: prod.splits dest: list [of _ _ _ n])
next
  case (5 s now i b t n)
  obtain s1 w1 where s: "s = (s1, w1)" by force
  obtain r u where c: "ConfirmPending st now i s1 = (r, u)" by force
  show ?case
    using confirm [OF _ c, of n] 5 c
    by (cases r) (auto simp: s cache_confirm_def ErrOrderNotFound_def split: bool.splits)
next
  case (6 s nows cutoff k t n)
  then show ?case
    by (auto simp: cache_cancel_def split: prod.splits sum.splits dest: cancel [of _ _ _ _ _ n])
qed

end

context order_store
begin

lemma cached_store:
  "order_store (NewCachingStore st cs) (\<lambda>(s, w). abs s) (\<lambda>(s, w). inv s) (\<lambda>n (s, w). room n s)"
  by (intro order_store.intro cached_repo order_store_axioms.intro)
    (auto simp: cache_confirm_def cache_cancel_def split: prod.splits sum.splits
      dest: create_fails confirm_fails cancel_fails)

end

interpretation cache_mem: order_store "NewCachingStore mem_store cs" "\<lambda>(s, w). mem_abs s" "\<lambda>(s, w). mem_inv s"
  "\<lambda>n (s, w). mem_room n s" for cs
  by (rule mem.cached_store)


section \<open>Overlapping calls\<close>

text \<open>
  A call in flight: a Get that missed (with or without a client), a Get that has read the store
  and will fill the cache, a mutation that still has to invalidate. \<open>answers\<close> lists what the
  Gets returned.
\<close>

datatype task = Reading string bool | Filling string Order | Invalidating "string list"

record ('s, 'w) cache_state =
  stored :: 's
  redis :: 'w
  pending :: "task list"
  answers :: "(string \<times> Order) list"

datatype cache_event =
    CallCreate int string "Item list"
  | CallGet string
  | CallList
  | CallConfirm int string
  | CallCancel "string \<Rightarrow> int" int
  | Continue nat

definition drop_task :: "nat \<Rightarrow> ('s, 'w) cache_state \<Rightarrow> ('s, 'w) cache_state" where
  "drop_task n s = s\<lparr>pending := take n (pending s) @ drop (Suc n) (pending s)\<rparr>"

definition run_task :: "'s Store \<Rightarrow> 'w CachingStore \<Rightarrow> task \<Rightarrow> ('s, 'w) cache_state \<Rightarrow> ('s, 'w) cache_state" where
  "run_task st cs k s =
     (case k of
        Reading i c \<Rightarrow>
          (case getFromStore st i (stored s) of
             (Inl e, t) \<Rightarrow> s\<lparr>stored := t\<rparr>
           | (Inr x, t) \<Rightarrow>
               if c then s\<lparr>stored := t, pending := pending s @ [Filling i x]\<rparr>
               else s\<lparr>stored := t, answers := answers s @ [(i, x)]\<rparr>)
      | Filling i x \<Rightarrow> s\<lparr>redis := fill cs i x (redis s), answers := answers s @ [(i, x)]\<rparr>
      | Invalidating is \<Rightarrow> s\<lparr>redis := invalidate cs is (redis s)\<rparr>)"

fun cache_step :: "'s Store \<Rightarrow> 'w CachingStore \<Rightarrow> ('s, 'w) cache_state \<Rightarrow> cache_event \<Rightarrow> ('s, 'w) cache_state option" where
  "cache_step st cs s (CallCreate now c its) = Some (s\<lparr>stored := snd (Create st now c its (stored s))\<rparr>)"
| "cache_step st cs s (CallGet i) =
     (case lookup cs i (redis s) of
        (Some x, c, w) \<Rightarrow> Some (s\<lparr>redis := w, answers := answers s @ [(i, x)]\<rparr>)
      | (None, c, w) \<Rightarrow> Some (s\<lparr>redis := w, pending := pending s @ [Reading i c]\<rparr>))"
| "cache_step st cs s CallList = Some (s\<lparr>stored := snd (List st (stored s))\<rparr>)"
| "cache_step st cs s (CallConfirm now i) =
     (case ConfirmPending st now i (stored s) of
        (Inl e, t) \<Rightarrow> Some (s\<lparr>stored := t\<rparr>)
      | (Inr b, t) \<Rightarrow> Some (s\<lparr>stored := t, pending := pending s @ [Invalidating [i]]\<rparr>))"
| "cache_step st cs s (CallCancel nows cutoff) =
     (case CancelStalePending st nows cutoff (stored s) of
        (Inl e, t) \<Rightarrow> Some (s\<lparr>stored := t\<rparr>)
      | (Inr ids, t) \<Rightarrow> Some (s\<lparr>stored := t, pending := pending s @ [Invalidating ids]\<rparr>))"
| "cache_step st cs s (Continue n) =
     (if n < length (pending s) then Some (run_task st cs (pending s ! n) (drop_task n s)) else None)"

text \<open>
  What the cache relies on: \<open>entries\<close> are the keys Redis holds, all of which may expire at any
  time. A value read was stored under its key; a write that reports an error may still have
  happened, and so may a deletion that reports one.
\<close>

definition redis_laws :: "'w redis_api \<Rightarrow> ('w \<Rightarrow> string \<Rightarrow> string option) \<Rightarrow> bool" where
  "redis_laws api entries \<longleftrightarrow>
     (\<forall>w. entries (snd (Client api w)) \<subseteq>\<^sub>m entries w) \<and>
     (\<forall>k w r w'. GetKey api k w = (r, w') \<longrightarrow> entries w' \<subseteq>\<^sub>m entries w \<and>
        (case r of Inr v \<Rightarrow> entries w k = Some v | Inl e \<Rightarrow> True)) \<and>
     (\<forall>k v d w r w'. SetKey api k v d w = (r, w') \<longrightarrow>
        entries w' \<subseteq>\<^sub>m (entries w)(k \<mapsto> v) \<or> (\<exists>e. r = Inl e) \<and> entries w' \<subseteq>\<^sub>m entries w) \<and>
     (\<forall>ks w r w'. DelKeys api ks w = (r, w') \<longrightarrow>
        entries w' \<subseteq>\<^sub>m entries w |` (- set ks) \<or> (\<exists>e. r = Inl e) \<and> entries w' \<subseteq>\<^sub>m entries w)"

text \<open>
  An earlier version of an order: the order itself, or what it was while it was pending.
\<close>

definition behind :: "(string \<Rightarrow> Order option) \<Rightarrow> string \<Rightarrow> Order \<Rightarrow> bool" where
  "behind m i y \<longleftrightarrow> (\<exists>x. m i = Some x \<and> ID y = i \<and> CustomerID y = CustomerID x \<and> Items y = Items x \<and>
     CreatedAt y = CreatedAt x \<and> (Status y \<noteq> StatusPending \<longrightarrow> y = x))"

lemma behind_self: "m i = Some x \<Longrightarrow> ID x = i \<Longrightarrow> behind m i x"
  by (simp add: behind_def)

lemma behind_evolves: "evolves m m' \<Longrightarrow> behind m i y \<Longrightarrow> behind m' i y"
  by (fastforce simp: behind_def evolves_def)

definition entries_ok :: "(string \<Rightarrow> Order option) \<Rightarrow> (string \<Rightarrow> string option) \<Rightarrow> bool" where
  "entries_ok m en \<longleftrightarrow> (\<forall>i v. en (cacheKey i) = Some v \<longrightarrow> (\<exists>y. unmarshal_order v = Some y \<and> behind m i y))"

lemma entries_ok_less: "entries_ok m en \<Longrightarrow> en' \<subseteq>\<^sub>m en \<Longrightarrow> entries_ok m en'"
  unfolding entries_ok_def by (blast dest: map_le_Some)

lemma entries_ok_evolves: "evolves m m' \<Longrightarrow> entries_ok m en \<Longrightarrow> entries_ok m' en"
  unfolding entries_ok_def by (blast dest: behind_evolves)

lemma entries_ok_upd:
  "entries_ok m en \<Longrightarrow> unmarshal_order v = Some y \<Longrightarrow> behind m i y \<Longrightarrow> entries_ok m (en(cacheKey i \<mapsto> v))"
  unfolding entries_ok_def by auto

lemma lookup_ok:
  assumes "redis_laws (provider cs) en" and "entries_ok m (en w)" and "lookup cs i w = (r, c, w')"
  shows "entries_ok m (en w') \<and> (\<forall>x. r = Some x \<longrightarrow> behind m i x)"
proof -
  obtain b w1 where b: "Client (provider cs) w = (b, w1)" by force
  have "en w1 \<subseteq>\<^sub>m en w" using assms(1) b unfolding redis_laws_def by (metis snd_conv)
  with assms(2) have ok: "entries_ok m (en w1)" by (rule entries_ok_less)
  obtain g w2 where g: "GetKey (provider cs) (cacheKey i) w1 = (g, w2)" by force
  then have "en w2 \<subseteq>\<^sub>m en w1" and hit: "\<And>v. g = Inr v \<Longrightarrow> en w1 (cacheKey i) = Some v"
    using assms(1) unfolding redis_laws_def by (force split: sum.splits)+
  then have "entries_ok m (en w2)" by (blast intro: entries_ok_less ok)
  moreover have "behind m i x" if "g = Inr v" and "unmarshal_order v = Some x" for v x
    using ok hit [OF that(1)] that(2) unfolding entries_ok_def by fastforce
  ultimately show ?thesis
    using assms(3) ok b g by (auto simp: lookup_def split: bool.splits sum.splits)
qed

lemma fill_ok:
  assumes "redis_laws (provider cs) en" and "entries_ok m (en w)" and "wf_order x" and "behind m i x"
  shows "entries_ok m (en (fill cs i x w))"
proof (cases "marshal_order (zone cs) x")
  case None
  then show ?thesis using assms(2) by (simp add: fill_def)
next
  case (Some v)
  obtain r w' where set: "SetKey (provider cs) (cacheKey i) v (ttl cs) w = (r, w')" by force
  from assms(1) have "entries_ok m ((en w)(cacheKey i \<mapsto> v))"
    using assms(2,4) order_roundtrip [OF assms(3) Some] by (blast intro: entries_ok_upd)
  moreover have "en w' \<subseteq>\<^sub>m (en w)(cacheKey i \<mapsto> v) \<or> en w' \<subseteq>\<^sub>m en w"
    using assms(1) set unfolding redis_laws_def by blast
  ultimately have "entries_ok m (en w')" using assms(2) by (blast intro: entries_ok_less)
  then show ?thesis using Some set by (simp add: fill_def)
qed

lemma invalidate_ok:
  assumes "redis_laws (provider cs) en" and "entries_ok m (en w)"
  shows "entries_ok m (en (invalidate cs is w))"
proof -
  obtain b w1 where b: "Client (provider cs) w = (b, w1)" by force
  have "en w1 \<subseteq>\<^sub>m en w" using assms(1) b unfolding redis_laws_def by (metis snd_conv)
  with assms(2) have ok: "entries_ok m (en w1)" by (rule entries_ok_less)
  obtain r w2 where d: "DelKeys (provider cs) (map cacheKey is) w1 = (r, w2)" by force
  then have "en w2 \<subseteq>\<^sub>m en w1 |` (- set (map cacheKey is)) \<or> en w2 \<subseteq>\<^sub>m en w1"
    using assms(1) unfolding redis_laws_def by blast
  moreover have "en w1 |` A \<subseteq>\<^sub>m en w1" for A by (simp add: map_le_def)
  ultimately have "en w2 \<subseteq>\<^sub>m en w1" by (blast intro: map_le_trans)
  with ok have "entries_ok m (en w2)" by (rule entries_ok_less)
  then show ?thesis using ok b d by (simp add: invalidate_def)
qed

definition cache_ok ::
  "('s \<Rightarrow> string \<Rightarrow> Order option) \<Rightarrow> ('w \<Rightarrow> string \<Rightarrow> string option) \<Rightarrow> ('s, 'w) cache_state \<Rightarrow> bool"
where
  "cache_ok f en s \<longleftrightarrow>
     (\<forall>i x. f (stored s) i = Some x \<longrightarrow> wf_order x) \<and> entries_ok (f (stored s)) (en (redis s)) \<and>
     (\<forall>i x. Filling i x \<in> set (pending s) \<longrightarrow> behind (f (stored s)) i x \<and> wf_order x) \<and>
     (\<forall>(i, x) \<in> set (answers s). behind (f (stored s)) i x)"

text \<open>A mutation of the store keeps the cache behind it, and the calls in flight too.\<close>

lemma cache_ok_evolves:
  assumes "cache_ok f en s" and "evolves (f (stored s)) (f t)" and "\<And>i x. f t i = Some x \<Longrightarrow> wf_order x"
  shows "cache_ok f en (s\<lparr>stored := t\<rparr>)"
  using assms(1,3) entries_ok_evolves [OF assms(2)] behind_evolves [OF assms(2)]
  by (auto simp: cache_ok_def)

lemma cache_ok_add:
  "cache_ok f en s \<Longrightarrow> \<forall>i x. k \<noteq> Filling i x \<Longrightarrow> cache_ok f en (s\<lparr>pending := pending s @ [k]\<rparr>)"
  by (auto simp: cache_ok_def)

lemma cache_ok_drop: "cache_ok f en s \<Longrightarrow> cache_ok f en (drop_task n s)"
  by (auto simp: cache_ok_def drop_task_def dest: in_set_takeD in_set_dropD)

lemma wf_effects:
  assumes "\<And>i x. m i = Some x \<Longrightarrow> wf_order x"
  shows "confirmed m now j m' \<Longrightarrow> m' i = Some x \<Longrightarrow> wf_order x"
    and "swept m cutoff m' \<Longrightarrow> m' i = Some x \<Longrightarrow> wf_order x"
  using assms
  by (auto simp: confirmed_def swept_def sweep_def wf_order_def status_utf8 split: if_splits)

text \<open>Requests come through the transports as UTF-8 and int32.\<close>

fun utf8_event :: "cache_event \<Rightarrow> bool" where
  "utf8_event (CallCreate now c its) = (valid_utf8 c \<and> list_all wf_item its)"
| "utf8_event e = True"

text \<open>A store with exact reads that keeps each order under its id.\<close>

locale order_ids = order_reads +
  assumes ids: "inv s \<Longrightarrow> abs s i = Some x \<Longrightarrow> ID x = i \<and> valid_utf8 i"

begin

lemma created_wf:
  assumes "inv t" and "created (abs s) now c its y (abs t)" and "\<And>i x. abs s i = Some x \<Longrightarrow> wf_order x"
    and "valid_utf8 c" and "list_all wf_item its" and "abs t i = Some x"
  shows "wf_order x"
proof (cases "i = ID y")
  case True
  then have "x = new_order i now c its" using assms(2,6) by (auto simp: created_def)
  moreover have "valid_utf8 i" using ids [OF assms(1,6)] by simp
  ultimately show ?thesis using assms(4,5) by (simp add: wf_order_def new_order_def status_utf8)
next
  case False
  then show ?thesis using assms(2,3,6) by (auto simp: created_def)
qed

text \<open>A call in flight goes on: it fills with what it has read, or removes.\<close>

lemma task_keeps:
  assumes "redis_laws (provider cs) en" and "cache_ok abs en s" and "inv (stored s)"
    and "\<And>i x. k = Filling i x \<Longrightarrow> behind (abs (stored s)) i x \<and> wf_order x"
  shows "cache_ok abs en (run_task st cs k s) \<and> inv (stored (run_task st cs k s)) \<and>
    (room n (stored s) \<longrightarrow> room n (stored (run_task st cs k s)))"
proof (cases k)
  case (Reading i c)
  obtain r u where u: "Get st i (stored s) = (r, u)" by force
  note eff = get [OF assms(3) u, of n] and exact = get_exact [OF assms(3) u]
  have "behind (abs u) i x \<and> wf_order x" if "r = Inr x" for x
    using that exact eff ids [OF assms(3)] assms(2) by (auto simp: cache_ok_def intro: behind_self)
  then show ?thesis
    using eff assms(2) by (cases r) (auto simp: Reading run_task_def getFromStore_def u cache_ok_def)
next
  case (Filling i x)
  then show ?thesis
    using assms(2-4) fill_ok [OF assms(1), of "abs (stored s)" "redis s" x i]
    by (auto simp: run_task_def cache_ok_def)
next
  case (Invalidating "is")
  then show ?thesis
    using assms(2,3) invalidate_ok [OF assms(1), of "abs (stored s)" "redis s" "is"]
    by (auto simp: run_task_def cache_ok_def)
qed

lemma mutation_keeps:
  assumes "cache_ok abs en s" and "evolves (abs (stored s)) (abs u)" and "\<forall>i x. abs u i = Some x \<longrightarrow> wf_order x"
  shows "cache_ok abs en (s\<lparr>stored := u\<rparr>)" "cache_ok abs en (s\<lparr>stored := u, pending := pending s @ [Invalidating is]\<rparr>)"
  using cache_ok_evolves [OF assms(1,2)] assms(3)
    cache_ok_add [of abs en "s\<lparr>stored := u\<rparr>" "Invalidating is"] by auto

lemma cache_keeps:
  assumes "redis_laws (provider cs) en" and "cache_ok abs en s" and "inv (stored s)" and "room (Suc n) (stored s)"
    and "utf8_event e" and "cache_step st cs s e = Some t"
  shows "cache_ok abs en t \<and> inv (stored t) \<and> room n (stored t)"
proof -
  note less = room_less [OF assms(4)]
  have wf: "\<And>i x. abs (stored s) i = Some x \<Longrightarrow> wf_order x" using assms(2) by (simp add: cache_ok_def)
  show ?thesis
  proof (cases e)
    case (CallCreate now c its)
    obtain r u where u: "Create st now c its (stored s) = (r, u)" by force
    note eff = create [OF assms(3,4) u]
    have "evolves (abs (stored s)) (abs u) \<and> (\<forall>i x. abs u i = Some x \<longrightarrow> wf_order x)"
      using eff wf created_wf [OF _ _ wf] assms(5) CallCreate by (cases r) (auto intro: evolves_effects)
    then show ?thesis using eff assms(2,6) CallCreate u by (auto intro: mutation_keeps)
  next
    case (CallGet i)
    obtain r c w where l: "lookup cs i (redis s) = (r, c, w)" by (cases "lookup cs i (redis s)")
    show ?thesis
      using assms(2,3,6) lookup_ok [OF assms(1) _ l, of "abs (stored s)"] less l CallGet
      by (auto simp: cache_ok_def split: option.splits)
  next
    case CallList
    obtain r u where u: "List st (stored s) = (r, u)" by force
    show ?thesis using list [OF assms(3) u, of n] less assms(2,6) CallList u by (auto simp: cache_ok_def)
  next
    case (CallConfirm now i)
    obtain r u where u: "ConfirmPending st now i (stored s) = (r, u)" by force
    note eff = confirm [OF assms(3) u, of n]
    have "evolves (abs (stored s)) (abs u) \<and> (\<forall>i x. abs u i = Some x \<longrightarrow> wf_order x)"
      using eff wf wf_effects(1) [of "abs (stored s)" now i "abs u", OF wf]
      by (cases r) (auto intro: evolves_effects split: bool.splits)
    then show ?thesis using eff less assms(2,6) CallConfirm u by (cases r) (auto intro: mutation_keeps)
  next
    case (CallCancel nows cutoff)
    obtain r u where u: "CancelStalePending st nows cutoff (stored s) = (r, u)" by force
    note eff = cancel [OF assms(3) u, of n]
    have "evolves (abs (stored s)) (abs u) \<and> (\<forall>i x. abs u i = Some x \<longrightarrow> wf_order x)"
      using eff wf wf_effects(2) [of "abs (stored s)" cutoff "abs u", OF wf]
      by (cases r) (auto intro: evolves_effects)
    then show ?thesis using eff less assms(2,6) CallCancel u by (cases r) (auto intro: mutation_keeps)
  next
    case (Continue k)
    then have k: "pending s ! k \<in> set (pending s)" and t: "t = run_task st cs (pending s ! k) (drop_task k s)"
      using assms(6) by (auto split: if_splits)
    have st: "stored (drop_task k s) = stored s" by (simp add: drop_task_def)
    have "behind (abs (stored s)) i x \<and> wf_order x" if "pending s ! k = Filling i x" for i x
      using k that assms(2) unfolding cache_ok_def by metis
    then show ?thesis
      using task_keeps [OF assms(1) cache_ok_drop [OF assms(2), of k], of "pending s ! k" n] assms(3) less
      by (simp add: st t)
  qed
qed

lemma cache_run_keeps:
  assumes "redis_laws (provider cs) en"
  shows "cache_ok abs en s \<Longrightarrow> inv (stored s) \<Longrightarrow> room (length es) (stored s) \<Longrightarrow> list_all utf8_event es \<Longrightarrow>
    lts_run (cache_step st cs) s es = Some t \<Longrightarrow> cache_ok abs en t \<and> inv (stored t)"
proof (induction es arbitrary: s)
  case (Cons e es)
  then obtain u where u: "cache_step st cs s e = Some u" and run: "lts_run (cache_step st cs) u es = Some t"
    unfolding lts_run_Cons_Some by blast
  from cache_keeps [OF assms Cons.prems(1,2) _ _ u, of "length es"] Cons.prems(3,4)
  have "cache_ok abs en u \<and> inv (stored u) \<and> room (length es) (stored u)" by simp
  with Cons.IH [OF _ _ _ _ run] Cons.prems(4) show ?case by simp
qed simp

end

interpretation mem_ids: order_ids mem_store mem_abs mem_inv mem_room
proof (unfold_locales, goal_cases)
  case (1 s i x)
  then have "(i, x) \<in> set (orders s)" unfolding mem_abs_def by (blast dest: map_of_SomeD)
  with 1(1) show ?case unfolding mem_inv_def by (fastforce simp: order_id_utf8)
qed


section \<open>Properties\<close>

text \<open>C33.
  What the cache answers is never wrong, at worst late. Over any interleaving of Gets, mutations,
  cache fills and invalidations, with a Redis that may be down, lose keys or fail at any point,
  every order ever returned by a cached Get is either the order as it is in the store, or what
  this order was while it was still PENDING: a confirmed or canceled order is never shown with
  another outcome, and no order is shown under another's id.
\<close>
theorem cached_answers_valid:
  assumes "redis_laws (provider cs) entries" and "\<forall>i. entries w (cacheKey i) = None"
    and "length es < 2 ^ 64" and "list_all utf8_event es"
    and "lts_run (cache_step mem_store cs)
      \<lparr>stored = NewInMemoryStore chs, redis = w, pending = [], answers = []\<rparr> es = Some t"
    and "(i, y) \<in> set (answers t)"
  shows "\<exists>x. map_of (orders (stored t)) i = Some x \<and> ID y = i \<and> CustomerID y = CustomerID x \<and>
    Items y = Items x \<and> CreatedAt y = CreatedAt x \<and> (Status y \<noteq> StatusPending \<longrightarrow> y = x)"
proof -
  note new = mem_new [OF assms(3), of chs]
  have "cache_ok mem_abs entries \<lparr>stored = NewInMemoryStore chs, redis = w, pending = [], answers = []\<rparr>"
    using assms(2) new(3) by (simp add: cache_ok_def entries_ok_def)
  from mem_ids.cache_run_keeps [OF assms(1) this _ _ assms(4,5)] new(1,2)
  have "behind (mem_abs (stored t)) i y" using assms(6) by (auto simp: cache_ok_def)
  then show ?thesis by (simp add: behind_def mem_abs_def)
qed

text \<open>A Redis that never fails, on a map.\<close>

definition map_redis :: "(string \<Rightarrow> string option) redis_api" where
  "map_redis =
     \<lparr>Client = (\<lambda>w. (True, w)),
      GetKey = (\<lambda>k w. (case w k of Some v \<Rightarrow> Inr v | None \<Rightarrow> Inl (LibErr ''redis.Nil'' ''redis: nil''), w)),
      SetKey = (\<lambda>k v d w. (Inr (), w(k \<mapsto> v))),
      DelKeys = (\<lambda>ks w. (Inr (), w |` (- set ks)))\<rparr>"

lemma map_redis_laws: "redis_laws map_redis (\<lambda>w. w)"
  by (auto simp: redis_laws_def map_redis_def split: option.splits)

definition demo_cache :: "(string \<Rightarrow> string option) CachingStore" where
  "demo_cache = \<lparr>provider = map_redis, ttl = 30 * Second, zone = (\<lambda>_. 0)\<rparr>"

theorem cached_answers_valid_witness:
  "\<exists>t y. lts_run (cache_step mem_store demo_cache)
      \<lparr>stored = NewInMemoryStore [], redis = Map.empty, pending = [], answers = []\<rparr>
      [CallCreate 5 ''ann'' [], CallGet ''ord_1'', Continue 0, CallConfirm 9 ''ord_1'', Continue 0] = Some t \<and>
    (''ord_1'', y) \<in> set (answers t) \<and> Status y = StatusPending \<and>
    (\<exists>x. map_of (orders (stored t)) ''ord_1'' = Some x \<and> CustomerID y = CustomerID x)"
proof -
  let ?es = "[CallCreate 5 ''ann'' [], CallGet ''ord_1'', Continue 0, CallConfirm 9 ''ord_1'', Continue 0]"
  have ids: "order_id 1 = ''ord_1''" by code_simp
  obtain t y where run: "lts_run (cache_step mem_store demo_cache)
      \<lparr>stored = NewInMemoryStore [], redis = Map.empty, pending = [], answers = []\<rparr> ?es = Some t"
    and y: "(''ord_1'', y) \<in> set (answers t)" "Status y = StatusPending"
    by (simp add: mem_create_def NewInMemoryStore_def Let_def ids lookup_def demo_cache_def map_redis_def drop_task_def
        run_task_def getFromStore_def mem_get_def mem_confirm_def new_order_def)
  have laws: "redis_laws (provider demo_cache) (\<lambda>w. w)" by (simp add: demo_cache_def map_redis_laws)
  have "valid_utf8 ''ann''" by code_simp
  then have "list_all utf8_event ?es" by simp
  from cached_answers_valid [OF laws _ _ this run y(1)]
  have "\<exists>x. map_of (orders (stored t)) ''ord_1'' = Some x \<and> CustomerID y = CustomerID x" by auto
  with run y show ?thesis by blast
qed


section \<open>Transparency\<close>

text \<open>
  With a Redis that works and calls that do not overlap, the cache cannot be noticed: the
  entries are then exactly the orders of the store.
\<close>

definition redis_works :: "'w redis_api \<Rightarrow> bool" where
  "redis_works api \<longleftrightarrow> (\<forall>w. fst (Client api w)) \<and>
     (\<forall>k v d w. fst (SetKey api k v d w) = Inr ()) \<and> (\<forall>ks w. fst (DelKeys api ks w) = Inr ())"

definition entries_exact :: "(string \<Rightarrow> Order option) \<Rightarrow> (string \<Rightarrow> string option) \<Rightarrow> bool" where
  "entries_exact m en \<longleftrightarrow> (\<forall>i v. en (cacheKey i) = Some v \<longrightarrow> (\<exists>x. unmarshal_order v = Some x \<and> m i = Some x))"

lemma entries_exact_less: "entries_exact m en \<Longrightarrow> en' \<subseteq>\<^sub>m en \<Longrightarrow> entries_exact m en'"
  unfolding entries_exact_def by (blast dest: map_le_Some)

lemma lookup_exact:
  assumes "redis_laws (provider cs) en" and "redis_works (provider cs)" and "entries_exact m (en w)"
    and "lookup cs i w = (r, c, w')"
  shows "entries_exact m (en w') \<and> c \<and> (\<forall>x. r = Some x \<longrightarrow> m i = Some x)"
proof -
  obtain b w1 where b: "Client (provider cs) w = (b, w1)" by force
  then have c: "b" using assms(2) unfolding redis_works_def by (metis fst_conv)
  have "en w1 \<subseteq>\<^sub>m en w" using assms(1) b unfolding redis_laws_def by (metis snd_conv)
  with assms(3) have ok: "entries_exact m (en w1)" by (rule entries_exact_less)
  obtain g w2 where g: "GetKey (provider cs) (cacheKey i) w1 = (g, w2)" by force
  then have "en w2 \<subseteq>\<^sub>m en w1" and hit: "\<And>v. g = Inr v \<Longrightarrow> en w1 (cacheKey i) = Some v"
    using assms(1) unfolding redis_laws_def by (force split: sum.splits)+
  then have "entries_exact m (en w2)" by (blast intro: entries_exact_less ok)
  moreover have "m i = Some x" if "g = Inr v" and "unmarshal_order v = Some x" for v x
    using ok hit [OF that(1)] that(2) unfolding entries_exact_def by fastforce
  ultimately show ?thesis using assms(4) b c g by (auto simp: lookup_def split: sum.splits)
qed

lemma fill_exact:
  assumes "redis_laws (provider cs) en" and "entries_exact m (en w)" and "wf_order x" and "m i = Some x"
  shows "entries_exact m (en (fill cs i x w))"
proof (cases "marshal_order (zone cs) x")
  case None
  then show ?thesis using assms(2) by (simp add: fill_def)
next
  case (Some v)
  obtain r w' where set: "SetKey (provider cs) (cacheKey i) v (ttl cs) w = (r, w')" by force
  have "entries_exact m ((en w)(cacheKey i \<mapsto> v))"
    using assms(2,4) order_roundtrip [OF assms(3) Some] by (auto simp: entries_exact_def)
  moreover have "en w' \<subseteq>\<^sub>m (en w)(cacheKey i \<mapsto> v) \<or> en w' \<subseteq>\<^sub>m en w"
    using assms(1) set unfolding redis_laws_def by blast
  ultimately have "entries_exact m (en w')" using assms(2) by (blast intro: entries_exact_less)
  then show ?thesis using Some set by (simp add: fill_def)
qed

text \<open>Invalidation removes what a mutation of those orders has made stale.\<close>

lemma invalidate_exact:
  assumes "redis_laws (provider cs) en" and "redis_works (provider cs)" and "entries_exact m (en w)"
    and "\<And>i x. m i = Some x \<Longrightarrow> i \<notin> set is \<Longrightarrow> m' i = Some x"
  shows "entries_exact m' (en (invalidate cs is w))"
proof -
  obtain b w1 where b: "Client (provider cs) w = (b, w1)" by force
  then have c: "b" using assms(2) unfolding redis_works_def by (metis fst_conv)
  have "en w1 \<subseteq>\<^sub>m en w" using assms(1) b unfolding redis_laws_def by (metis snd_conv)
  with assms(3) have ok: "entries_exact m (en w1)" by (rule entries_exact_less)
  show ?thesis
  proof (cases "is = []")
    case True
    then have "entries_exact m' (en w1)" using ok assms(4) unfolding entries_exact_def by fastforce
    then show ?thesis using True b by (simp add: invalidate_def)
  next
    case False
    obtain r w2 where d: "DelKeys (provider cs) (map cacheKey is) w1 = (r, w2)" by force
    then have "r = Inr ()" using assms(2) unfolding redis_works_def by (metis fst_conv)
    then have "en w2 \<subseteq>\<^sub>m en w1 |` (- set (map cacheKey is))"
      using assms(1) d unfolding redis_laws_def by blast
    then have "(en w1 |` (- set (map cacheKey is))) (cacheKey i) = Some v" if "en w2 (cacheKey i) = Some v" for i v
      using that by (rule map_le_Some)
    then have "en w1 (cacheKey i) = Some v \<and> i \<notin> set is" if "en w2 (cacheKey i) = Some v" for i v
      using that by (fastforce simp: restrict_map_def split: if_splits)
    then have "entries_exact m' (en w2)" using ok assms(4) unfolding entries_exact_def by fastforce
    then show ?thesis using False b c d by (simp add: invalidate_def)
  qed
qed

definition exact ::
  "('s \<Rightarrow> string \<Rightarrow> Order option) \<Rightarrow> ('w \<Rightarrow> string \<Rightarrow> string option) \<Rightarrow> 's \<Rightarrow> 'w \<Rightarrow> bool"
where
  "exact f en s w \<longleftrightarrow> entries_exact (f s) (en w) \<and> (\<forall>i x. f s i = Some x \<longrightarrow> wf_order x)"

fun utf8_call :: "call \<Rightarrow> bool" where
  "utf8_call (CCreate now c its) = (valid_utf8 c \<and> list_all wf_item its)"
| "utf8_call c = True"

text \<open>A store whose reads leave no trace and whose failed operations have no effect.\<close>

locale order_pure = order_store st abs inv room + order_ids st abs inv room
  for st :: "'s Store" and abs :: "'s \<Rightarrow> string \<Rightarrow> Order option" and inv :: "'s \<Rightarrow> bool" and room :: "nat \<Rightarrow> 's \<Rightarrow> bool" +
  assumes get_pure: "snd (Get st i s) = s"
begin

lemma get_same:
  assumes "redis_laws (provider cs) en" and "redis_works (provider cs)" and "exact abs en s w" and "inv s"
    and "cache_get st cs i (s, w) = (r, t, w')"
  shows "t = s \<and> exact abs en s w' \<and>
    (case r of Inr x \<Rightarrow> abs s i = Some x | Inl e \<Rightarrow> \<exists>e'. fst (Get st i s) = Inl e' \<and> e = Wrap ''caching store: get'' e')"
proof -
  obtain q c w1 where l: "lookup cs i w = (q, c, w1)" by (cases "lookup cs i w")
  have look: "entries_exact (abs s) (en w1) \<and> c \<and> (\<forall>x. q = Some x \<longrightarrow> abs s i = Some x)"
    using lookup_exact [OF assms(1,2) _ l] assms(3) unfolding exact_def by blast
  obtain g where g: "Get st i s = (g, s)" using get_pure [of i s] by (cases "Get st i s") auto
  have "abs s i = Some x \<and> wf_order x" if "g = Inr x" for x
    using get_exact [OF assms(4) g] assms(3) that by (auto simp: exact_def)
  then have "entries_exact (abs s) (en (fill cs i x w1)) \<and> abs s i = Some x" if "g = Inr x" for x
    using fill_exact [OF assms(1), of "abs s" w1 x i] look that by blast
  then show ?thesis
    using assms(3,5) l g look
    by (cases q; cases g) (auto simp: cache_get_def getFromStore_def exact_def)
qed

lemma exec_same:
  assumes "redis_laws (provider cs) en" and "redis_works (provider cs)" and "exact abs en s w" and "inv s"
    and "room (Suc n) s" and "utf8_call c" and "exec (NewCachingStore st cs) c (s, w) = (es, t, w')"
  shows "exec st c s = (es, t) \<and> exact abs en t w' \<and> inv t \<and> room n t"
proof -
  note less = room_less [OF assms(5)]
  have wf: "\<And>i x. abs s i = Some x \<Longrightarrow> wf_order x" using assms(3) by (simp add: exact_def)
  show ?thesis
  proof (cases c)
    case (CCreate now cu its)
    obtain r u where u: "Create st now cu its s = (r, u)" by force
    note eff = create [OF assms(4,5) u]
    have "abs u i = Some x" if "abs s i = Some x" for i x
      using eff that by (cases r) (auto simp: created_def)
    then have "entries_exact (abs u) (en w)" using assms(3) unfolding exact_def entries_exact_def by blast
    moreover have "\<forall>i x. abs u i = Some x \<longrightarrow> wf_order x"
      using eff wf created_wf [OF _ _ wf] assms(6) CCreate by (cases r) auto
    ultimately show ?thesis using eff assms(7) CCreate u by (auto simp: exact_def)
  next
    case (CGet i)
    obtain r u v where g: "cache_get st cs i (s, w) = (r, u, v)" by (cases "cache_get st cs i (s, w)")
    show ?thesis
      using get_same [OF assms(1-4) g] get_pure [of i s] less assms(4,7) CGet g by auto
  next
    case CList
    obtain r u where u: "List st s = (r, u)" by force
    show ?thesis using list [OF assms(4) u, of n] less assms(3,7) CList u by (auto simp: exact_def)
  next
    case (CConfirm now i)
    obtain r u where u: "ConfirmPending st now i s = (r, u)" by force
    note eff = confirm [OF assms(4) u, of n]
    have "abs u j = Some x" if "abs s j = Some x" and "j \<notin> set [i]" for j x
      using eff that by (cases r) (auto simp: confirmed_def split: bool.splits)
    moreover have "entries_exact (abs s) (en w)" using assms(3) by (simp add: exact_def)
    ultimately have "entries_exact (abs u) (en (invalidate cs [i] w))"
      by (intro invalidate_exact [OF assms(1,2)])
    moreover have "\<forall>i x. abs u i = Some x \<longrightarrow> wf_order x"
      using eff wf wf_effects(1) [of "abs s" now i "abs u", OF wf] by (cases r) (auto split: bool.splits)
    ultimately show ?thesis
      using eff less assms(3,4,7) CConfirm u confirm_fails [OF assms(4)]
      by (cases r) (auto simp: exact_def cache_confirm_def split: bool.splits)
  next
    case (CCancel nows cutoff)
    obtain r u where u: "CancelStalePending st nows cutoff s = (r, u)" by force
    note eff = cancel [OF assms(4) u, of n]
    have "entries_exact (abs u) (en (invalidate cs ids w))" if "r = Inr ids" for ids
    proof (rule invalidate_exact [OF assms(1,2)])
      show "entries_exact (abs s) (en w)" using assms(3) by (simp add: exact_def)
      show "abs u j = Some x" if "abs s j = Some x" and "j \<notin> set ids" for j x
        using eff \<open>r = Inr ids\<close> that by (auto simp: swept_def sweep_def)
    qed
    moreover have "\<forall>i x. abs u i = Some x \<longrightarrow> wf_order x"
      using eff wf wf_effects(2) [of "abs s" cutoff "abs u", OF wf] by (cases r) auto
    ultimately show ?thesis
      using eff less assms(3,4,7) CCancel u cancel_fails [OF assms(4)]
      by (cases r) (auto simp: exact_def cache_cancel_def)
  qed
qed

lemma run_same:
  assumes "redis_laws (provider cs) en" and "redis_works (provider cs)"
  shows "exact abs en s w \<Longrightarrow> inv s \<Longrightarrow> room (length ks) s \<Longrightarrow> list_all utf8_call ks \<Longrightarrow>
    run_calls (NewCachingStore st cs) ks (s, w) = (es, t, w') \<Longrightarrow>
    run_calls st ks s = (es, t) \<and> exact abs en t w' \<and> inv t"
proof (induction ks arbitrary: s w es)
  case (Cons k ks)
  obtain ds u v where k: "exec (NewCachingStore st cs) k (s, w) = (ds, u, v)"
    by (cases "exec (NewCachingStore st cs) k (s, w)")
  obtain fs where r: "run_calls (NewCachingStore st cs) ks (u, v) = (fs, t, w')" and es: "es = ds @ fs"
    using Cons.prems(5) k by (auto split: prod.splits)
  have one: "exec st k s = (ds, u) \<and> exact abs en u v \<and> inv u \<and> room (length ks) u"
    using exec_same [OF assms Cons.prems(1,2) _ _ k, of "length ks"] Cons.prems(3,4) by simp
  with Cons.IH [OF _ _ _ _ r] Cons.prems(4) es show ?case by simp
qed simp

end

interpretation mem_pure: order_pure mem_store mem_abs mem_inv mem_room
  by unfold_locales (simp add: mem_get_def split: option.splits)

text \<open>C34.
  With a Redis that works and calls that follow one another, the cached store cannot be told
  from the plain one: every sequence of calls reports the same transitions and leaves the same
  store, and every Get afterwards returns the order that the plain store returns, and an error
  (with the decorator's prefix) exactly when the plain store returns one.
\<close>
theorem cache_transparent:
  assumes "redis_laws (provider cs) entries" and "redis_works (provider cs)" and "\<forall>i. entries w (cacheKey i) = None"
    and "length ks < 2 ^ 64" and "list_all utf8_call ks"
    and "run_calls (NewCachingStore mem_store cs) ks (NewInMemoryStore chs, w) = (es, t, w')"
  shows "run_calls mem_store ks (NewInMemoryStore chs) = (es, t) \<and>
    (\<forall>i. case fst (cache_get mem_store cs i (t, w')) of
       Inr x \<Rightarrow> fst (mem_get i t) = Inr x
     | Inl e \<Rightarrow> \<exists>e'. fst (mem_get i t) = Inl e' \<and> e = Wrap ''caching store: get'' e')"
proof -
  note new = mem_new [OF assms(4), of chs]
  have "exact mem_abs entries (NewInMemoryStore chs) w"
    using assms(3) new(3) by (simp add: exact_def entries_exact_def)
  from mem_pure.run_same [OF assms(1,2) this new(1,2) assms(5,6)]
  have run: "run_calls mem_store ks (NewInMemoryStore chs) = (es, t)" and ex: "exact mem_abs entries t w'" and inv: "mem_inv t"
    by auto
  have "case fst (cache_get mem_store cs i (t, w')) of
       Inr x \<Rightarrow> fst (mem_get i t) = Inr x
     | Inl e \<Rightarrow> \<exists>e'. fst (mem_get i t) = Inl e' \<and> e = Wrap ''caching store: get'' e'" for i
  proof -
    obtain r u v where g: "cache_get mem_store cs i (t, w') = (r, u, v)" by (cases "cache_get mem_store cs i (t, w')")
    show ?thesis
      using mem_pure.get_same [OF assms(1,2) ex inv g] g
      by (auto simp: mem_get_def mem_abs_def split: sum.splits)
  qed
  with run show ?thesis by blast
qed

lemma map_redis_works: "redis_works map_redis"
  by (simp add: redis_works_def map_redis_def)

theorem cache_transparent_witness:
  "\<exists>es t w. run_calls (NewCachingStore mem_store demo_cache) [CCreate 5 ''ann'' [], CConfirm 9 ''ord_1'']
      (NewInMemoryStore [], Map.empty) = (es, t, w) \<and>
    run_calls mem_store [CCreate 5 ''ann'' [], CConfirm 9 ''ord_1''] (NewInMemoryStore []) = (es, t)"
proof -
  let ?ks = "[CCreate 5 ''ann'' [], CConfirm 9 ''ord_1'']"
  obtain es t w where r: "run_calls (NewCachingStore mem_store demo_cache) ?ks (NewInMemoryStore [], Map.empty) = (es, t, w)"
    by (cases "run_calls (NewCachingStore mem_store demo_cache) ?ks (NewInMemoryStore [], Map.empty)")
  have laws: "redis_laws (provider demo_cache) (\<lambda>w. w)" "redis_works (provider demo_cache)"
    by (simp_all add: demo_cache_def map_redis_laws map_redis_works)
  have "valid_utf8 ''ann''" by code_simp
  then have u: "list_all utf8_call ?ks" by simp
  from cache_transparent [OF laws _ _ u r] have "run_calls mem_store ?ks (NewInMemoryStore []) = (es, t)" by auto
  with r show ?thesis by blast
qed

end
