(* ===== verification/Postgres.thy ===== *)
theory Postgres
  imports OrderWire
begin

text \<open>
  The PostgreSQL store, \<^verbatim>\<open>store/postgres.go\<close>. The database is a parameter: one operation for each
  statement of the store, on a world; \<open>pg_laws\<close> says what PostgreSQL documents about these
  statements, with \<open>table\<close> the rows by primary key. A statement that reports an error may have
  been committed, since the answer of the server can get lost.
\<close>


section \<open>The store\<close>

record row =
  rid :: string
  rcustomer :: string
  ritems :: string
  rstatus :: string
  rcreated :: int
  rupdated :: int

text \<open>
  Pool says whether dbservice has a pool at the moment. Insert is given the server's clock and
  the parameters and returns id and times; SelectOne fails with \<^verbatim>\<open>pgx.ErrNoRows\<close> without a row.
  A query with many rows returns what the Scan of each row gives, and then what \<^verbatim>\<open>rows.Err\<close> says.
\<close>

record 'w pg_api =
  Pool :: "'w \<Rightarrow> bool \<times> 'w"
  ExecDDL :: "('w, unit) op"
  Insert :: "int \<Rightarrow> string \<Rightarrow> string \<Rightarrow> string \<Rightarrow> ('w, string \<times> int \<times> int) op"
  SelectOne :: "string \<Rightarrow> ('w, row) op"
  SelectAll :: "('w, row res list \<times> err option) op"
  UpdateOne :: "int \<Rightarrow> string \<Rightarrow> string \<Rightarrow> string \<Rightarrow> ('w, int) op"
  SelectExists :: "string \<Rightarrow> ('w, bool) op"
  UpdateStale :: "int \<Rightarrow> string \<Rightarrow> string \<Rightarrow> int \<Rightarrow> ('w, string res list \<times> err option) op"

definition errStoreNotConnected :: err where
  "errStoreNotConnected = LibErr ''store.errStoreNotConnected'' ''postgres store: database not connected''"

definition ErrNoRows :: err where
  "ErrNoRows = LibErr ''pgx.ErrNoRows'' ''no rows in result set''"

text \<open>\<^verbatim>\<open>db\<close>, and the early return that every method has after it.\<close>

definition with_db :: "'w pg_api \<Rightarrow> ('w, 'a) op \<Rightarrow> ('w, 'a) op" where
  "with_db api f w = (case Pool api w of (False, w1) \<Rightarrow> (Inl errStoreNotConnected, w1) | (True, w1) \<Rightarrow> f w1)"

definition EnsureSchema :: "'w pg_api \<Rightarrow> ('w, unit) op" where
  "EnsureSchema api = with_db api (\<lambda>w. apfst (wrap_res ''postgres store: ensure schema'') (ExecDDL api w))"

definition scanOrder :: "row res \<Rightarrow> Order res" where
  "scanOrder row =
     (case row of
        Inl e \<Rightarrow> Inl (Wrap ''scan order row'' e)
      | Inr r \<Rightarrow>
          (case unmarshal_items (ritems r) of
             None \<Rightarrow> Inl (Wrap (''unmarshal items for order '' @ rid r) json_error)
           | Some its \<Rightarrow>
               Inr \<lparr>ID = rid r, CustomerID = rcustomer r, Items = its, Status = rstatus r,
                    CreatedAt = rcreated r, UpdatedAt = rupdated r\<rparr>))"

definition pg_create :: "'w pg_api \<Rightarrow> int \<Rightarrow> string \<Rightarrow> Item list \<Rightarrow> ('w, Order) op" where
  "pg_create api now customerID items = with_db api (\<lambda>w.
     (case Insert api now customerID (items_text items) StatusPending w of
        (Inl e, w1) \<Rightarrow> (Inl (Wrap ''postgres store: create'' e), w1)
      | (Inr (i, c, u), w1) \<Rightarrow>
          (Inr \<lparr>ID = i, CustomerID = customerID, Items = items, Status = StatusPending, CreatedAt = c, UpdatedAt = u\<rparr>, w1)))"

definition pg_get :: "'w pg_api \<Rightarrow> string \<Rightarrow> ('w, Order) op" where
  "pg_get api i = with_db api (\<lambda>w.
     (case SelectOne api i w of
        (row, w1) \<Rightarrow>
          (case scanOrder row of
             Inl e \<Rightarrow> (Inl (if errors_is e ErrNoRows then ErrOrderNotFound else Wrap ''postgres store: get'' e), w1)
           | Inr x \<Rightarrow> (Inr x, w1))))"

text \<open>The loop over the rows: the first row that cannot be scanned ends it.\<close>

fun scan_all :: "string \<Rightarrow> ('r \<Rightarrow> 'a res) \<Rightarrow> 'r list \<Rightarrow> 'a list \<Rightarrow> 'a list res" where
  "scan_all what scan [] out = Inr out"
| "scan_all what scan (row # rows) out =
     (case scan row of Inl e \<Rightarrow> Inl (Wrap what e) | Inr x \<Rightarrow> scan_all what scan rows (out @ [x]))"

definition drain :: "string \<Rightarrow> string \<Rightarrow> ('r \<Rightarrow> 'a res) \<Rightarrow> 'r list \<times> err option \<Rightarrow> 'a list res" where
  "drain what scan_what scan = (\<lambda>(rows, final).
     (case scan_all scan_what scan rows [] of
        Inl e \<Rightarrow> Inl e
      | Inr out \<Rightarrow> (case final of Some e \<Rightarrow> Inl (Wrap what e) | None \<Rightarrow> Inr out)))"

definition pg_list :: "'w pg_api \<Rightarrow> ('w, Order list) op" where
  "pg_list api = with_db api (\<lambda>w.
     (case SelectAll api w of
        (Inl e, w1) \<Rightarrow> (Inl (Wrap ''postgres store: list'' e), w1)
      | (Inr rows, w1) \<Rightarrow> (drain ''postgres store: list'' ''postgres store: list scan'' scanOrder rows, w1)))"

definition pg_confirm :: "'w pg_api \<Rightarrow> int \<Rightarrow> string \<Rightarrow> ('w, bool) op" where
  "pg_confirm api now i = with_db api (\<lambda>w.
     (case UpdateOne api now StatusConfirmed i StatusPending w of
        (Inl e, w1) \<Rightarrow> (Inl (Wrap ''postgres store: confirm'' e), w1)
      | (Inr affected, w1) \<Rightarrow>
          if affected > 0 then (Inr True, w1)
          else case SelectExists api i w1 of
                 (Inl e, w2) \<Rightarrow> (Inl (Wrap ''postgres store: confirm existence check'' e), w2)
               | (Inr ex, w2) \<Rightarrow> (if \<not> ex then Inl ErrOrderNotFound else Inr False, w2)))"

text \<open>A timestamp parameter is sent with microseconds; now() is one reading for all rows.\<close>

definition timestamptz :: "int \<Rightarrow> int" where
  "timestamptz t = t div 1000 * 1000"

definition pg_cancel :: "'w pg_api \<Rightarrow> (string \<Rightarrow> int) \<Rightarrow> int \<Rightarrow> ('w, string list) op" where
  "pg_cancel api nows cutoff = with_db api (\<lambda>w.
     (case UpdateStale api (nows '''') StatusCanceled StatusPending (timestamptz cutoff) w of
        (Inl e, w1) \<Rightarrow> (Inl (Wrap ''postgres store: cancel stale'' e), w1)
      | (Inr rows, w1) \<Rightarrow> (drain ''postgres store: cancel stale'' ''postgres store: cancel stale scan'' (\<lambda>r. r) rows, w1)))"

definition NewPostgresStore :: "'w pg_api \<Rightarrow> 'w Store" where
  "NewPostgresStore api =
     \<lparr>Create = pg_create api, Get = pg_get api, List = pg_list api, ConfirmPending = pg_confirm api,
      CancelStalePending = pg_cancel api\<rparr>"

lemma pg_simps [simp]:
  "Create (NewPostgresStore api) = pg_create api" "Get (NewPostgresStore api) = pg_get api"
  "List (NewPostgresStore api) = pg_list api" "ConfirmPending (NewPostgresStore api) = pg_confirm api"
  "CancelStalePending (NewPostgresStore api) = pg_cancel api"
  by (simp_all add: NewPostgresStore_def)


section \<open>What PostgreSQL promises\<close>

definition new_row :: "string \<Rightarrow> string \<Rightarrow> string \<Rightarrow> string \<Rightarrow> int \<Rightarrow> row" where
  "new_row i c j st now = \<lparr>rid = i, rcustomer = c, ritems = j, rstatus = st, rcreated = now, rupdated = now\<rparr>"

text \<open>
  INSERT takes an id that is not in the table and keeps the JSON value of the items (whose keys
  are already in the order in which JSONB keeps them). UPDATE changes the rows that match, and
  only their status and update time. No error of the driver is the program's ErrOrderNotFound.
\<close>

definition inserted :: "(string \<Rightarrow> row option) \<Rightarrow> string \<Rightarrow> string \<Rightarrow> string \<Rightarrow> string \<Rightarrow> int \<Rightarrow> (string \<Rightarrow> row option) \<Rightarrow> bool" where
  "inserted m i c j st now m' \<longleftrightarrow> m i = None \<and>
     (\<exists>j'. (\<forall>its. j = items_text its \<longrightarrow> parse_json j' = parse_json j) \<and> m' = m(i \<mapsto> new_row i c j' st now))"

definition updated :: "(string \<Rightarrow> row option) \<Rightarrow> (row \<Rightarrow> bool) \<Rightarrow> string \<Rightarrow> int \<Rightarrow> string \<Rightarrow> row option" where
  "updated m p st now = (\<lambda>i. map_option (\<lambda>r. if p r then r\<lparr>rstatus := st, rupdated := now\<rparr> else r) (m i))"

definition insert_law :: "'w pg_api \<Rightarrow> ('w \<Rightarrow> string \<Rightarrow> row option) \<Rightarrow> bool" where
  "insert_law api table \<longleftrightarrow> (\<forall>now c j st w r w'. Insert api now c j st w = (r, w') \<longrightarrow>
     (case r of
        Inr (i, cr, up) \<Rightarrow> cr = now \<and> up = now \<and> inserted (table w) i c j st now (table w')
      | Inl e \<Rightarrow> table w' = table w \<or> (\<exists>i. inserted (table w) i c j st now (table w'))))"

definition select_law :: "'w pg_api \<Rightarrow> ('w \<Rightarrow> string \<Rightarrow> row option) \<Rightarrow> bool" where
  "select_law api table \<longleftrightarrow> (\<forall>i w r w'. SelectOne api i w = (r, w') \<longrightarrow> table w' = table w \<and>
     (case r of Inr x \<Rightarrow> table w i = Some x
      | Inl e \<Rightarrow> \<not> errors_is e ErrOrderNotFound \<and> (errors_is e ErrNoRows \<longrightarrow> table w i = None)))"

definition select_all_law :: "'w pg_api \<Rightarrow> ('w \<Rightarrow> string \<Rightarrow> row option) \<Rightarrow> bool" where
  "select_all_law api table \<longleftrightarrow> (\<forall>w r w'. SelectAll api w = (r, w') \<longrightarrow> table w' = table w \<and>
     (\<forall>rows. r = Inr (map Inr rows, None) \<longrightarrow>
        distinct (map rid rows) \<and> set rows = ran (table w) \<and> sorted (map rcreated rows)))"

definition update_law :: "'w pg_api \<Rightarrow> ('w \<Rightarrow> string \<Rightarrow> row option) \<Rightarrow> bool" where
  "update_law api table \<longleftrightarrow> (\<forall>now st i old w r w'. UpdateOne api now st i old w = (r, w') \<longrightarrow>
     (let m = updated (table w) (\<lambda>x. rid x = i \<and> rstatus x = old) st now in
      case r of
        Inr n \<Rightarrow> table w' = m \<and> (n > 0 \<longleftrightarrow> (\<exists>x \<in> ran (table w). rid x = i \<and> rstatus x = old))
      | Inl e \<Rightarrow> \<not> errors_is e ErrOrderNotFound \<and> (table w' = table w \<or> table w' = m)))"

definition exists_law :: "'w pg_api \<Rightarrow> ('w \<Rightarrow> string \<Rightarrow> row option) \<Rightarrow> bool" where
  "exists_law api table \<longleftrightarrow> (\<forall>i w r w'. SelectExists api i w = (r, w') \<longrightarrow> table w' = table w \<and>
     (case r of Inr b \<Rightarrow> b \<longleftrightarrow> (\<exists>x \<in> ran (table w). rid x = i) | Inl e \<Rightarrow> \<not> errors_is e ErrOrderNotFound))"

definition update_stale_law :: "'w pg_api \<Rightarrow> ('w \<Rightarrow> string \<Rightarrow> row option) \<Rightarrow> bool" where
  "update_stale_law api table \<longleftrightarrow> (\<forall>now st old cutoff w r w'. UpdateStale api now st old cutoff w = (r, w') \<longrightarrow>
     (let p = (\<lambda>x. rstatus x = old \<and> rcreated x < cutoff); m = updated (table w) p st now in
      (table w' = table w \<and> (\<forall>ids. r \<noteq> Inr (ids, None)) \<or> table w' = m) \<and>
      (\<forall>ids. r = Inr (map Inr ids, None) \<longrightarrow>
         distinct ids \<and> set ids = {i. \<exists>x. table w i = Some x \<and> p x})))"

definition pg_laws :: "'w pg_api \<Rightarrow> ('w \<Rightarrow> string \<Rightarrow> row option) \<Rightarrow> bool" where
  "pg_laws api table \<longleftrightarrow> (\<forall>w. table (snd (Pool api w)) = table w) \<and>
     insert_law api table \<and> select_law api table \<and> select_all_law api table \<and> update_law api table \<and>
     exists_law api table \<and> update_stale_law api table"

lemma pg_lawsD:
  assumes "pg_laws api table"
  shows "insert_law api table" "select_law api table" "select_all_law api table" "update_law api table"
    "exists_law api table" "update_stale_law api table"
  using assms by (simp_all add: pg_laws_def)


section \<open>The orders in the table\<close>

definition row_order :: "row \<Rightarrow> Order option" where
  "row_order r = map_option
     (\<lambda>its. \<lparr>ID = rid r, CustomerID = rcustomer r, Items = its, Status = rstatus r,
            CreatedAt = rcreated r, UpdatedAt = rupdated r\<rparr>) (unmarshal_items (ritems r))"

definition pg_abs :: "('w \<Rightarrow> string \<Rightarrow> row option) \<Rightarrow> 'w \<Rightarrow> string \<Rightarrow> Order option" where
  "pg_abs table w i = Option.bind (table w i) row_order"

definition pg_inv :: "('w \<Rightarrow> string \<Rightarrow> row option) \<Rightarrow> 'w \<Rightarrow> bool" where
  "pg_inv table w \<longleftrightarrow> (\<forall>i r. table w i = Some r \<longrightarrow> rid r = i \<and> row_order r \<noteq> None)"

lemma scanOrder_Inl [simp]: "scanOrder (Inl e) = Inl (Wrap ''scan order row'' e)"
  by (simp add: scanOrder_def)

lemma scanOrder_row: "scanOrder row = Inr x \<longleftrightarrow> (\<exists>r. row = Inr r \<and> row_order r = Some x)"
  by (auto simp: scanOrder_def row_order_def split: option.splits sum.splits)

text \<open>The rows of a list that could be scanned, beside their orders.\<close>

lemma scanned_rows:
  "map scanOrder scans = map Inr xs \<Longrightarrow> \<exists>rows. scans = map Inr rows \<and> list_all2 (\<lambda>r x. row_order r = Some x) rows xs"
proof (induction scans arbitrary: xs)
  case (Cons a scans)
  then obtain x ys where xs: "xs = x # ys" "scanOrder a = Inr x" "map scanOrder scans = map Inr ys" by (cases xs) auto
  then obtain b where b: "a = Inr b" "row_order b = Some x" by (auto simp: scanOrder_row)
  from Cons.IH [OF xs(3)] xs b show ?case by (auto intro: exI [of _ "b # _"])
qed simp

lemma scanned_columns:
  "list_all2 (\<lambda>r x. row_order r = Some x) rows xs \<Longrightarrow>
   map rid rows = map ID xs \<and> map rcreated rows = map CreatedAt xs \<and> set xs = {x. \<exists>r \<in> set rows. row_order r = Some x}"
  by (induction rule: list_all2_induct) (auto simp: row_order_def)

lemma pg_frame: "table w' = table w \<Longrightarrow> pg_abs table w' = pg_abs table w \<and> (pg_inv table w' \<longleftrightarrow> pg_inv table w)"
  by (simp add: pg_abs_def [abs_def] pg_inv_def)

lemma pg_inv_order:
  assumes "pg_inv table w" and "table w i = Some r"
  obtains x where "row_order r = Some x" and "pg_abs table w i = Some x" and "ID x = i" and "Status x = rstatus r"
    and "CreatedAt x = rcreated r"
proof -
  from assms obtain x where x: "row_order r = Some x" and "rid r = i" unfolding pg_inv_def by blast
  moreover from this have "ID x = i" "Status x = rstatus r" "CreatedAt x = rcreated r" by (auto simp: row_order_def)
  ultimately show ?thesis using assms(2) by (intro that) (simp_all add: pg_abs_def)
qed

lemma pg_abs_inserted:
  assumes "pg_inv table w" and "inserted (table w) i c (items_text its) StatusPending now (table w')" and "list_all wf_item its"
  shows "pg_inv table w' \<and> created (pg_abs table w) now c its (new_order i now c its) (pg_abs table w')"
proof -
  from assms(2) obtain j where new: "table w i = None" and "parse_json j = parse_json (items_text its)"
    and t: "table w' = (table w)(i \<mapsto> new_row i c j StatusPending now)"
    unfolding inserted_def by blast
  then have "unmarshal_items j = Some its"
    using items_text_roundtrip [OF assms(3)] by (simp add: unmarshal_items_def Unmarshal_def)
  then have r: "row_order (new_row i c j StatusPending now) = Some (new_order i now c its)"
    by (simp add: row_order_def new_row_def new_order_def)
  have "pg_inv table w'" using assms(1) r by (simp add: pg_inv_def t new_row_def)
  moreover have "pg_abs table w' = (pg_abs table w)(i \<mapsto> new_order i now c its)" by (auto simp: pg_abs_def t r)
  moreover have "pg_abs table w i = None" by (simp add: pg_abs_def new)
  ultimately show ?thesis by (simp add: created_def new_order_def)
qed

lemma pg_abs_updated:
  assumes "pg_inv table w" and "table w' = updated (table w) p st now"
    and "\<And>r x. row_order r = Some x \<Longrightarrow> p r \<longleftrightarrow> P x"
  shows "pg_inv table w' \<and>
    pg_abs table w' = (\<lambda>i. map_option (\<lambda>x. if P x then x\<lparr>Status := st, UpdatedAt := now\<rparr> else x) (pg_abs table w i))"
proof -
  have upd: "row_order (r\<lparr>rstatus := st, rupdated := now\<rparr>) = map_option (\<lambda>x. x\<lparr>Status := st, UpdatedAt := now\<rparr>) (row_order r)" for r
    by (simp add: row_order_def option.map_comp comp_def)
  have "pg_inv table w'" using assms(1) by (auto simp: pg_inv_def assms(2) updated_def upd)
  moreover have "pg_abs table w' i =
      map_option (\<lambda>x. if P x then x\<lparr>Status := st, UpdatedAt := now\<rparr> else x) (pg_abs table w i)" for i
  proof (cases "table w i")
    case None
    then show ?thesis by (simp add: pg_abs_def assms(2) updated_def)
  next
    case (Some r)
    then obtain x where "row_order r = Some x" using assms(1) unfolding pg_inv_def by blast
    then show ?thesis using assms(3) [of r x] Some by (simp add: pg_abs_def assms(2) updated_def upd)
  qed
  ultimately show ?thesis by blast
qed

lemma scan_all_Inr:
  "scan_all what scan rows out = Inr res \<Longrightarrow> \<exists>xs. res = out @ xs \<and> map scan rows = map Inr xs"
proof (induction rows arbitrary: out)
  case (Cons r rows)
  then obtain x where x: "scan r = Inr x" and "scan_all what scan rows (out @ [x]) = Inr res" by (auto split: sum.splits)
  from Cons.IH [OF this(2)] x show ?case by (auto intro: exI [of _ "x # _"])
qed simp

lemma drain_Inr: "drain what swhat scan (rows, final) = Inr xs \<longleftrightarrow> final = None \<and> scan_all swhat scan rows [] = Inr xs"
  by (auto simp: drain_def split: sum.splits option.splits)

lemma pool_table:
  assumes "pg_laws api table" and "with_db api f w = (r, w')"
  obtains "r = Inl errStoreNotConnected" and "table w' = table w" | v where "table v = table w" and "f v = (r, w')"
proof -
  obtain b v where v: "Pool api w = (b, v)" by force
  then have "table v = table w" using assms(1) unfolding pg_laws_def by (metis snd_conv)
  with v assms(2) that show ?thesis by (cases b) (auto simp: with_db_def)
qed


section \<open>The methods keep the contract\<close>

lemma errors_distinct [simp]:
  "\<not> errors_is errStoreNotConnected ErrOrderNotFound" "\<not> errors_is json_error ErrOrderNotFound" "\<not> errors_is json_error ErrNoRows"
  "ErrOrderNotFound \<noteq> Wrap p e" "Wrap p e \<noteq> ErrOrderNotFound" "Wrap p e \<noteq> ErrNoRows"
  by (simp_all add: errStoreNotConnected_def ErrOrderNotFound_def json_error_def ErrNoRows_def)

lemma pg_create_law:
  assumes "pg_laws api table" and "pg_inv table w" and "list_all wf_item its" and "pg_create api now c its w = (r, w')"
  shows "pg_inv table w' \<and>
    (case r of
       Inl e \<Rightarrow> pg_abs table w' = pg_abs table w \<or> (\<exists>x. created (pg_abs table w) now c its x (pg_abs table w'))
     | Inr x \<Rightarrow> created (pg_abs table w) now c its x (pg_abs table w'))"
  using assms(1,4) unfolding pg_create_def
proof (cases rule: pool_table)
  case 1
  then show ?thesis using assms(2) pg_frame [OF 1(2)] by simp
next
  case (2 v)
  note fr = pg_frame [OF 2(1)]
  obtain q u where ins: "Insert api now c (items_text its) StatusPending v = (q, u)" by force
  have w': "u = w'" using 2(2) ins by (auto split: sum.splits prod.splits)
  have ok: "pg_inv table w' \<and> created (pg_abs table w) now c its (new_order i now c its) (pg_abs table w')"
    if "inserted (table v) i c (items_text its) StatusPending now (table u)" for i
    using pg_abs_inserted [of table v i c its now u] assms(2,3) that fr w' by simp
  have law: "case q of
      Inr (i, cr, up) \<Rightarrow> cr = now \<and> up = now \<and> inserted (table v) i c (items_text its) StatusPending now (table u)
    | Inl e \<Rightarrow> table u = table v \<or> (\<exists>i. inserted (table v) i c (items_text its) StatusPending now (table u))"
    using pg_lawsD(1) [OF assms(1)] ins unfolding insert_law_def by blast
  show ?thesis
  proof (cases q)
    case (Inl e)
    then have "r = Inl (Wrap ''postgres store: create'' e)" using 2(2) ins by simp
    then show ?thesis using Inl law ok assms(2) fr pg_frame [of table u v] w' by auto
  next
    case (Inr y)
    obtain i cr up where y: "y = (i, cr, up)" by (cases y)
    then have "r = Inr (new_order i now c its)" using 2(2) ins Inr law by (simp add: new_order_def)
    then show ?thesis using Inr law ok [of i] y by simp
  qed
qed

lemma pg_get_law:
  assumes "pg_laws api table" and "pg_inv table w" and "pg_get api i w = (r, w')"
  shows "pg_inv table w' \<and> pg_abs table w' = pg_abs table w \<and>
    (case r of Inr x \<Rightarrow> pg_abs table w i = Some x | Inl e \<Rightarrow> errors_is e ErrOrderNotFound \<longrightarrow> pg_abs table w i = None)"
  using assms(1,3) unfolding pg_get_def
proof (cases rule: pool_table)
  case 1
  then show ?thesis using assms(2) pg_frame [OF 1(2)] by simp
next
  case (2 v)
  note fr = pg_frame [OF 2(1)]
  obtain q u where sel: "SelectOne api i v = (q, u)" by force
  then have t: "table u = table v" and law: "case q of Inr x \<Rightarrow> table v i = Some x
      | Inl e \<Rightarrow> \<not> errors_is e ErrOrderNotFound \<and> (errors_is e ErrNoRows \<longrightarrow> table v i = None)"
    using pg_lawsD(2) [OF assms(1)] unfolding select_law_def by blast+
  have w': "u = w'" using 2(2) sel by (auto split: sum.splits)
  show ?thesis
  proof (cases q)
    case (Inl e)
    then show ?thesis using 2(2) sel law fr pg_frame [OF t] assms(2) 2(1) w' by (auto simp: pg_abs_def)
  next
    case (Inr y)
    then obtain x where "scanOrder (Inr y) = Inr x" "pg_abs table v i = Some x"
      using law assms(2) fr by (auto simp: scanOrder_row elim!: pg_inv_order [of table v i y])
    moreover from this have "r = Inr x" using 2(2) sel Inr by simp
    ultimately show ?thesis using fr pg_frame [OF t] assms(2) w' by simp
  qed
qed

lemma pg_list_law:
  assumes "pg_laws api table" and "pg_inv table w" and "pg_list api w = (r, w')"
  shows "pg_inv table w' \<and> pg_abs table w' = pg_abs table w \<and>
    (\<forall>xs. r = Inr xs \<longrightarrow> distinct (map ID xs) \<and> set xs = ran (pg_abs table w) \<and> sorted (map CreatedAt xs))"
  using assms(1,3) unfolding pg_list_def
proof (cases rule: pool_table)
  case 1
  then show ?thesis using assms(2) pg_frame [OF 1(2)] by simp
next
  case (2 v)
  note fr = pg_frame [OF 2(1)]
  obtain q u where sel: "SelectAll api v = (q, u)" by force
  then have t: "table u = table v" and law: "\<forall>rows. q = Inr (map Inr rows, None) \<longrightarrow>
      distinct (map rid rows) \<and> set rows = ran (table v) \<and> sorted (map rcreated rows)"
    using pg_lawsD(3) [OF assms(1)] unfolding select_all_law_def by blast+
  have w': "u = w'" using 2(2) sel by (auto split: sum.splits)
  have "distinct (map ID xs) \<and> set xs = ran (pg_abs table w) \<and> sorted (map CreatedAt xs)" if "r = Inr xs" for xs
  proof -
    from that 2(2) sel obtain scans where q: "q = Inr (scans, None)" and
      sc: "scan_all ''postgres store: list scan'' scanOrder scans [] = Inr xs"
      by (auto simp: drain_Inr split: sum.splits)
    from scan_all_Inr [OF sc] have m: "map scanOrder scans = map Inr xs" by simp
    from scanned_rows [OF m] obtain rows where rows: "scans = map Inr rows"
      and l: "list_all2 (\<lambda>r x. row_order r = Some x) rows xs" by blast
    note cols = scanned_columns [OF l]
    then have "set xs = {x. \<exists>r \<in> set rows. row_order r = Some x}" by blast
    also have "\<dots> = ran (pg_abs table w)"
      using law q rows 2(1) by (auto simp: ran_def pg_abs_def bind_eq_Some_conv)
    finally show ?thesis using law q rows cols by auto
  qed
  then show ?thesis using fr pg_frame [OF t] assms(2) w' by simp
qed

text \<open>The one row that the conditional UPDATE of ConfirmPending can match.\<close>

lemma pending_row:
  assumes "pg_inv table w"
  shows "(\<exists>x \<in> ran (table w). rid x = i \<and> P (rstatus x)) \<longleftrightarrow> (\<exists>x. pg_abs table w i = Some x \<and> P (Status x))"
proof
  assume "\<exists>x \<in> ran (table w). rid x = i \<and> P (rstatus x)"
  then obtain x j where x: "table w j = Some x" "rid x = i" "P (rstatus x)" by (auto simp: ran_def)
  with assms have "j = i" unfolding pg_inv_def by blast
  obtain y where "pg_abs table w j = Some y" "Status y = rstatus x" by (rule pg_inv_order [OF assms x(1)])
  with x \<open>j = i\<close> show "\<exists>x. pg_abs table w i = Some x \<and> P (Status x)" by auto
next
  assume "\<exists>x. pg_abs table w i = Some x \<and> P (Status x)"
  then obtain x r where "table w i = Some r" "row_order r = Some x" "P (Status x)"
    by (auto simp: pg_abs_def bind_eq_Some_conv)
  with assms show "\<exists>x \<in> ran (table w). rid x = i \<and> P (rstatus x)"
    unfolding pg_inv_def by (intro bexI [of _ r] ranI [of _ i]) (auto simp: row_order_def)
qed

lemma pg_abs_confirmed:
  assumes "pg_inv table w" and "table w' = updated (table w) (\<lambda>x. rid x = i \<and> rstatus x = StatusPending) StatusConfirmed now"
  shows "pg_inv table w'"
    and "pg_abs table w i = Some x \<Longrightarrow> Status x = StatusPending \<Longrightarrow> confirmed (pg_abs table w) now i (pg_abs table w')"
    and "(\<And>x. pg_abs table w i = Some x \<Longrightarrow> Status x \<noteq> StatusPending) \<Longrightarrow> pg_abs table w' = pg_abs table w"
proof -
  have ids: "ID x = j" if "pg_abs table w j = Some x" for j x
    using assms(1) that unfolding pg_inv_def pg_abs_def by (force simp: bind_eq_Some_conv row_order_def)
  have upd: "pg_inv table w' \<and> pg_abs table w' = (\<lambda>j. map_option
      (\<lambda>x. if ID x = i \<and> Status x = StatusPending then x\<lparr>Status := StatusConfirmed, UpdatedAt := now\<rparr> else x) (pg_abs table w j))"
    by (rule pg_abs_updated [OF assms]) (auto simp: row_order_def)
  then show "pg_inv table w'" by simp
  show "confirmed (pg_abs table w) now i (pg_abs table w')" if "pg_abs table w i = Some x" and "Status x = StatusPending"
    using upd that ids unfolding confirmed_def by (intro exI [of _ x]) (auto split: option.splits simp: map_option_case fun_eq_iff)
  show "pg_abs table w' = pg_abs table w" if "\<And>x. pg_abs table w i = Some x \<Longrightarrow> Status x \<noteq> StatusPending"
    using upd that ids by (fastforce simp: fun_eq_iff map_option_case split: option.splits)
qed

lemma pg_confirm_law:
  assumes "pg_laws api table" and "pg_inv table w" and "pg_confirm api now i w = (r, w')"
  shows "pg_inv table w' \<and>
    (case r of
       Inr True \<Rightarrow> confirmed (pg_abs table w) now i (pg_abs table w')
     | Inr False \<Rightarrow> pg_abs table w' = pg_abs table w \<and> (\<exists>x. pg_abs table w i = Some x \<and> Status x \<noteq> StatusPending)
     | Inl e \<Rightarrow> (pg_abs table w' = pg_abs table w \<or> confirmed (pg_abs table w) now i (pg_abs table w')) \<and>
         (errors_is e ErrOrderNotFound \<longrightarrow> pg_abs table w i = None))"
  using assms(1,3) unfolding pg_confirm_def
proof (cases rule: pool_table)
  case 1
  then show ?thesis using assms(2) pg_frame [OF 1(2)] by simp
next
  case (2 v)
  note fr = pg_frame [OF 2(1)]
  have iv: "pg_inv table v" using fr assms(2) by simp
  let ?upd = "updated (table v) (\<lambda>x. rid x = i \<and> rstatus x = StatusPending) StatusConfirmed now"
  note pend = pending_row [OF iv, of i "\<lambda>s. s = StatusPending"] and any = pending_row [OF iv, of i "\<lambda>s. True"]
  obtain q u where upd: "UpdateOne api now StatusConfirmed i StatusPending v = (q, u)" by force
  then have law: "case q of
      Inr n \<Rightarrow> table u = ?upd \<and> (n > 0 \<longleftrightarrow> (\<exists>x. pg_abs table v i = Some x \<and> Status x = StatusPending))
    | Inl e \<Rightarrow> \<not> errors_is e ErrOrderNotFound \<and> (table u = table v \<or> table u = ?upd)"
    using pg_lawsD(4) [OF assms(1), unfolded update_law_def Let_def, rule_format, OF upd] unfolding pend by simp
  have conf: "pg_inv table u \<and> (pg_abs table u = pg_abs table v \<or> confirmed (pg_abs table v) now i (pg_abs table u))"
    if "table u = ?upd"
    using pg_abs_confirmed [OF iv that] by blast
  show ?thesis
  proof (cases q)
    case (Inl e)
    then have "r = Inl (Wrap ''postgres store: confirm'' e)" "u = w'" using 2(2) upd by auto
    then show ?thesis using Inl law conf iv fr pg_frame [of table u v] by auto
  next
    case (Inr n)
    note upd_eff = pg_abs_confirmed [OF iv law [unfolded Inr sum.case, THEN conjunct1]]
    show ?thesis
    proof (cases "n > 0")
      case True
      then have "r = Inr True" "u = w'" using 2(2) upd Inr by auto
      then show ?thesis using law Inr True upd_eff(1,2) fr by auto
    next
      case False
      then have same: "pg_abs table u = pg_abs table v" using law Inr upd_eff(3) by auto
      obtain b z where ex: "SelectExists api i u = (b, z)" by force
      have "(\<exists>x \<in> ran (table u). rid x = i) \<longleftrightarrow> (\<exists>x. pg_abs table u i = Some x)"
        using pending_row [OF upd_eff(1), of i "\<lambda>s. True"] by simp
      then have t: "table z = table u" and law2: "case b of Inr b \<Rightarrow> b \<longleftrightarrow> (\<exists>x. pg_abs table u i = Some x)
          | Inl e \<Rightarrow> \<not> errors_is e ErrOrderNotFound"
        using pg_lawsD(5) [OF assms(1), unfolded exists_law_def, rule_format, OF ex] by (simp_all split: sum.splits)
      have "w' = z" using 2(2) upd Inr False ex by (auto split: sum.splits)
      moreover have "\<nexists>x. pg_abs table v i = Some x \<and> Status x = StatusPending" using law Inr False by auto
      ultimately show ?thesis
        using 2(2) upd Inr False ex law2 same fr pg_frame [OF t] upd_eff(1)
        by (cases b) (auto split: if_splits)
    qed
  qed
qed

lemma pg_cancel_law:
  assumes "pg_laws api table" and "pg_inv table w" and "pg_cancel api nows cutoff w = (r, w')"
  shows "pg_inv table w' \<and>
    (case r of
       Inr ids \<Rightarrow> swept (pg_abs table w) (timestamptz cutoff) (pg_abs table w') \<and> distinct ids \<and>
         set ids = {i. \<exists>x. pg_abs table w i = Some x \<and> stale (timestamptz cutoff) x}
     | Inl e \<Rightarrow> pg_abs table w' = pg_abs table w \<or> swept (pg_abs table w) (timestamptz cutoff) (pg_abs table w'))"
  using assms(1,3) unfolding pg_cancel_def
proof (cases rule: pool_table)
  case 1
  then show ?thesis using assms(2) pg_frame [OF 1(2)] by simp
next
  case (2 v)
  note fr = pg_frame [OF 2(1)]
  have iv: "pg_inv table v" using fr assms(2) by simp
  define c where "c = timestamptz cutoff"
  define p :: "row \<Rightarrow> bool" where "p = (\<lambda>x. rstatus x = StatusPending \<and> rcreated x < c)"
  have pstale: "p r \<longleftrightarrow> stale c x" if "row_order r = Some x" for r x
    using that by (auto simp: p_def stale_def row_order_def)
  obtain q u where upd: "UpdateStale api (nows []) StatusCanceled StatusPending c v = (q, u)" by force
  have law: "(table u = table v \<and> (\<forall>ids. q \<noteq> Inr (ids, None)) \<or> table u = updated (table v) p StatusCanceled (nows [])) \<and>
      (\<forall>ids. q = Inr (map Inr ids, None) \<longrightarrow> distinct ids \<and> set ids = {i. \<exists>x. table v i = Some x \<and> p x})"
    using pg_lawsD(6) [OF assms(1), unfolded update_stale_law_def Let_def, rule_format, OF upd] unfolding p_def by simp
  have eff: "pg_inv table u \<and> swept (pg_abs table v) c (pg_abs table u)"
    if t: "table u = updated (table v) p StatusCanceled (nows [])"
    using pg_abs_updated [OF iv t, of "stale c"] pstale unfolding swept_def sweep_def by (auto intro: exI [of _ "\<lambda>_. nows []"])
  have ids: "{i. \<exists>x. table v i = Some x \<and> p x} = {i. \<exists>x. pg_abs table v i = Some x \<and> stale c x}"
    using iv pstale unfolding pg_inv_def pg_abs_def by (fastforce simp: bind_eq_Some_conv)
  have w': "u = w'" using 2(2) upd unfolding c_def by (auto split: sum.splits)
  have ok: "q = Inr (map Inr ids, None)" if "r = Inr ids" for ids
  proof -
    from that 2(2) upd obtain rows where q: "q = Inr (rows, None)"
      and "scan_all ''postgres store: cancel stale scan'' (\<lambda>r. r) rows [] = Inr ids"
      unfolding c_def by (auto simp: drain_Inr split: sum.splits)
    from scan_all_Inr [OF this(2)] have "rows = map Inr ids" by simp
    with q show ?thesis by simp
  qed
  have "pg_inv table u \<and> (pg_abs table u = pg_abs table v \<or> swept (pg_abs table v) c (pg_abs table u))"
    using law eff iv pg_frame [of table u v] by blast
  moreover have "swept (pg_abs table v) c (pg_abs table u)" if "r = Inr xs" for xs
    using law eff ok [OF that] by blast
  ultimately show ?thesis
    using fr law ok ids w' unfolding c_def [symmetric] by (cases r) auto
qed

text \<open>
  The contract holds for orders whose items are UTF-8 with int32 quantities and for cutoffs of
  whole microseconds; a store that refuses the others is the device that states this.
\<close>

definition guard_store :: "'s Store \<Rightarrow> 's Store" where
  "guard_store st = st\<lparr>
     Create := (\<lambda>now c its s. if list_all wf_item its then Create st now c its s else (Inl (ErrNew ''items''), s)),
     CancelStalePending := (\<lambda>nows cutoff s.
       if timestamptz cutoff = cutoff then CancelStalePending st nows cutoff s else (Inl (ErrNew ''cutoff''), s))\<rparr>"

lemma guard_simps [simp]:
  "Create (guard_store st) now c its s = (if list_all wf_item its then Create st now c its s else (Inl (ErrNew ''items''), s))"
  "Get (guard_store st) = Get st" "List (guard_store st) = List st" "ConfirmPending (guard_store st) = ConfirmPending st"
  "CancelStalePending (guard_store st) nows cutoff s =
     (if timestamptz cutoff = cutoff then CancelStalePending st nows cutoff s else (Inl (ErrNew ''cutoff''), s))"
  by (simp_all add: guard_store_def)

lemma pg_repo:
  assumes "pg_laws api table"
  shows "order_repo (guard_store (NewPostgresStore api)) (pg_abs table) (pg_inv table) (\<lambda>n w. True)"
proof (unfold_locales, goal_cases)
  case (2 s n now c its r t)
  then show ?case using pg_create_law [OF assms 2(1), of its now c r t] by (auto split: if_splits)
next
  case (3 s i q t n)
  then show ?case using pg_get_law [OF assms 3(1), of i q t] by simp
next
  case (4 s l t n)
  then show ?case using pg_list_law [OF assms 4(1), of l t] by (simp split: sum.splits)
next
  case (5 s now i b t n)
  then show ?case using pg_confirm_law [OF assms 5(1), of now i b t] by simp
next
  case (6 s nows cutoff k t n)
  show ?case
  proof (cases "timestamptz cutoff = cutoff")
    case True
    then have "pg_cancel api nows cutoff s = (k, t)" using 6(2) by simp
    from pg_cancel_law [OF assms 6(1) this] show ?thesis unfolding True by simp
  next
    case False
    then show ?thesis using 6 by auto
  qed
qed simp

text \<open>The calls as the database gets them: a cutoff in whole microseconds.\<close>

fun sent_call :: "call \<Rightarrow> call" where
  "sent_call (CCancel nows cutoff) = CCancel nows (timestamptz cutoff)"
| "sent_call c = c"

fun wf_call :: "call \<Rightarrow> bool" where
  "wf_call (CCreate now c its) = list_all wf_item its"
| "wf_call c = True"

lemma timestamptz_idem [simp]: "timestamptz (timestamptz t) = timestamptz t"
  by (simp add: timestamptz_def)

lemma exec_sent: "wf_call c \<Longrightarrow> exec (NewPostgresStore api) c w = exec (guard_store (NewPostgresStore api)) (sent_call c) w"
  by (cases c) (simp_all add: pg_cancel_def)

lemma run_sent:
  "list_all wf_call cs \<Longrightarrow>
   run_calls (NewPostgresStore api) cs w = run_calls (guard_store (NewPostgresStore api)) (map sent_call cs) w"
  by (induction cs arbitrary: w) (simp_all add: exec_sent split: prod.split)


section \<open>Properties\<close>

text \<open>The PostgreSQL store keeps the Store contract. Take any sequence of calls, with a database that
  obeys the laws of SQL but may be unreachable or lose its answer after a commit at any point:
  an order is reported as settled at most once, and its row then has the reported status; no
  order is ever lost, and customer, items and creation time never change, nor anything else of
  an order that is settled.
\<close>
theorem postgres_keeps_contract:
  assumes "pg_laws api table" and "pg_inv table w" and "list_all wf_call cs"
    and "run_calls (NewPostgresStore api) cs w = (es, w')"
  shows "distinct (map fst es) \<and>
    (\<forall>i k. (i, k) \<in> set es \<longrightarrow> k \<noteq> StatusPending \<and> (\<exists>y. pg_abs table w' i = Some y \<and> Status y = k)) \<and>
    (\<forall>i x. pg_abs table w i = Some x \<longrightarrow>
       (\<exists>y. pg_abs table w' i = Some y \<and> CustomerID y = CustomerID x \<and> Items y = Items x \<and> CreatedAt y = CreatedAt x \<and>
          (Status x \<noteq> StatusPending \<longrightarrow> y = x))) \<and>
    (\<forall>i r. table w' i = Some r \<longrightarrow> pg_abs table w' i \<noteq> None)"
proof -
  have run: "run_calls (guard_store (NewPostgresStore api)) (map sent_call cs) w = (es, w')"
    using assms(4) run_sent [OF assms(3), of api w] by simp
  note eff = order_repo.run_effect [OF pg_repo [OF assms(1)] assms(2) _ run]
  have "pg_abs table w' i \<noteq> None" if "table w' i = Some r" for i r
    using eff that by (auto simp: pg_inv_def pg_abs_def)
  then show ?thesis using eff unfolding evolves_def by fastforce
qed

text \<open>A table as a list of rows with a sequence, for one concrete run.\<close>

definition list_pg :: "(row list \<times> nat) pg_api" where
  "list_pg =
     \<lparr>Pool = (\<lambda>w. (True, w)),
      ExecDDL = (\<lambda>w. (Inr (), w)),
      Insert = (\<lambda>now c j st (rs, n).
        let i = ''ord_'' @ show_nat (Suc n)
        in if i \<in> rid ` set rs then (Inl (ErrNew ''duplicate key''), rs, n)
           else (Inr (i, now, now), rs @ [new_row i c j st now], Suc n)),
      SelectOne = (\<lambda>i (rs, n). (case find (\<lambda>r. rid r = i) rs of None \<Rightarrow> Inl ErrNoRows | Some r \<Rightarrow> Inr r, rs, n)),
      SelectAll = (\<lambda>(rs, n).
        (if distinct (map rid rs) then Inr (map Inr (sort_key rcreated rs), None) else Inl (ErrNew ''''), rs, n)),
      UpdateOne = (\<lambda>now st i old (rs, n).
        if distinct (map rid rs)
        then (Inr (int (length (filter (\<lambda>r. rid r = i \<and> rstatus r = old) rs))),
              map (\<lambda>r. if rid r = i \<and> rstatus r = old then r\<lparr>rstatus := st, rupdated := now\<rparr> else r) rs, n)
        else (Inl (ErrNew ''''), rs, n)),
      SelectExists = (\<lambda>i (rs, n). (Inr (i \<in> rid ` set rs), rs, n)),
      UpdateStale = (\<lambda>now st old cutoff (rs, n).
        if distinct (map rid rs)
        then (Inr (map (\<lambda>r. Inr (rid r)) (filter (\<lambda>r. rstatus r = old \<and> rcreated r < cutoff) rs), None),
              map (\<lambda>r. if rstatus r = old \<and> rcreated r < cutoff then r\<lparr>rstatus := st, rupdated := now\<rparr> else r) rs, n)
        else (Inl (ErrNew ''''), rs, n))\<rparr>"

definition list_table :: "row list \<times> nat \<Rightarrow> string \<Rightarrow> row option" where
  "list_table w i = find (\<lambda>r. rid r = i) (fst w)"

lemma find_None: "find (\<lambda>r. rid r = i) rs = None \<longleftrightarrow> i \<notin> rid ` set rs"
  by (auto simp: find_None_iff)

lemma find_append: "find p (xs @ ys) = (case find p xs of None \<Rightarrow> find p ys | Some x \<Rightarrow> Some x)"
  by (induction xs) auto

lemma find_updated:
  "find (\<lambda>r. rid r = i) (map (\<lambda>r. if p r then r\<lparr>rstatus := st, rupdated := now\<rparr> else r) rs) =
   map_option (\<lambda>r. if p r then r\<lparr>rstatus := st, rupdated := now\<rparr> else r) (find (\<lambda>r. rid r = i) rs)"
  by (induction rs) auto

lemma find_distinct: "distinct (map rid rs) \<Longrightarrow> find (\<lambda>r. rid r = i) rs = Some x \<longleftrightarrow> x \<in> set rs \<and> rid x = i"
  by (induction rs) (auto simp: image_iff)

lemma ran_find: "distinct (map rid rs) \<Longrightarrow> ran (\<lambda>i. find (\<lambda>r. rid r = i) rs) = set rs"
  by (auto simp: ran_def find_distinct)

lemma ran_find_ids: "(\<exists>x \<in> ran (\<lambda>i. find (\<lambda>r. rid r = i) rs). rid x = i) \<longleftrightarrow> i \<in> rid ` set rs"
proof -
  have "(\<exists>x \<in> ran (\<lambda>i. find (\<lambda>r. rid r = i) rs). rid x = i) \<longleftrightarrow> find (\<lambda>r. rid r = i) rs \<noteq> None"
    by (auto simp: ran_def find_Some_iff)
  then show ?thesis by (simp add: find_None)
qed

lemma map_Inr_inject: "map Inr xs = map Inr ys \<longleftrightarrow> xs = ys"
  by (simp add: inj_map_eq_map)

lemma list_inserted:
  assumes "i \<notin> rid ` set rs"
  shows "inserted (list_table (rs, n)) i c j st now (list_table (rs @ [new_row i c j st now], m))"
proof -
  have new: "find (\<lambda>r. rid r = i) rs = None" using assms by (simp add: find_None)
  then have "list_table (rs @ [new_row i c j st now], m) = (list_table (rs, n))(i \<mapsto> new_row i c j st now)"
    by (auto simp: list_table_def fun_eq_iff find_append new_row_def split: option.splits)
  moreover have "list_table (rs, n) i = None" using new by (simp add: list_table_def)
  ultimately show ?thesis unfolding inserted_def by (intro conjI exI [of _ j]) simp_all
qed

lemma list_pg_laws: "pg_laws list_pg list_table"
proof -
  have "insert_law list_pg list_table"
    by (auto simp: insert_law_def list_pg_def Let_def list_inserted simp del: append_Cons split: if_splits)
  moreover have "select_law list_pg list_table"
    by (auto simp: select_law_def list_pg_def list_table_def ErrNoRows_def ErrOrderNotFound_def split: option.splits)
  moreover have "select_all_law list_pg list_table"
  proof -
    have "rows = sort_key rcreated rs" if "map Inr (sort_key rcreated rs) = map (Inr :: row \<Rightarrow> row res) rows" for rows rs
      using that by (simp add: map_Inr_inject)
    then show ?thesis
      by (auto simp: select_all_law_def list_pg_def list_table_def [abs_def] ran_find distinct_map split: if_splits)
  qed
  moreover have "update_law list_pg list_table"
    by (auto simp: update_law_def list_pg_def list_table_def [abs_def] updated_def find_updated ran_find Let_def ErrOrderNotFound_def
        fun_eq_iff filter_empty_conv split: if_splits)
  moreover have "exists_law list_pg list_table"
    by (auto simp: exists_law_def list_pg_def list_table_def [abs_def] ran_find_ids)
  moreover have "update_stale_law list_pg list_table"
  proof -
    have ids: "ids = map rid (filter p rs)" if "map (\<lambda>r. Inr (rid r)) (filter p rs) = map (Inr :: string \<Rightarrow> string res) ids" for ids p rs
    proof -
      have "map (Inr :: string \<Rightarrow> string res) (map rid (filter p rs)) = map Inr ids" using that by (simp add: comp_def)
      then show ?thesis by (simp only: map_Inr_inject)
    qed
    show ?thesis
      by (auto simp: update_stale_law_def list_pg_def list_table_def [abs_def] updated_def find_updated Let_def fun_eq_iff
          find_distinct distinct_map_filter dest!: ids split: if_splits)
  qed
  moreover have "\<forall>w. list_table (snd (Pool list_pg w)) = list_table w" by (simp add: list_pg_def)
  ultimately show ?thesis by (simp add: pg_laws_def)
qed

theorem postgres_keeps_contract_witness:
  "\<exists>w y. run_calls (NewPostgresStore list_pg)
      [CCreate 5000 ''ann'' [\<lparr>SKU = ''pen'', Quantity = 2\<rparr>], CConfirm 9000 ''ord_1'', CCancel (\<lambda>_. 20000) 10000] ([], 0)
      = ([(''ord_1'', StatusConfirmed)], w) \<and>
    pg_abs list_table w ''ord_1'' = Some y \<and> Status y = StatusConfirmed"
proof -
  let ?cs = "[CCreate 5000 ''ann'' [\<lparr>SKU = ''pen'', Quantity = 2\<rparr>], CConfirm 9000 ''ord_1'', CCancel (\<lambda>_. 20000) 10000]"
  have i: "''ord_'' @ show_nat (Suc 0) = ''ord_1''" by code_simp
  then have i': "show_nat (Suc 0) = ''1''" by simp
  obtain w where run: "run_calls (NewPostgresStore list_pg) ?cs ([], 0) = ([(''ord_1'', StatusConfirmed)], w)"
    by (simp add: pg_create_def pg_confirm_def pg_cancel_def with_db_def list_pg_def i' new_row_def drain_def Let_def)
  have inv: "pg_inv list_table ([], 0)" by (simp add: pg_inv_def list_table_def)
  have "valid_utf8 ''pen''" by code_simp
  then have wf: "list_all wf_call ?cs" by (simp add: wf_item_def)
  from postgres_keeps_contract [OF list_pg_laws inv wf run]
  have "\<exists>y. pg_abs list_table w ''ord_1'' = Some y \<and> Status y = StatusConfirmed" by auto
  with run show ?thesis by blast
qed

end
