(* ===== verification/Templates.thy ===== *)
theory Templates
  imports Prelude
begin

text \<open>
  The three templates of the dashboard (\<^verbatim>\<open>ordersPanelTmpl\<close>, \<^verbatim>\<open>statsTmpl\<close>, \<^verbatim>\<open>healthTmpl\<close> in
  \<^verbatim>\<open>example/orders-service/dashboard.go\<close>) as functions of their views. \<^verbatim>\<open>html/template\<close> escapes every
  value that it puts into text or into a quoted attribute.
\<close>


section \<open>Escaping\<close>

definition nl :: string where "nl = [CHR 0x0A]"

definition html_char :: "char \<Rightarrow> string" where
  "html_char c =
     (if c = CHR 0x00 then [CHR 0xEF, CHR 0xBF, CHR 0xBD]
      else if c = CHR 0x22 then ''&#34;''
      else if c = CHR ''&'' then ''&amp;''
      else if c = CHR 0x27 then ''&#39;''
      else if c = CHR ''+'' then ''&#43;''
      else if c = CHR ''<'' then ''&lt;''
      else if c = CHR ''>'' then ''&gt;''
      else [c])"

definition html_escape :: "string \<Rightarrow> string" where
  "html_escape s = concat (map html_char s)"


section \<open>Views\<close>

record dashboardOrder =
  dID :: string
  dCustomer :: string
  dStatus :: string
  dQty :: int
  dCreatedAt :: string
  dCreatedTS :: string

record ordersPanelView =
  Source :: string
  Rows :: "dashboardOrder list"
  PanelError :: string

record statsView =
  Total :: int
  Pending :: int
  ConfirmedN :: int
  CanceledN :: int
  StatsError :: string

record healthView =
  Live :: string
  LiveOK :: bool
  Ready :: string
  ReadyOK :: bool

definition sourceREST :: string where "sourceREST = ''rest''"
definition sourceGRPC :: string where "sourceGRPC = ''grpc''"


section \<open>The pages\<close>

definition pressed :: "bool \<Rightarrow> string" where
  "pressed b = (if b then ''true'' else ''false'')"

definition render_row :: "dashboardOrder \<Rightarrow> string" where
  \<open>render_row r =
     nl @ ''        <tr>'' @ nl @ ''          <td class="mono">'' @ html_escape (dID r) @ ''</td>'' @ nl @
     ''          <td class="mono">'' @ html_escape (dCustomer r) @ ''</td>'' @ nl @
     ''          <td><span class="badge badge-'' @ html_escape (dStatus r) @ ''"><span class="dot"></span>'' @
     html_escape (dStatus r) @ ''</span></td>'' @ nl @ ''          <td class="num">'' @ itoa (dQty r) @ ''</td>'' @ nl @
     ''          <td class="time" title="'' @ html_escape (dCreatedTS r) @ ''">'' @ html_escape (dCreatedAt r) @
     ''</td>'' @ nl @ ''        </tr>''\<close>

definition render_head :: "string \<Rightarrow> string" where
  \<open>render_head source =
     nl @ ''<input type="hidden" id="current-source" name="source" value="'' @ html_escape source @
     ''" hx-swap-oob="true">'' @ nl @ ''<div class="card-head">'' @ nl @ ''  <h2>Orders</h2>'' @ nl @
     ''  <div class="seg" role="group" aria-label="Data source">'' @ nl @ ''    <button type="button" aria-pressed="'' @
     pressed (source = sourceREST) @ ''"'' @ nl @
     ''            hx-get="/partials/orders" hx-target="#orders-panel" hx-swap="innerHTML">REST /orders</button>'' @
     nl @ ''    <button type="button" aria-pressed="'' @ pressed (source = sourceGRPC) @ ''"'' @ nl @
     ''            hx-get="/partials/grpc-orders" hx-target="#orders-panel" hx-swap="innerHTML">gRPC ListOrders</button>'' @
     nl @ ''  </div>'' @ nl @ ''  <div class="spacer"></div>'' @ nl @ ''  <span class="refresh">'' @
     (if source = sourceREST then ''<span class="refresh-dot"></span>every 2s'' else ''on demand'') @ ''</span>'' @ nl @
     ''</div>'' @ nl @ ''<div class="card-body">'' @ nl @ ''  '' @
     (if source = sourceREST
      then ''<p class="hint">Polled every 2s via <code>httpcli.Do[T]</code> against the REST API.</p>''
      else ''<p class="hint">Live <code>OrdersService/ListOrders</code> call over <code>grpc/client</code> &mdash; '' @
           ''the same Store as the REST view. Click the source button again to refresh.</p>'') @
     nl @ ''  ''\<close>

definition render_rows :: "dashboardOrder list \<Rightarrow> string" where
  \<open>render_rows rows =
     (if rows = [] then ''<p class="empty">No orders yet.</p>''
      else ''<div class="table-wrap">'' @ nl @ ''    <table>'' @ nl @
         ''      <thead><tr><th>ID</th><th>Customer</th><th>Status</th><th class="num">Qty</th><th>Created</th></tr></thead>'' @
         nl @ ''      <tbody>'' @ concat (map render_row rows) @ nl @ ''      </tbody>'' @ nl @ ''    </table>'' @ nl @
         ''  </div>'')\<close>

definition render_error :: "string \<Rightarrow> string" where
  \<open>render_error m = ''<p class="error">'' @ html_escape m @ ''</p>''\<close>

definition ordersPanelTmpl :: "ordersPanelView \<Rightarrow> string" where
  \<open>ordersPanelTmpl v =
     render_head (Source v) @
     (if PanelError v \<noteq> '''' then render_error (PanelError v)
      else render_rows (Rows v)) @
     nl @ ''</div>'' @ nl @
     (if Source v = sourceREST
      then ''<div hx-get="/partials/orders" hx-trigger="every 2s" hx-target="#orders-panel" hx-swap="innerHTML"></div>''
      else '''') @ nl\<close>

definition statsTmpl :: "statsView \<Rightarrow> string" where
  \<open>statsTmpl v =
     (if StatsError v \<noteq> '''' then render_error (StatsError v)
      else ''<div class="stat">'' @ nl @ ''  <span class="k">Total orders</span>'' @ nl @ ''  <span class="v">'' @
         itoa (Total v) @ ''</span>'' @ nl @ ''  <span class="d">in store</span>'' @ nl @ ''</div>'' @ nl @
         ''<div class="stat">'' @ nl @ ''  <span class="k"><span class="dot dot-pending"></span>Pending</span>'' @ nl @
         ''  <span class="v">'' @ itoa (Pending v) @ ''</span>'' @ nl @
         ''  <span class="d">awaiting confirm on workerpool</span>'' @ nl @ ''</div>'' @ nl @ ''<div class="stat">'' @ nl @
         ''  <span class="k"><span class="dot dot-confirmed"></span>Confirmed</span>'' @ nl @ ''  <span class="v">'' @
         itoa (ConfirmedN v) @ ''</span>'' @ nl @ ''  <span class="d">confirmed asynchronously</span>'' @ nl @ ''</div>'' @
         nl @ ''<div class="stat">'' @ nl @ ''  <span class="k"><span class="dot dot-canceled"></span>Canceled</span>'' @
         nl @ ''  <span class="v">'' @ itoa (CanceledN v) @ ''</span>'' @ nl @
         ''  <span class="d">stale, swept by cleanup</span>'' @ nl @ ''</div>'')\<close>

definition healthTmpl :: "healthView \<Rightarrow> string" where
  \<open>healthTmpl v =
     nl @ ''<div class="health-list">'' @ nl @ ''  <div class="health-row">'' @ nl @
     ''    <span class="endpoint">GET /healthz</span>'' @ nl @ ''    <span class="spacer"></span>'' @ nl @
     ''    <span class="state '' @ (if LiveOK v then ''state-ok'' else ''state-err'') @
     ''"><span class="dot"></span><span class="txt">'' @ html_escape (Live v) @ ''</span></span>'' @ nl @ ''  </div>'' @
     nl @ ''  <div class="health-row">'' @ nl @ ''    <span class="endpoint">GET /readyz</span>'' @ nl @
     ''    <span class="spacer"></span>'' @ nl @ ''    <span class="state '' @
     (if ReadyOK v then ''state-ok'' else ''state-err'') @ ''"><span class="dot"></span><span class="txt">'' @
     html_escape (Ready v) @ ''</span></span>'' @ nl @ ''  </div>'' @ nl @ ''</div>'' @ nl @
     ''<span id="health-pills" hx-swap-oob="innerHTML">'' @ nl @ ''  <span class="pill"><span class="pip '' @
     (if LiveOK v then ''pip-ok live'' else ''pip-err'') @ ''"></span>live <b>'' @
     (if LiveOK v then html_escape (Live v) else ''down'') @ ''</b></span>'' @ nl @
     ''  <span class="pill"><span class="pip '' @ (if ReadyOK v then ''pip-ok'' else ''pip-err'') @
     ''"></span>ready <b>'' @ (if ReadyOK v then html_escape (Ready v) else ''down'') @ ''</b></span>'' @ nl @
     ''</span>'' @ nl\<close>


section \<open>No markup from data\<close>

text \<open>The characters that open or close a tag or an attribute value.\<close>

definition markup :: "string \<Rightarrow> string" where
  "markup s = filter (\<lambda>c. c \<in> {CHR ''<'', CHR ''>'', CHR 0x22, CHR 0x27}) s"

lemma markup_append [simp]: "markup (s @ t) = markup s @ markup t"
  by (simp add: markup_def)

lemma markup_concat: "markup (concat ss) = concat (map markup ss)"
  by (induction ss) (simp_all add: markup_def)

lemma markup_html_char: "markup (html_char c) = []"
  by (auto simp: markup_def html_char_def)

lemma markup_escape [simp]: "markup (html_escape s) = []"
  by (simp add: html_escape_def markup_concat comp_def markup_html_char)

lemma markup_digits [simp]: "markup (show_nat n) = []"
proof (induction n rule: show_nat.induct)
  case (1 n)
  have d: "markup [char_of (48 + d)] = []" if "d < 10" for d :: nat
  proof -
    have "(of_char (char_of (48 + d) :: char) :: nat) = 48 + d" using that by (rule of_char_digit)
    then have "char_of (48 + d) \<notin> {CHR ''<'', CHR ''>'', CHR 0x22, CHR 0x27 :: char}"
      using that by (auto dest: arg_cong [where f = "of_char :: char \<Rightarrow> nat"])
    then show ?thesis by (simp add: markup_def)
  qed
  show ?case using 1 d [of n] d [of "n mod 10"] by (subst show_nat.simps) simp
qed

lemma markup_itoa [simp]: "markup (itoa i) = []"
proof -
  have "markup (CHR ''-'' # s) = markup s" for s by (simp add: markup_def)
  then show ?thesis by (simp add: itoa_def)
qed

text \<open>The same view with nothing in it.\<close>

definition blank_row :: dashboardOrder where
  "blank_row = \<lparr>dID = '''', dCustomer = '''', dStatus = '''', dQty = 0, dCreatedAt = '''', dCreatedTS = ''''\<rparr>"

definition blank_panel :: "ordersPanelView \<Rightarrow> ordersPanelView" where
  "blank_panel v = \<lparr>Source = Source v, Rows = map (\<lambda>_. blank_row) (Rows v),
     PanelError = (if PanelError v = '''' then '''' else ''x'')\<rparr>"

lemma markup_row: "markup (render_row r) = markup (render_row blank_row)"
  unfolding render_row_def markup_append markup_escape markup_itoa ..

lemma markup_rows: "markup (render_rows rows) = markup (render_rows (map (\<lambda>_. blank_row) rows))"
proof -
  have "map (markup \<circ> render_row) rows = map (markup \<circ> (render_row \<circ> (\<lambda>_. blank_row))) rows"
    using markup_row by (intro map_cong) (simp_all add: comp_def)
  then have "markup (concat (map render_row rows)) = markup (concat (map render_row (map (\<lambda>_. blank_row) rows)))"
    unfolding markup_concat map_map by (rule arg_cong)
  then show ?thesis unfolding render_rows_def by (simp only: markup_append map_is_Nil_conv split: if_split) simp
qed

lemma markup_error: "markup (render_error m) = markup (render_error n)"
  unfolding render_error_def markup_append markup_escape ..

text \<open>C40.
  No order, customer or error message can inject HTML into the dashboard: the tags and attribute
  delimiters of each page are those of the template with blank data. For the orders panel they
  depend only on the source, the number of rows and on whether there is an error; for the
  statistics on the latter; for the health card on nothing.
\<close>
theorem dashboard_no_injection:
  "markup (ordersPanelTmpl v) = markup (ordersPanelTmpl (blank_panel v)) \<and>
   markup (statsTmpl w) = markup (statsTmpl
     \<lparr>Total = 0, Pending = 0, ConfirmedN = 0, CanceledN = 0, StatsError = (if StatsError w = '''' then '''' else ''x'')\<rparr>) \<and>
   markup (healthTmpl h) = markup (healthTmpl \<lparr>Live = '''', LiveOK = False, Ready = '''', ReadyOK = False\<rparr>)"
proof (intro conjI)
  show "markup (ordersPanelTmpl v) = markup (ordersPanelTmpl (blank_panel v))"
    using markup_rows [of "Rows v"] markup_error [of "PanelError v" "''x''"]
    unfolding ordersPanelTmpl_def blank_panel_def markup_append by (cases "PanelError v = ''''") simp_all
next
  have s: "markup ''state-ok'' = []" "markup ''state-err'' = []" "markup ''pip-ok live'' = []" "markup ''pip-ok'' = []"
    "markup ''pip-err'' = []" "markup ''down'' = []" "markup '''' = []"
    by (simp_all add: markup_def)
  then have i: "markup (if b then x else y) = []" if "markup x = []" and "markup y = []" for b x y
    using that by simp
  show "markup (healthTmpl h) = markup (healthTmpl \<lparr>Live = '''', LiveOK = False, Ready = '''', ReadyOK = False\<rparr>)"
    unfolding healthTmpl_def markup_append markup_escape
    by (simp only: i s markup_escape)
  show "markup (statsTmpl w) = markup (statsTmpl
     \<lparr>Total = 0, Pending = 0, ConfirmedN = 0, CanceledN = 0, StatsError = (if StatsError w = '''' then '''' else ''x'')\<rparr>)"
    using markup_error [of "StatsError w" "''x''"] unfolding statsTmpl_def
    by (cases "StatsError w = ''''") (simp_all only: markup_append markup_itoa statsView.simps if_True if_False simp_thms list.simps refl)
qed

end
