(* ===== verification/Dashboard.thy ===== *)
theory Dashboard
  imports Templates HttpClient GrpcClient OrderApi
begin

text \<open>
  The dashboard, \<^verbatim>\<open>example/orders-service/dashboard.go\<close>: a client of the REST API, of the gRPC
  API and of the health server. A handler returns the page that it writes. The
  HTTP library, the RPC over a connection, \<^verbatim>\<open>FormValue\<close> and the parts of \<^verbatim>\<open>strings.ToUpper\<close> and
  \<^verbatim>\<open>strings.ToLower\<close> that need the tables of Unicode are parameters.
\<close>


section \<open>Texts\<close>

definition ascii :: "string \<Rightarrow> bool" where
  "ascii s = list_all (\<lambda>c. in_range c 0 0x7F) s"

record unicode =
  uniUpper :: "string \<Rightarrow> string"
  uniLower :: "string \<Rightarrow> string"

definition ToUpper :: "unicode \<Rightarrow> string \<Rightarrow> string" where
  "ToUpper u s = (if ascii s then map upper s else uniUpper u s)"

definition ToLower :: "unicode \<Rightarrow> string \<Rightarrow> string" where
  "ToLower u s = (if ascii s then map lower s else uniLower u s)"

definition TrimPrefix :: "string \<Rightarrow> string \<Rightarrow> string" where
  "TrimPrefix s p = (if take (length p) s = p then drop (length p) s else s)"

definition normalizeStatus :: "unicode \<Rightarrow> string \<Rightarrow> string" where
  "normalizeStatus u s = ToLower u (TrimPrefix (ToUpper u s) ''ORDER_STATUS_'')"

text \<open>
  \<^verbatim>\<open>time.Since\<close>: the difference, saturated at the ends of int64. The conversions of a
  Duration to float64 seconds, minutes and hours and back to int are exact divisions for all
  ages below 4096 hours; above, the float64 may be rounded up to a full hour that is less than
  a microsecond away, which is left out.
\<close>

definition Since :: "int \<Rightarrow> int \<Rightarrow> duration" where
  "Since now t = max (- (2 ^ 63)) (min (2 ^ 63 - 1) (now - t))"

definition relTime :: "int \<Rightarrow> int \<Rightarrow> string" where
  "relTime now t =
     (let d = Since now t in
      if d < Second then ''just now''
      else if d < 60 * Second then itoa (d div Second) @ ''s ago''
      else if d < 3600 * Second then itoa (d div (60 * Second)) @ ''m ago''
      else itoa (d div (3600 * Second)) @ ''h ago'')"


section \<open>Orders over REST\<close>

definition renderOrdersPanel :: "string \<Rightarrow> dashboardOrder list \<Rightarrow> string \<Rightarrow> string" where
  "renderOrdersPanel source rows errMsg = ordersPanelTmpl \<lparr>Source = source, Rows = rows, PanelError = errMsg\<rparr>"

text \<open>
  Do decodes into a slice of orderResponse; \<open>partial\<close> is what the decoder leaves behind when it
  fails half way.
\<close>

definition dec_orders :: "(string \<Rightarrow> orderResponse list) \<Rightarrow> string \<Rightarrow> orderResponse list \<Rightarrow> orderResponse list \<times> err option" where
  "dec_orders partial b zero =
     (case Option.bind (parse_json b) (dec_slice dec_response) of
        Some xs \<Rightarrow> (xs, None)
      | None \<Rightarrow> (partial b, Some json_error))"

definition fetchOrders ::
  "('w, 'u) http_lib \<Rightarrow> (string \<Rightarrow> orderResponse list) \<Rightarrow> ('w, 'u) HttpClient.client \<Rightarrow> 'w \<Rightarrow>
   (orderResponse list \<times> err option) \<times> 'w"
where
  "fetchOrders lib partial c w = Do lib (dec_orders partial) [] c ''GET'' ''/orders'' [] w"

definition count_status :: "unicode \<Rightarrow> orderResponse \<Rightarrow> statsView \<Rightarrow> statsView" where
  "count_status u x v =
     (let st = normalizeStatus u (respStatus x) in
      if st = ''pending'' then v\<lparr>Pending := Pending v + 1\<rparr>
      else if st = ''confirmed'' then v\<lparr>ConfirmedN := ConfirmedN v + 1\<rparr>
      else if st = ''canceled'' then v\<lparr>CanceledN := CanceledN v + 1\<rparr>
      else v)"

definition handleStatsPartial ::
  "('w, 'u) http_lib \<Rightarrow> (string \<Rightarrow> orderResponse list) \<Rightarrow> unicode \<Rightarrow> ('w, 'u) HttpClient.client \<Rightarrow> 'w \<Rightarrow> string \<times> 'w"
where
  "handleStatsPartial lib partial u c w =
     (case fetchOrders lib partial c w of
        ((xs, e), w1) \<Rightarrow>
          (statsTmpl (fold (count_status u) xs
             \<lparr>Total = int (length xs), Pending = 0, ConfirmedN = 0, CanceledN = 0,
              StatsError = (case e of Some e \<Rightarrow> ''REST API error: '' @ err_msg e | None \<Rightarrow> '''')\<rparr>), w1))"

definition add_qty :: "int \<Rightarrow> int \<Rightarrow> int" where
  "add_qty q acc = wrap64 (acc + q)"

definition rest_row :: "unicode \<Rightarrow> int \<Rightarrow> orderResponse \<Rightarrow> dashboardOrder" where
  "rest_row u now x =
     \<lparr>dID = respID x, dCustomer = respCustomer x, dStatus = normalizeStatus u (respStatus x),
      dQty = fold add_qty (map Quantity (respItems x)) 0,
      dCreatedAt = (case parse_time (respCreated x) of Some t \<Rightarrow> relTime now t | None \<Rightarrow> respCreated x),
      dCreatedTS = respCreated x\<rparr>"

definition handleOrdersPartial ::
  "('w, 'u) http_lib \<Rightarrow> (string \<Rightarrow> orderResponse list) \<Rightarrow> unicode \<Rightarrow> int \<Rightarrow> ('w, 'u) HttpClient.client \<Rightarrow> 'w \<Rightarrow>
   string \<times> 'w"
where
  "handleOrdersPartial lib partial u now c w =
     (case fetchOrders lib partial c w of
        ((xs, Some e), w1) \<Rightarrow> (renderOrdersPanel sourceREST [] (''REST API error: '' @ err_msg e), w1)
      | ((xs, None), w1) \<Rightarrow> (renderOrdersPanel sourceREST (map (rest_row u now) xs) '''', w1))"


section \<open>Orders over gRPC\<close>

fun status_String :: "OrderStatus \<Rightarrow> string" where
  "status_String STATUS_UNSPECIFIED = ''ORDER_STATUS_UNSPECIFIED''"
| "status_String STATUS_PENDING = ''ORDER_STATUS_PENDING''"
| "status_String STATUS_CONFIRMED = ''ORDER_STATUS_CONFIRMED''"
| "status_String STATUS_CANCELED = ''ORDER_STATUS_CANCELED''"

definition grpc_row :: "(int \<Rightarrow> int) \<Rightarrow> unicode \<Rightarrow> int \<Rightarrow> ProtoOrder \<Rightarrow> dashboardOrder" where
  "grpc_row zone u now x =
     (let created = CreatedAtUnix x * ns_per_s in
      \<lparr>dID = Id x, dCustomer = CustomerId x, dStatus = normalizeStatus u (status_String (ProtoStatus x)),
       dQty = fold add_qty (map ItemQuantity (ProtoItems x)) 0,
       dCreatedAt = relTime now created,
       dCreatedTS = format_time False (zone created) created\<rparr>)"

definition not_connected :: string where
  "not_connected = ''gRPC client has not connected yet '' @ [CHR 0xE2, CHR 0x80, CHR 0x94] @ '' try again in a moment''"

definition handleGRPCOrdersPartial ::
  "('c \<Rightarrow> ('w, ProtoOrder list) op) \<Rightarrow> (int \<Rightarrow> int) \<Rightarrow> unicode \<Rightarrow> int \<Rightarrow> 'c GrpcClient.client \<Rightarrow> 'w \<Rightarrow>
   string \<times> 'w"
where
  "handleGRPCOrdersPartial rpc zone u now gc w =
     (case Conn gc of
        None \<Rightarrow> (renderOrdersPanel sourceGRPC [] not_connected, w)
      | Some cn \<Rightarrow>
          (case rpc cn w of
             (Inl e, w1) \<Rightarrow> (renderOrdersPanel sourceGRPC [] (''gRPC error: '' @ err_msg e), w1)
           | (Inr xs, w1) \<Rightarrow> (renderOrdersPanel sourceGRPC (map (grpc_row zone u now) xs) '''', w1)))"


section \<open>Creating an order\<close>

text \<open>\<open>form\<close> is None when ParseForm fails. The clock is read after the POST.\<close>

datatype dash_response = Page string | HttpError string int

definition form_quantity :: "string \<Rightarrow> int" where
  "form_quantity s =
     (case parse_int 32 s of
        Some q \<Rightarrow> if q < 1 \<or> q > 1000000 then 1 else q
      | None \<Rightarrow> 1)"

definition form_request :: "(string \<Rightarrow> string) \<Rightarrow> createOrderRequest" where
  "form_request form =
     \<lparr>reqCustomer = form ''customer_id'',
      reqItems = [\<lparr>SKU = form ''sku'', Quantity = form_quantity (form ''quantity'')\<rparr>]\<rparr>"

definition dec_created :: "(string \<Rightarrow> orderResponse) \<Rightarrow> string \<Rightarrow> orderResponse \<Rightarrow> orderResponse \<times> err option" where
  "dec_created partial b zero =
     (case read_response b of Some x \<Rightarrow> (x, None) | None \<Rightarrow> (partial b, Some json_error))"

definition post_order ::
  "('w, 'u) http_lib \<Rightarrow> (string \<Rightarrow> orderResponse) \<Rightarrow> ('w, 'u) HttpClient.client \<Rightarrow> createOrderRequest \<Rightarrow> 'w \<Rightarrow>
   (orderResponse \<times> err option) \<times> 'w"
where
  "post_order lib partial c req w =
     (let b = print_json (request_json req)
      in Do lib (dec_created partial) zero_response c ''POST'' ''/orders'' [WithBody b (Some (int (length b))) ''application/json''] w)"

definition handleCreatePartial ::
  "('w, 'u) http_lib \<Rightarrow> (string \<Rightarrow> orderResponse list) \<Rightarrow> (string \<Rightarrow> orderResponse) \<Rightarrow> ('c \<Rightarrow> ('w, ProtoOrder list) op) \<Rightarrow>
   (int \<Rightarrow> int) \<Rightarrow> unicode \<Rightarrow> int \<Rightarrow> ('w, 'u) HttpClient.client \<Rightarrow> 'c GrpcClient.client \<Rightarrow> (string \<Rightarrow> string) option \<Rightarrow> 'w \<Rightarrow>
   dash_response \<times> 'w"
where
  "handleCreatePartial lib partial partial1 rpc zone u now c gc form w =
     (case form of
        None \<Rightarrow> (HttpError ''invalid form'' 400, w)
      | Some f \<Rightarrow>
          (let w1 = snd (post_order lib partial1 c (form_request f) w)
           in if f ''source'' = sourceGRPC
              then apfst Page (handleGRPCOrdersPartial rpc zone u now gc w1)
              else apfst Page (handleOrdersPartial lib partial u now c w1)))"


section \<open>Health\<close>

record healthStatus =
  hStatus :: string

definition dec_health :: "(string \<Rightarrow> healthStatus) \<Rightarrow> string \<Rightarrow> healthStatus \<Rightarrow> healthStatus \<times> err option" where
  "dec_health partial b zero =
     (case Unmarshal (dec_struct
         (\<lambda>k v r. if same_key k ''status'' then map_option (\<lambda>s. r\<lparr>hStatus := s\<rparr>) (dec_string v (hStatus r)) else Some r)) b zero of
        Some h \<Rightarrow> (h, None)
      | None \<Rightarrow> (partial b, Some json_error))"

definition handleHealthPartial ::
  "('w, 'u) http_lib \<Rightarrow> (string \<Rightarrow> healthStatus) \<Rightarrow> ('w, 'u) HttpClient.client \<Rightarrow> 'w \<Rightarrow> string \<times> 'w"
where
  "handleHealthPartial lib partial c w =
     (case Do lib (dec_health partial) \<lparr>hStatus = ''''\<rparr> c ''GET'' ''/healthz'' [] w of
        ((live, le), w1) \<Rightarrow>
          (case Do lib (dec_health partial) \<lparr>hStatus = ''''\<rparr> c ''GET'' ''/readyz'' [] w1 of
             ((ready, re), w2) \<Rightarrow>
               (healthTmpl \<lparr>Live = (if le = None then hStatus live else ''unreachable''), LiveOK = (le = None),
                 Ready = (case re of None \<Rightarrow> hStatus ready | Some e \<Rightarrow> err_msg e), ReadyOK = (re = None)\<rparr>, w2)))"



section \<open>What a row should show\<close>

definition seconds :: "int \<Rightarrow> int" where
  "seconds t = t div ns_per_s * ns_per_s"

definition status_word :: "Status \<Rightarrow> string" where
  "status_word s = (if s = StatusPending then ''pending'' else if s = StatusConfirmed then ''confirmed'' else ''canceled'')"

definition order_row :: "(int \<Rightarrow> int) \<Rightarrow> int \<Rightarrow> Order \<Rightarrow> dashboardOrder" where
  "order_row zone now x =
     \<lparr>dID = ID x, dCustomer = CustomerID x, dStatus = status_word (Order.Status x),
      dQty = sum_list (map Quantity (Items x)), dCreatedAt = relTime now (seconds (CreatedAt x)),
      dCreatedTS = format_time False (zone (CreatedAt x)) (CreatedAt x)\<rparr>"

text \<open>
  An order that the service accepted: valid, in one of the three states, with text in UTF-8 and
  a creation time in years 0 to 9999 of a zone whose offset does not change within a second.
\<close>

definition showable :: "(int \<Rightarrow> int) \<Rightarrow> Order \<Rightarrow> bool" where
  "showable zone x \<longleftrightarrow> wf_order x \<and> snd (ValidateNewOrder (CustomerID x) (Items x)) \<and>
     Order.Status x \<in> {StatusPending, StatusConfirmed, StatusCanceled} \<and>
     printable (zone (CreatedAt x)) (CreatedAt x) \<and> zone (seconds (CreatedAt x)) = zone (CreatedAt x)"

lemma normalize_words [simp]:
  "normalizeStatus u StatusPending = ''pending''" "normalizeStatus u StatusConfirmed = ''confirmed''"
  "normalizeStatus u StatusCanceled = ''canceled''" "normalizeStatus u ''ORDER_STATUS_PENDING'' = ''pending''"
  "normalizeStatus u ''ORDER_STATUS_CONFIRMED'' = ''confirmed''" "normalizeStatus u ''ORDER_STATUS_CANCELED'' = ''canceled''"
  by (simp_all add: normalizeStatus_def ToUpper_def ToLower_def TrimPrefix_def ascii_def in_range_def upper_def lower_def
      StatusPending_def StatusConfirmed_def StatusCanceled_def char_of_def bit_0)

lemma total_quantity:
  assumes "\<forall>q \<in> set qs. 0 \<le> q \<and> q \<le> MaxItemQuantity" and "int (length qs) \<le> n" and "0 \<le> acc"
    and "acc + n * MaxItemQuantity < 2 ^ 63"
  shows "fold add_qty qs acc = acc + sum_list qs"
  using assms
proof (induction qs arbitrary: acc n)
  case (Cons q qs)
  have "0 \<le> (n - 1) * MaxItemQuantity" using Cons.prems by (simp add: MaxItemQuantity_def)
  then have "acc + q < 2 ^ 63" using Cons.prems by (simp add: MaxItemQuantity_def algebra_simps)
  then have "wrap64 (acc + q) = acc + q" using Cons.prems by (intro wrap64_id) (simp add: is_int64_def)
  then show ?case
    using Cons.prems Cons.IH [of "n - 1" "acc + q"] by (simp add: add_qty_def MaxItemQuantity_def algebra_simps)
qed simp

lemma valid_quantities:
  assumes "snd (ValidateNewOrder c its)"
  shows "fold add_qty (map Quantity its) 0 = sum_list (map Quantity its)"
  using assms total_quantity [of "map Quantity its" MaxItemsPerOrder 0]
  by (force simp: ValidateNewOrder_def validate_items_ok list_all_iff MaxItemQuantity_def MaxItemsPerOrder_def split: if_splits)

lemma format_seconds: "format_time False off (seconds t) = format_time False off t"
proof -
  have "(t div ns_per_s * ns_per_s + off * 60 * ns_per_s) div ns_per_s = (t + off * 60 * ns_per_s) div ns_per_s"
    by (simp add: ns_per_s_def)
  then show ?thesis by (simp add: format_time_def seconds_def Let_def)
qed

lemma rest_row_spec: "showable zone x \<Longrightarrow> rest_row u now (toResponse zone x) = order_row zone now x"
  by (auto simp: rest_row_def toResponse_def order_row_def showable_def status_word_def valid_quantities parse_format seconds_def)

lemma grpc_row_spec: "showable zone x \<Longrightarrow> grpc_row zone u now (toProto x) = order_row zone now x"
  by (auto simp: grpc_row_def toProto_def order_row_def showable_def status_word_def valid_quantities comp_def Let_def
      toProtoStatus_def seconds_def [symmetric] format_seconds)



section \<open>The dashboard in front of the service\<close>

text \<open>
  What the dashboard relies on outside this program: a request for /orders can be built, sending
  it over the client's transport hands it to the service and its answer back, and closing a body
  has no effect on the service. The world is the service's store and queue.
\<close>

definition rest_link ::
  "('s \<times> string pool, 'u) http_lib \<Rightarrow> ('s \<times> string pool, 'u) HttpClient.client \<Rightarrow> 's Store \<Rightarrow> (int \<Rightarrow> int) \<Rightarrow>
   int \<Rightarrow> submit_pick \<Rightarrow> ctx \<Rightarrow> bool"
where
  "rest_link lib c st zone at pick cx \<longleftrightarrow>
     (\<forall>meth \<in> {''GET'', ''POST''}. newRequest lib meth (joinPath lib (baseURL c) ''/orders'') =
        Inr \<lparr>HttpClient.request.Method = meth, URL = joinPath lib (baseURL c) ''/orders'', Header = Map.empty, Body = None, ContentLength = 0\<rparr>) \<and>
     (\<forall>req s p r t q. URL req = joinPath lib (baseURL c) ''/orders'' \<longrightarrow>
        api_serve st zone at pick cx (HttpClient.request.Method req) ''/orders'' (case Body req of None \<Rightarrow> '''' | Some b \<Rightarrow> b) s p = Some (r, t, q) \<longrightarrow>
        send lib (timeout c) (transport c) req (s, p) = (Inr \<lparr>HttpClient.response.StatusCode = fst r, payload = Inr (snd r)\<rparr>, (t, q))) \<and>
     (\<forall>r w. closeBody lib r w = w)"

lemma Mux_orders [simp]: "Mux ''GET'' ''/orders'' = RList" "Mux ''POST'' ''/orders'' = RCreate"
  by (simp_all add: Mux_def)

lemma fetch_link:
  assumes "rest_link lib c st zone at pick cx" and "List st s = (Inr xs, t)" and "list_all wf_order xs"
  shows "fetchOrders lib partial c (s, p) = ((map (toResponse zone) xs, None), (t, p))"
proof -
  define v where "v = JArr (map (\<lambda>x. response_json (toResponse zone x)) xs)"
  have wf: "wf_response (toResponse zone x)" if "x \<in> set xs" for x
    using that assms(3) by (auto simp: list_all_iff intro: toResponse_wf)
  then have "wf_json v" "depth v \<le> max_depth"
    by (auto simp: v_def list_all_iff response_json_wf response_json_depth fold_max_le max_depth_def)
  then have parse: "parse_json (print_json v @ [CHR 0x0A]) = Some v" by (rule parse_line)
  have "dec_elems dec_response (map response_json (map (toResponse zone) xs)) = Some (map (toResponse zone) xs)"
    using wf by (intro dec_elems_map dec_response_json) auto
  then have dec: "dec_slice dec_response v = Some (map (toResponse zone) xs)"
    by (simp add: v_def dec_slice_def comp_def)
  have "api_serve st zone at pick cx ''GET'' ''/orders'' b s p = Some ((200, print_json v @ [CHR 0x0A]), t, p)" for b
    by (simp add: api_serve_def handleList_def assms(2) served_JSON v_def)
  then show ?thesis
    using assms(1) by (simp add: fetchOrders_def Do_def rest_link_def dec_orders_def parse dec)
qed

lemma rows_spec:
  assumes "list_all (showable zone) xs"
  shows "list_all wf_order xs" "map (rest_row u now) (map (toResponse zone) xs) = map (order_row zone now) xs"
    "map (grpc_row zone u now) (map toProto xs) = map (order_row zone now) xs"
  using assms rest_row_spec grpc_row_spec by (simp_all add: list_all_iff showable_def)

lemma panel_link:
  assumes "rest_link lib c st zone at pick cx" and "List st s = (Inr xs, t)" and "list_all (showable zone) xs"
  shows "handleOrdersPartial lib partial u now c (s, p) = (renderOrdersPanel sourceREST (map (order_row zone now) xs) '''', (t, p))"
  using fetch_link [OF assms(1,2)] rows_spec [OF assms(3)] by (simp add: handleOrdersPartial_def del: map_map)

lemma stats_fold:
  assumes "\<forall>x \<in> set xs. Order.Status x \<in> {StatusPending, StatusConfirmed, StatusCanceled}"
  shows "fold (count_status u) (map (toResponse zone) xs) v =
    v\<lparr>Pending := Pending v + int (length (filter (\<lambda>x. Order.Status x = StatusPending) xs)),
      ConfirmedN := ConfirmedN v + int (length (filter (\<lambda>x. Order.Status x = StatusConfirmed) xs)),
      CanceledN := CanceledN v + int (length (filter (\<lambda>x. Order.Status x = StatusCanceled) xs))\<rparr>"
  using assms by (induction xs arbitrary: v) (auto simp: count_status_def toResponse_def)

text \<open>A link to the service on the in-memory store, for the examples.\<close>

definition demo_http :: "(InMemoryStore \<times> string pool, string) http_lib" where
  "demo_http = \<lparr>joinPath = (@),
     newRequest = (\<lambda>m u. Inr \<lparr>HttpClient.request.Method = m, URL = u, Header = Map.empty, Body = None, ContentLength = 0\<rparr>),
     send = (\<lambda>d t req (s, p).
       case api_serve mem_store (\<lambda>_. 0) 5 PickSend None (HttpClient.request.Method req) (URL req)
              (case Body req of None \<Rightarrow> '''' | Some b \<Rightarrow> b) s p of
         None \<Rightarrow> (Inl (ErrNew ''timeout''), (s, p))
       | Some (r, w) \<Rightarrow> (Inr \<lparr>HttpClient.response.StatusCode = fst r, payload = Inr (snd r)\<rparr>, w)),
     closeBody = (\<lambda>r w. w), statusText = (\<lambda>n. '''')\<rparr>"

definition demo_rest :: "(InMemoryStore \<times> string pool, string) HttpClient.client" where
  "demo_rest = \<lparr>baseURL = '''', timeout = 0, transport = None, middlewares = [], maxIdleConns = 0,
     maxIdleConnsPerHost = 0, idleConnTimeout = 0, tlsHandshakeTimeout = 0\<rparr>"

definition demo_grpc :: "unit GrpcClient.client" where
  "demo_grpc = \<lparr>target = '''', dialOpts = 0, conn = Some ()\<rparr>"

definition demo_order :: Order where
  "demo_order = \<lparr>ID = ''ord_1'', CustomerID = ''ann'', Items = [\<lparr>SKU = ''pen'', Quantity = 2\<rparr>, \<lparr>SKU = ''ink'', Quantity = 3\<rparr>],
     Status = StatusConfirmed, CreatedAt = 5, UpdatedAt = 9\<rparr>"

definition demo_state :: InMemoryStore where
  "demo_state = \<lparr>orders = [(''ord_1'', demo_order)], nextID = 1, choices = []\<rparr>"

lemma demo_link: "rest_link demo_http demo_rest mem_store (\<lambda>_. 0) 5 PickSend None"
  by (simp add: rest_link_def demo_http_def demo_rest_def)

lemma demo_showable: "showable (\<lambda>_. 0) demo_order"
  by code_simp

text \<open>C38.
  Both tabs of the dashboard show the store. Given a connected gRPC client and a working REST
  link, the REST tab (JSON over \<^verbatim>\<open>http/client\<close>) and the gRPC tab render exactly one row per order
  that List returns, in its order, and the same row: the id, the customer, the status in lower
  case, the exact sum of the quantities, the age to the second and the creation time in RFC 3339.
  The statistics count the orders by status and their three counts add up to the total.
\<close>
theorem dashboard_shows_store:
  assumes "rest_link lib c st zone at pick cx" and "Conn gc = Some cn" and "\<And>s p. rpc cn (s, p) = (case ListOrders st s of (r, t) \<Rightarrow> (r, (t, p)))"
    and "List st s = (Inr xs, t)" and "list_all (showable zone) xs"
  shows "handleOrdersPartial lib partial u now c (s, p) = (renderOrdersPanel sourceREST (map (order_row zone now) xs) '''', (t, p)) \<and>
    handleGRPCOrdersPartial rpc zone u now gc (s, p) = (renderOrdersPanel sourceGRPC (map (order_row zone now) xs) '''', (t, p)) \<and>
    (\<exists>pe co ca. handleStatsPartial lib partial u c (s, p) =
       (statsTmpl \<lparr>Total = int (length xs), Pending = pe, ConfirmedN = co, CanceledN = ca, StatsError = ''''\<rparr>, (t, p)) \<and>
       pe = int (length (filter (\<lambda>x. Order.Status x = StatusPending) xs)) \<and>
       co = int (length (filter (\<lambda>x. Order.Status x = StatusConfirmed) xs)) \<and>
       ca = int (length (filter (\<lambda>x. Order.Status x = StatusCanceled) xs)) \<and> pe + co + ca = int (length xs))"
proof -
  note rows = rows_spec [OF assms(5)]
  have st: "\<forall>x \<in> set xs. Order.Status x \<in> {StatusPending, StatusConfirmed, StatusCanceled}"
    using assms(5) by (auto simp: showable_def list_all_iff)
  then have sum: "length (filter (\<lambda>x. Order.Status x = StatusPending) xs) +
      length (filter (\<lambda>x. Order.Status x = StatusConfirmed) xs) + length (filter (\<lambda>x. Order.Status x = StatusCanceled) xs) = length xs"
    by (induction xs) auto
  show ?thesis
    using rows(3) sum panel_link [OF assms(1,4,5)]
    by (simp add: handleGRPCOrdersPartial_def handleStatsPartial_def fetch_link [OF assms(1,4) rows(1)] assms(2-4) ListOrders_def
        stats_fold [OF st] del: map_map)
qed


theorem dashboard_shows_store_witness:
  "fst (handleOrdersPartial demo_http (\<lambda>_. []) \<lparr>uniUpper = id, uniLower = id\<rparr> (7 * ns_per_s) demo_rest (demo_state, demo_pool)) =
     renderOrdersPanel sourceREST [\<lparr>dID = ''ord_1'', dCustomer = ''ann'', dStatus = ''confirmed'', dQty = 5,
       dCreatedAt = ''7s ago'', dCreatedTS = ''1970-01-01T00:00:00Z''\<rparr>] ''''"
proof -
  have l: "List mem_store demo_state = (Inr [demo_order], demo_state)"
    by (simp add: mem_list_def next_choice_def demo_state_def)
  have c: "Conn demo_grpc = Some ()" by (simp add: Conn_def demo_grpc_def)
  have row: "order_row (\<lambda>_. 0) (7 * ns_per_s) demo_order = \<lparr>dID = ''ord_1'', dCustomer = ''ann'', dStatus = ''confirmed'', dQty = 5,
       dCreatedAt = ''7s ago'', dCreatedTS = ''1970-01-01T00:00:00Z''\<rparr>" by code_simp
  have sh: "list_all (showable (\<lambda>_. 0)) [demo_order]" using demo_showable by simp
  have rpc: "(\<lambda>_ (s, p). case ListOrders mem_store s of (r, t) \<Rightarrow> (r, (t, p))) () (s, p) =
      (case ListOrders mem_store s of (r, t) \<Rightarrow> (r, (t, p)))" for s and p :: "string pool" by simp
  from dashboard_shows_store [OF demo_link c rpc l sh, of "\<lambda>_. []" "\<lparr>uniUpper = id, uniLower = id\<rparr>" "7 * ns_per_s" demo_pool]
  show ?thesis by (simp add: row)
qed


section \<open>Creating an order through the form\<close>

lemma form_quantity_bounds: "1 \<le> form_quantity s" "form_quantity s \<le> MaxItemQuantity"
  by (auto simp: form_quantity_def MaxItemQuantity_def split: option.splits)

lemma form_request_valid:
  "snd (ValidateNewOrder (reqCustomer (form_request f)) (reqItems (form_request f))) \<longleftrightarrow> f ''customer_id'' \<noteq> '''' \<and> f ''sku'' \<noteq> ''''"
  using form_quantity_bounds [of "f ''quantity''"]
  by (simp add: form_request_def ValidateNewOrder_def validate_items_ok MaxItemsPerOrder_def)

lemma post_link:
  assumes "rest_link lib c st zone at pick cx"
    and "handleCreate st zone (print_json (request_json r)) True at pick cx None s p = Some (as, t, q)"
  shows "snd (post_order lib partial c r (s, p)) = (t, q)"
proof -
  obtain k b where "served as = (k, b)" by force
  then have "api_serve st zone at pick cx ''POST'' ''/orders'' (print_json (request_json r)) s p = Some ((k, b), t, q)"
    by (simp add: api_serve_def assms(2))
  then show ?thesis
    using assms(1) by (simp add: post_order_def Do_def rest_link_def header_set_def Let_def)
qed

lemma create_in_memory:
  assumes "mem_inv s" and "mem_room 1 s" and "wf_request r" and "snd (ValidateNewOrder (reqCustomer r) (reqItems r))"
    and "handleCreate mem_store zone (print_json (request_json r)) eof now pick c io s p = Some (as, t, q)"
  obtains x where "mem_inv t" "mem_abs s (ID x) = None" "mem_abs t = (mem_abs s)(ID x \<mapsto> x)"
    "x = new_order (ID x) now (reqCustomer r) (reqItems r)" "wf_order x"
proof -
  obtain x u where cr: "mem_create now (reqCustomer r) (reqItems r) s = (Inr x, u)"
    by (simp add: mem_create_def Let_def)
  have t: "t = u"
    using assms(5) unfolding handleCreate_spec [OF decode_request [OF assms(3)]]
    by (auto simp: create_spec_def assms(4) cr split: prod.splits)
  have x: "mem_inv u" "mem_abs s (ID x) = None" "mem_abs u = (mem_abs s)(ID x \<mapsto> x)" "x = new_order (ID x) now (reqCustomer r) (reqItems r)"
    using mem_create_law [OF assms(1) _ cr, of 0] assms(2) by simp_all
  have "ID x = order_id (nextID s + 1)" using cr by (auto simp: mem_create_def Let_def new_order_def)
  then have "valid_utf8 (ID x)" by (simp add: order_id_utf8)
  then have "wf_order x"
    using assms(3) by (subst x(4)) (simp add: wf_order_def new_order_def wf_request_def status_utf8)
  with that x show ?thesis unfolding t by blast
qed

text \<open>C39.
  An order entered in the dashboard's form is created and shown. With a customer and a SKU given
  and the REST tab open, submitting the form creates exactly one PENDING order in the in-memory
  store with the customer, the SKU and the quantity of the form, where a quantity that is not a
  number from 1 to 1000000 counts as 1; the page that comes back lists each order of the store
  once, the new one included.
\<close>
theorem dashboard_create_shown:
  assumes "rest_link lib c mem_store zone at pick cx" and "mem_inv s" and "mem_room 1 s" and "wf_request (form_request f)"
    and "f ''customer_id'' \<noteq> ''''" and "f ''sku'' \<noteq> ''''" and "f ''source'' \<noteq> sourceGRPC"
    and "handleCreate mem_store zone (print_json (request_json (form_request f))) True at pick cx None s p = Some (as, v, q)"
    and "\<forall>x \<in> ran (map_of (orders s)). showable zone x" and "printable (zone at) at" and "zone (seconds at) = zone at"
  shows "\<exists>x xs t. handleCreatePartial lib partial partial1 rpc zone u now c gc (Some f) (s, p) =
      (Page (renderOrdersPanel sourceREST (map (order_row zone now) xs) ''''), (t, q)) \<and>
    distinct (map ID xs) \<and> set xs = insert x (ran (map_of (orders s))) \<and> map_of (orders s) (ID x) = None \<and>
    x = \<lparr>ID = ID x, CustomerID = f ''customer_id'', Items = [\<lparr>SKU = f ''sku'', Quantity = form_quantity (f ''quantity'')\<rparr>],
         Status = StatusPending, CreatedAt = at, UpdatedAt = at\<rparr>"
proof -
  have valid: "snd (ValidateNewOrder (reqCustomer (form_request f)) (reqItems (form_request f)))"
    using assms(5,6) by (simp add: form_request_valid)
  obtain x where x: "mem_inv v" "mem_abs s (ID x) = None" "mem_abs v = (mem_abs s)(ID x \<mapsto> x)"
    "x = new_order (ID x) at (reqCustomer (form_request f)) (reqItems (form_request f))" and wf: "wf_order x"
    by (rule create_in_memory [OF assms(2-4) valid assms(8)])
  have new: "showable zone x"
    unfolding showable_def using wf valid assms(10,11)
    by (subst (2 3 4 5 6 7 8) x(4)) (simp add: new_order_def)
  obtain ch t where ch: "next_choice v = (ch, t)" by force
  then have t: "orders t = orders v" using next_choice_frame [of v] by simp
  define xs where "xs = map snd (range_order ch (orders v))"
  have "set xs = ran (mem_abs v)"
    using ran_map_of [of "orders v"] x(1) by (simp add: xs_def mem_inv_def mem_abs_def)
  also have "\<dots> = insert x (ran (mem_abs s))" using x(2,3) by simp
  finally have set_xs: "set xs = insert x (ran (mem_abs s))" .
  then have "list_all (showable zone) xs" using new assms(9) by (auto simp: mem_abs_def list_all_iff)
  moreover have "List mem_store v = (Inr xs, t)" by (simp add: mem_list_def ch xs_def t)
  ultimately have "handleOrdersPartial lib partial u now c (v, q) =
      (renderOrdersPanel sourceREST (map (order_row zone now) xs) '''', (t, q))"
    by (intro panel_link [OF assms(1)])
  moreover have "mset (map ID xs) = mset (map ID (map snd (orders v)))" by (simp add: xs_def)
  then have "distinct (map ID xs)" using mem_list_distinct [OF x(1)] by (metis mset_eq_imp_distinct_iff)
  ultimately show ?thesis
    using x(2,4) set_xs post_link [OF assms(1,8)] assms(7)
    by (intro exI [of _ x] exI [of _ xs] exI [of _ t])
       (simp add: handleCreatePartial_def mem_abs_def new_order_def form_request_def)
qed


definition demo_form :: "string \<Rightarrow> string" where
  "demo_form k = (if k = ''customer_id'' then ''bob'' else if k = ''sku'' then ''cup'' else if k = ''quantity'' then ''many'' else ''rest'')"

theorem dashboard_create_shown_witness:
  "\<exists>x xs w. handleCreatePartial demo_http (\<lambda>_. []) (\<lambda>_. zero_response) (\<lambda>_ w. (Inr [], w)) (\<lambda>_. 0)
      \<lparr>uniUpper = id, uniLower = id\<rparr> 7 demo_rest demo_grpc (Some demo_form) (NewInMemoryStore [], demo_pool) =
      (Page (renderOrdersPanel sourceREST (map (order_row (\<lambda>_. 0) 7) xs) ''''), w) \<and> set xs = {x} \<and>
    CustomerID x = ''bob'' \<and> Items x = [\<lparr>SKU = ''cup'', Quantity = 1\<rparr>]"
proof -
  have "parse_int 32 ''many'' = None" by (simp add: parse_int_def is_digit_def in_range_def)
  then have q: "form_quantity (demo_form ''quantity'') = 1" by (simp add: form_quantity_def demo_form_def)
  define r where "r = form_request demo_form"
  have f: "r = \<lparr>reqCustomer = ''bob'', reqItems = [\<lparr>SKU = ''cup'', Quantity = 1\<rparr>]\<rparr>"
    using q by (simp add: r_def form_request_def demo_form_def)
  have "length (print_json (request_json r)) = 58" unfolding f by code_simp
  moreover have "valid_utf8 (reqCustomer r)" "list_all wf_item (reqItems r)" unfolding f by code_simp+
  ultimately have wf: "wf_request (form_request demo_form)"
    unfolding r_def [symmetric] by (simp add: wf_request_def maxCreateBodyBytes_def)
  have d: "demo_form ''customer_id'' \<noteq> ''''" "demo_form ''sku'' \<noteq> ''''" "demo_form ''source'' \<noteq> sourceGRPC"
    by (simp_all add: demo_form_def sourceGRPC_def)
  have inv: "mem_inv (NewInMemoryStore [])" "mem_room 1 (NewInMemoryStore [])" using mem_new [of "[()]" "[]"] by simp_all
  have v: "snd (ValidateNewOrder (reqCustomer (form_request demo_form)) (reqItems (form_request demo_form)))"
    using d by (simp add: form_request_valid)
  obtain as t p where h: "handleCreate mem_store (\<lambda>_. 0) (print_json (request_json (form_request demo_form))) True 5 PickSend None None
      (NewInMemoryStore []) demo_pool = Some (as, t, p)"
    unfolding handleCreate_spec [OF decode_request [OF wf]]
    by (simp add: create_spec_def v mem_create_def NewInMemoryStore_def Let_def Enqueue_def Submit_def chan_send_def demo_pool_def)
  have e: "\<forall>x \<in> ran (map_of (orders (NewInMemoryStore []))). showable (\<lambda>_. 0) x" by (simp add: NewInMemoryStore_def)
  have pr: "printable ((\<lambda>_. 0) (5 :: int)) 5" by code_simp
  from dashboard_create_shown [OF demo_link inv wf d h e pr refl, of "\<lambda>_. []" "\<lambda>_. zero_response" "\<lambda>_ w. (Inr [], w)"
      "\<lparr>uniUpper = id, uniLower = id\<rparr>" 7 demo_grpc]
  obtain x xs t where *: "handleCreatePartial demo_http (\<lambda>_. []) (\<lambda>_. zero_response) (\<lambda>_ w. (Inr [], w)) (\<lambda>_. 0)
      \<lparr>uniUpper = id, uniLower = id\<rparr> 7 demo_rest demo_grpc (Some demo_form) (NewInMemoryStore [], demo_pool) =
      (Page (renderOrdersPanel sourceREST (map (order_row (\<lambda>_. 0) 7) xs) ''''), (t, p))"
    and **: "set xs = insert x (ran (map_of (orders (NewInMemoryStore []))))"
      "x = \<lparr>ID = ID x, CustomerID = demo_form ''customer_id'', Items = [\<lparr>SKU = demo_form ''sku'', Quantity = form_quantity (demo_form ''quantity'')\<rparr>],
         Status = StatusPending, CreatedAt = 5, UpdatedAt = 5\<rparr>"
    by blast
  have "set xs = {x}" using **(1) by (simp add: NewInMemoryStore_def)
  moreover have "CustomerID x = ''bob''" "Items x = [\<lparr>SKU = ''cup'', Quantity = 1\<rparr>]"
    using q by (subst **(2), simp add: demo_form_def)+
  ultimately show ?thesis using * by blast
qed

end
