(* ===== verification/Wiring.thy ===== *)
theory Wiring
  imports Backends Dashboard HealthServer GrpcServer Entrypoint Periodic
begin

text \<open>
  The program itself: \<^verbatim>\<open>example/orders-service/cmd/orders-service/main.go\<close> and the helpers of
  \<^verbatim>\<open>serverkit/httpwiring.go\<close>. \<open>main\<close> builds every component with its options and hands them to the
  entrypoint; None is a panic on the way.
\<close>


section \<open>Construction\<close>

definition workerPoolSize :: int where "workerPoolSize = 4"
definition orderProcessDelay :: duration where "orderProcessDelay = 300 * Millisecond"
definition cleanupInterval :: duration where "cleanupInterval = 5 * Second"
definition main_staleAfter :: duration where "main_staleAfter = 10 * Second"
definition bindHost :: string where "bindHost = ''0.0.0.0''"
definition dialHost :: string where "dialHost = ''127.0.0.1''"
definition httpPort :: int where "httpPort = 8080"
definition grpcPort :: int where "grpcPort = 9090"
definition healthPort :: int where "healthPort = 8082"
definition dashboardPort :: int where "dashboardPort = 8090"

definition Addr :: "string \<Rightarrow> int \<Rightarrow> string" where
  "Addr h p = h @ '':'' @ itoa p"

definition NewHTTPServer :: "string \<Rightarrow> int \<Rightarrow> string \<Rightarrow> http_config \<times> server" where
  "NewHTTPServer h p app = HttpServer.NewServer
     [HttpServer.WithHost h, HttpServer.WithPort p, HttpServer.WithAppName app, HttpServer.WithPrometheusRegisterer]"

definition MustHTTPClient ::
  "(string \<Rightarrow> 'u res) \<Rightarrow> (transport_config \<Rightarrow> 'w roundTripper) \<Rightarrow> string \<Rightarrow> ('w, 'u) HttpClient.client option"
where
  "MustHTTPClient parse std url = (case HttpClient.New parse std url [] of Inl e \<Rightarrow> None | Inr c \<Rightarrow> Some c)"

definition cleanup_service :: "duration \<Rightarrow> periodic" where
  "cleanup_service d = Periodic.New d [WithImmediateStart]"

text \<open>
  Probers are numbered: 0 is the cleanup job, i + 1 the i-th optional backend.
\<close>

definition health_options :: "nat \<Rightarrow> health_option list" where
  "health_options n =
     [HealthServer.WithHost bindHost, HealthServer.WithPort healthPort, HealthServer.WithAppName ''orders-service'',
      WithProber 0, HealthServer.WithPrometheusRegisterer True] @ map WithProber [1..<n + 1]"

text \<open>Whether the type of the service has Stop; a periodic service has not.\<close>

fun managed_service :: "'tls ManagedService \<Rightarrow> service" where
  "managed_service (MDb s) = \<lparr>svc_name = ''db'', is_shutdown = True\<rparr>"
| "managed_service (MRedis s) = \<lparr>svc_name = ''redis'', is_shutdown = True\<rparr>"
| "managed_service (MProducer s) = \<lparr>svc_name = ''kafka-producer'', is_shutdown = True\<rparr>"
| "managed_service (MConsumer s) = \<lparr>svc_name = ''kafka-consumer'', is_shutdown = True\<rparr>"

definition main_services :: "'tls ManagedService list \<Rightarrow> service list" where
  "main_services opt =
     [\<lparr>svc_name = ''http'', is_shutdown = True\<rparr>, \<lparr>svc_name = ''grpc'', is_shutdown = True\<rparr>,
      \<lparr>svc_name = ''health'', is_shutdown = True\<rparr>, \<lparr>svc_name = ''dashboard'', is_shutdown = True\<rparr>,
      \<lparr>svc_name = ''grpc-client'', is_shutdown = True\<rparr>, \<lparr>svc_name = ''workerpool'', is_shutdown = True\<rparr>,
      \<lparr>svc_name = ''cleanup'', is_shutdown = False\<rparr>] @ map managed_service opt"

datatype hook = Prepare

record ('p, 'r, 'k, 'tls, 'w, 'u, 'c) app =
  backend :: "('p, 'r, 'k, 'tls) Backends"
  processor :: OrderProcessor
  cleanup :: CleanupJob
  httpSrv :: "http_config \<times> server"
  grpcSrv :: "grpc_config \<times> server"
  grpcCli :: "'c GrpcClient.client"
  restCli :: "('w, 'u) HttpClient.client"
  healthCli :: "('w, 'u) HttpClient.client"
  dashboardSrv :: "http_config \<times> server"
  healthSrv :: "nat list \<times> http_config \<times> server"
  sweeper :: periodic
  ep :: "hook entrypoint"

text \<open>
  \<open>lim\<close> is the longest channel that can be made; \<open>parse\<close> and \<open>std\<close> are those of \<^verbatim>\<open>http/client\<close>.
\<close>

definition main ::
  "(string \<Rightarrow> string) \<Rightarrow> ('p, 'r, 'k, 'tls) providers \<Rightarrow> int \<Rightarrow> (string \<Rightarrow> 'u res) \<Rightarrow> (transport_config \<Rightarrow> 'w roundTripper) \<Rightarrow>
   ('p, 'r, 'k, 'tls, 'w, 'u, 'c) app option"
where
  "main env lib lim parse std =
     (let b = NewBackends env lib in
      do {
        proc \<leftarrow> NewOrderProcessor lim workerPoolSize orderProcessDelay;
        rest \<leftarrow> MustHTTPClient parse std (''http://'' @ Addr dialHost httpPort);
        health \<leftarrow> MustHTTPClient parse std (''http://'' @ Addr dialHost healthPort);
        Some
          \<lparr>backend = b, processor = proc,
           cleanup = NewCleanupJob main_staleAfter [WithReadyGate],
           httpSrv = NewHTTPServer bindHost httpPort ''orders-service'',
           grpcSrv = GrpcServer.NewServer [GrpcServer.WithPort grpcPort],
           grpcCli = GrpcClient.NewClient (Addr dialHost grpcPort) [GrpcClient.WithDialOptions 1],
           restCli = rest, healthCli = health,
           dashboardSrv = NewHTTPServer bindHost dashboardPort ''orders-service-dashboard'',
           healthSrv = HealthServer.New (health_options (length (Optional b))),
           sweeper = cleanup_service cleanupInterval,
           ep = Entrypoint.New
             [WithServices (main_services (Optional b)), WithShutdownTimeout (10 * Second), WithPostStart Prepare]\<rparr>
      })"



section \<open>Health of the running program\<close>

definition health_serve :: "(nat \<Rightarrow> err option) \<Rightarrow> nat list \<Rightarrow> string \<Rightarrow> string \<Rightarrow> int \<times> string" where
  "health_serve probe finish_order meth path =
     (case route meth path of
        RHealthz \<Rightarrow> served (handleHealthz None)
      | RReadyz \<Rightarrow> served (handleReadyz probe finish_order None)
      | HealthServer.RMethodNotAllowed \<Rightarrow> (405, ''Method Not Allowed'' @ [CHR 0x0A])
      | HealthServer.RNotFound \<Rightarrow> (404, ''404 page not found'' @ [CHR 0x0A]))"

text \<open>
  The network between the dashboard's client and the health server. \<^verbatim>\<open>url.Parse\<close> and \<^verbatim>\<open>JoinPath\<close> put a
  path behind a plain host and port. A server that listens on all interfaces at a port answers
  the requests to this port of the local host, before the client gives up; nothing is assumed of any other
  address. Closing a body has no effect that the program can see.
\<close>

definition health_link ::
  "('w, 'u) http_lib \<Rightarrow> (string \<Rightarrow> 'u res) \<Rightarrow> server \<Rightarrow> ('w, 'u) HttpClient.client \<Rightarrow> (nat \<Rightarrow> err option) \<Rightarrow> nat list \<Rightarrow> bool"
where
  "health_link lib parse srv c probe finish_order \<longleftrightarrow>
     (\<forall>port u path. parse (''http://'' @ Addr dialHost port) = Inr u \<longrightarrow> path \<in> {''/healthz'', ''/readyz''} \<longrightarrow>
        joinPath lib u path = ''http://'' @ Addr dialHost port @ path) \<and>
     (\<forall>port path. addr srv = JoinHostPort ''0.0.0.0'' (itoa port) \<longrightarrow> path \<in> {''/healthz'', ''/readyz''} \<longrightarrow>
        newRequest lib ''GET'' (''http://'' @ Addr dialHost port @ path) =
          Inr \<lparr>HttpClient.request.Method = ''GET'', URL = ''http://'' @ Addr dialHost port @ path, Header = Map.empty,
            Body = None, ContentLength = 0\<rparr> \<and>
        (\<forall>req w. HttpClient.request.Method req = ''GET'' \<longrightarrow> URL req = ''http://'' @ Addr dialHost port @ path \<longrightarrow>
           send lib (timeout c) (transport c) req w =
             (let r = health_serve probe finish_order ''GET'' path
              in (Inr \<lparr>HttpClient.response.StatusCode = fst r, payload = Inr (snd r)\<rparr>, w)))) \<and>
     (\<forall>r w. closeBody lib r w = w)"

text \<open>What the client then sees.\<close>

definition health_answers :: "('w, 'u) http_lib \<Rightarrow> ('w, 'u) HttpClient.client \<Rightarrow> (nat \<Rightarrow> err option) \<Rightarrow> nat list \<Rightarrow> bool" where
  "health_answers lib c probe finish_order \<longleftrightarrow>
     (\<forall>path \<in> {''/healthz'', ''/readyz''}. newRequest lib ''GET'' (joinPath lib (baseURL c) path) =
        Inr \<lparr>HttpClient.request.Method = ''GET'', URL = joinPath lib (baseURL c) path, Header = Map.empty, Body = None, ContentLength = 0\<rparr> \<and>
        (\<forall>req w. HttpClient.request.Method req = ''GET'' \<longrightarrow> URL req = joinPath lib (baseURL c) path \<longrightarrow>
           send lib (timeout c) (transport c) req w =
             (let r = health_serve probe finish_order ''GET'' path
              in (Inr \<lparr>HttpClient.response.StatusCode = fst r, payload = Inr (snd r)\<rparr>, w)))) \<and>
     (\<forall>r w. closeBody lib r w = w)"

lemma ready_answer:
  "served (handleReadyz probe ps None) =
     (if \<forall>p \<in> set ps. probe p = None then (200, json_object [(''status'', json_string ''ready'')])
      else (503, not_ready_body (collect probe ps [])))"
proof -
  have "collect probe ps [] = [] \<longleftrightarrow> (\<forall>p \<in> set ps. probe p = None)"
    by (auto simp: collect_spec List.map_filter_def filter_empty_conv)
  then show ?thesis by (simp add: handleReadyz_def Let_def served_raw)
qed

lemma add_probers: "fold HealthServer.apply_option (map WithProber ps) c = c\<lparr>probers := probers c @ ps\<rparr>"
  by (induction ps arbitrary: c) simp_all

lemma main_probers: "fst (HealthServer.New (health_options n)) = [0..<Suc n]"
  by (simp add: HealthServer.New_def health_options_def Let_def add_probers upt_conv_Cons)

lemma status_bodies:
  "dec_health partial (json_object [(''status'', json_string ''ok'')]) z = (\<lparr>hStatus = ''ok''\<rparr>, None)"
  "dec_health partial (json_object [(''status'', json_string ''ready'')]) z = (\<lparr>hStatus = ''ready''\<rparr>, None)"
proof -
  have p: "parse_json (json_object [(''status'', json_string ''ok'')]) = Some (JObj [(''status'', JStr ''ok'')])"
    "parse_json (json_object [(''status'', json_string ''ready'')]) = Some (JObj [(''status'', JStr ''ready'')])"
    by code_simp+
  show "dec_health partial (json_object [(''status'', json_string ''ok'')]) z = (\<lparr>hStatus = ''ok''\<rparr>, None)"
    "dec_health partial (json_object [(''status'', json_string ''ready'')]) z = (\<lparr>hStatus = ''ready''\<rparr>, None)"
    by (simp_all add: dec_health_def Unmarshal_def p dec_struct_def same_key_def dec_string_def)
qed


lemma main_parts:
  assumes "main env lib lim parse std = Some a"
  shows "backend a = NewBackends env lib" "fst (healthSrv a) = [0..<Suc (length (Optional (backend a)))]"
  using assms by (auto simp: main_def Let_def main_probers bind_eq_Some_conv)

text \<open>main gives the client the port at which the health server listens.\<close>

lemma health_address: "addr (snd (snd (HealthServer.New (health_options n)))) = JoinHostPort ''0.0.0.0'' (itoa healthPort)"
  by (simp add: HealthServer.New_def health_options_def add_probers http_options_def HttpServer.NewServer_def Let_def
      new_server_def bindHost_def healthPort_def default_config_def)

lemma main_address:
  assumes "main env lib lim parse std = Some a"
  shows "addr (snd (snd (healthSrv a))) = JoinHostPort ''0.0.0.0'' (itoa healthPort)"
  using assms health_address by (auto simp: main_def Let_def bind_eq_Some_conv)

lemma health_client_url:
  "MustHTTPClient parse std url = Some c \<Longrightarrow> parse url = Inr (baseURL c)"
  by (auto simp: MustHTTPClient_def HttpClient.New_def Let_def split: sum.splits)

lemma main_reaches_health:
  assumes "main env lib lim parse std = Some a"
    and "health_link hl parse (snd (snd (healthSrv a))) (healthCli a) probe finish_order"
  shows "health_answers hl (healthCli a) probe finish_order"
proof -
  have "addr (snd (snd (healthSrv a))) = JoinHostPort ''0.0.0.0'' (itoa healthPort)"
    by (rule main_address [OF assms(1)])
  moreover have "parse (''http://'' @ Addr dialHost healthPort) = Inr (baseURL (healthCli a))"
    using assms(1) health_client_url by (fastforce simp: main_def Let_def bind_eq_Some_conv simp del: append_Cons)
  ultimately show ?thesis
    using assms(2) unfolding health_link_def health_answers_def by metis
qed

text \<open>C37.
  The health card tells the state of the whole program. For the program as main wires it, with
  any set of optional backends: whatever the order in which the probes finish, the card reads
  live and ok, and it reads ready exactly when the cleanup job has finished its first sweep and
  every backend that the environment enabled (database, Redis, producer, consumer) answers its
  probe; otherwise it shows the 503. The page changes nothing. The client that main gives to the
  dashboard reaches the health server because both are given the same port.
\<close>
theorem health_page:
  assumes "main env lib lim parse std = Some a" and "mset finish_order = mset (fst (healthSrv a))"
    and "health_link hl parse (snd (snd (healthSrv a))) (healthCli a) probe finish_order" and "probe 0 = OrderJobs.Probe sweeps"
  shows "\<exists>v. handleHealthPartial hl partial (healthCli a) w = (healthTmpl v, w) \<and> LiveOK v \<and> Live v = ''ok'' \<and>
    (ReadyOK v \<longleftrightarrow> warmedUp sweeps \<and> (\<forall>i < length (Optional (NewBackends env lib)). probe (Suc i) = None)) \<and>
    Ready v = (if ReadyOK v then ''ready''
      else ''unexpected status 503 '' @ statusText hl 503 @ '': '' @ not_ready_body (collect probe finish_order []))"
proof -
  have "set finish_order = {..<Suc (length (Optional (NewBackends env lib)))}"
    unfolding mset_eq_setD [OF assms(2)] main_parts [OF assms(1)] by (simp only: set_upt atLeast0LessThan)
  then have "(\<forall>p \<in> set finish_order. probe p = None) \<longleftrightarrow>
      probe 0 = None \<and> (\<forall>i < length (Optional (NewBackends env lib)). probe (Suc i) = None)"
    by (simp only: All_less_Suc2 Ball_def lessThan_iff)
  then have ready: "(\<forall>p \<in> set finish_order. probe p = None) \<longleftrightarrow>
      warmedUp sweeps \<and> (\<forall>i < length (Optional (NewBackends env lib)). probe (Suc i) = None)"
    by (simp add: assms(4) Probe_def)
  have routes: "route ''GET'' ''/healthz'' = RHealthz" "route ''GET'' ''/readyz'' = RReadyz" by (simp_all add: route_def)
  have live: "served (handleHealthz None) = (200, json_object [(''status'', json_string ''ok'')])"
    by (simp add: handleHealthz_def served_raw)
  have ne: "json_object fs \<noteq> []" for fs by (simp add: json_object_def)
  have itoa: "itoa 503 = ''503''" by code_simp
  define ok where "ok \<longleftrightarrow> (\<forall>p \<in> set finish_order. probe p = None)"
  have answer: "served (handleReadyz probe finish_order None) =
      (if ok then (200, json_object [(''status'', json_string ''ready'')]) else (503, not_ready_body (collect probe finish_order [])))"
    unfolding ok_def by (rule ready_answer)
  let ?v = "\<lparr>Live = ''ok'', LiveOK = True, Ready = (if ok then ''ready''
      else ''unexpected status 503 '' @ statusText hl 503 @ '': '' @ not_ready_body (collect probe finish_order [])), ReadyOK = ok\<rparr>"
  have "handleHealthPartial hl partial (healthCli a) w = (healthTmpl ?v, w)"
    using main_reaches_health [OF assms(1,3)] unfolding health_answers_def handleHealthPartial_def
    by (cases ok) (simp_all add: Do_def health_serve_def routes live answer ne status_bodies itoa Let_def)
  then show ?thesis by (intro exI [of _ ?v]) (simp add: ok_def ready)
qed


text \<open>A run with Redis and Kafka, whose consumer is down.\<close>

definition down_probe :: "nat \<Rightarrow> err option" where
  "down_probe p = (if p = 3 then Some (ErrNew ''consumer down'') else None)"

definition wired_env :: "string \<Rightarrow> string" where
  "wired_env k = (if k = ''ORDERS_STORE'' then ''memory'' else ''on'')"

definition wired_http :: "(unit, string) http_lib" where
  "wired_http = \<lparr>joinPath = (@),
     newRequest = (\<lambda>m u. Inr \<lparr>HttpClient.request.Method = m, URL = u, Header = Map.empty, Body = None, ContentLength = 0\<rparr>),
     send = (\<lambda>d t req w. let r = health_serve down_probe [3, 2, 0, 1] (HttpClient.request.Method req) (drop (length (''http://'' @ Addr dialHost healthPort)) (URL req))
       in (Inr \<lparr>HttpClient.response.StatusCode = fst r, payload = Inr (snd r)\<rparr>, w)),
     closeBody = (\<lambda>r w. w), statusText = (\<lambda>n. ''Service Unavailable'')\<rparr>"

definition swept :: CleanupJob where
  "swept = \<lparr>staleAfter = main_staleAfter, gated = True, warmedUp = True\<rparr>"

theorem health_page_witness:
  "\<exists>(a :: (row list \<times> nat, string \<Rightarrow> string option, nat, unit, unit, string, unit) app) v.
     main wired_env demo_providers 100 Inr (\<lambda>_ r w. (Inl (ErrNew ''''), w)) = Some a \<and>
     handleHealthPartial wired_http (\<lambda>_. \<lparr>hStatus = ''''\<rparr>) (healthCli a) () = (healthTmpl v, ()) \<and> LiveOK v \<and> \<not> ReadyOK v"
proof -
  have pool: "NewOrderProcessor 100 workerPoolSize orderProcessDelay \<noteq> None"
    by (simp add: NewOrderProcessor_def WorkerPool.New_def make_chan_def workerPoolSize_def wrap64_def)
  then obtain proc where proc: "NewOrderProcessor 100 workerPoolSize orderProcessDelay = Some proc" by blast
  have client: "\<exists>c :: (unit, string) HttpClient.client. MustHTTPClient Inr (\<lambda>_ r w. (Inl (ErrNew ''''), w)) u = Some c" for u
    by (simp add: MustHTTPClient_def HttpClient.New_def Let_def)
  obtain a :: "(row list \<times> nat, string \<Rightarrow> string option, nat, unit, unit, string, unit) app" where
    a: "main wired_env demo_providers 100 Inr (\<lambda>_ r w. (Inl (ErrNew ''''), w)) = Some a"
    using client [of "''http://'' @ Addr dialHost httpPort"] client [of "''http://'' @ Addr dialHost healthPort"]
    by (auto simp: main_def Let_def proc simp del: append_Cons)
  have n: "length (Optional (NewBackends wired_env demo_providers)) = 3"
    by (simp add: NewBackends_def Let_def wired_env_def)
  then have order: "mset [3, 2, 0, 1] = mset (fst (healthSrv a))"
    unfolding main_parts [OF a] by (simp add: numeral_3_eq_3 upt_rec)
  have at: "drop (length (''http://'' @ Addr dialHost healthPort)) (''http://'' @ Addr dialHost port @ path) = path"
    if "addr (snd (snd (healthSrv a))) = JoinHostPort ''0.0.0.0'' (itoa port)" for port path
    using that unfolding main_address [OF a] by (simp add: JoinHostPort_def Addr_def)
  have link: "health_link wired_http Inr (snd (snd (healthSrv a))) (healthCli a) down_probe [3, 2, 0, 1]"
    unfolding health_link_def wired_http_def
    by (intro conjI allI impI, simp_all only: http_lib.simps append_assoc sum.inject at) (metis append_assoc)
  have job: "down_probe 0 = OrderJobs.Probe swept" by (simp add: down_probe_def Probe_def swept_def)
  have "down_probe (Suc 2) \<noteq> None" by (simp add: down_probe_def)
  then have "\<not> (\<forall>i < length (Optional (NewBackends wired_env demo_providers)). down_probe (Suc i) = None)"
    unfolding n by (metis lessI numeral_3_eq_3 numeral_2_eq_2)
  with health_page [OF a order link job, of "\<lambda>_. \<lparr>hStatus = ''''\<rparr>" "()"] a show ?thesis by metis
qed

end
