(* ===== verification/Spec2Isabelle.thy ===== *)
theory Spec2Isabelle
  imports Retry Entrypoint WorkerPool Periodic DbService RedisService KafkaProducer KafkaConsumer HttpServer HealthServer
    GrpcServer GrpcClient HttpClient MemoryStore Events EventBus OrderJobs OrderApi Caching Postgres
    Templates Dashboard Backends Wiring
begin

text \<open>
  A verification development for gokit-services, a toolkit of Go packages for building
  services (\<^verbatim>\<open>src/pkg\<close>), and for the orders service that the repository builds with it
  (\<^verbatim>\<open>src/example/orders-service\<close>).

  \<^bold>\<open>The program.\<close> An Entrypoint owns a list of services and drives them through hooks, start,
  waiting and a bounded shutdown. The services are servers (HTTP, gRPC, health), clients
  (gRPC, PostgreSQL pool, Redis, Kafka producer and consumer), a worker pool and periodic jobs;
  each has a Start that blocks, most have a Stop, some a Probe that the health server asks for
  readiness. Clients connect through one retry loop. The orders service puts a REST and a gRPC
  API, an order processor on the worker pool and a periodic cleanup job over one Store, which is
  in memory or in PostgreSQL, optionally behind a Redis cache and a decorator that publishes
  events to Kafka. A dashboard is a client of both APIs and of the health server.

  \<^bold>\<open>How code becomes definitions.\<close> A struct is a record, an interface a record of
  operations, functional options a datatype with an apply function folded over the arguments.
  Errors are the type \<open>err\<close> of \<^verbatim>\<open>Prelude\<close>, which keeps what wrapping, \<^verbatim>\<open>errors.Is\<close> and \<^verbatim>\<open>Error()\<close> can
  see; a function that returns a value and an error returns \<open>'a res\<close>. Code with goroutines is a
  step function on a state: an event names which goroutine, or which part of the environment,
  acts next, and None says that this event is not possible now, so that an event list is an
  interleaving and theorems quantify over all of them. A blocking operation is thereby an event
  that is not enabled. Clock readings, the choice of a ready select branch, the iteration order
  of a map, contexts that end, and what packages outside the repository return are arguments or
  events. Integers are unbounded where the code's own bounds rule overflow out, and wrap
  (\<open>wrap64\<close>, \<open>64 word\<close>) where they do not.

  \<^bold>\<open>Shared theories.\<close>
  \<^item> \<^verbatim>\<open>Prelude\<close>: errors, durations, decimal printing, runs of step functions with the locales
    \<open>lts_invariant\<close>, \<open>lts_measure\<close>, \<open>lts_budget\<close> and \<open>lts_history\<close>, which every concurrent component
    interprets on its step function.
  \<^item> \<^verbatim>\<open>Channel\<close>: buffered channels and \<^verbatim>\<open>sync.Once\<close>. \<^verbatim>\<open>Ledger\<close>: books about what a connection
    routine opens and closes.
  \<^item> \<^verbatim>\<open>Json\<close>: \<^verbatim>\<open>encoding/json\<close> for the values the program exchanges: UTF-8, escaping, printing,
    a parser, and that parsing what was printed gives the value back. The parser's recursion is
    bounded by a number that is shown to be always enough. \<^verbatim>\<open>Rfc3339\<close>: civil dates, \<^verbatim>\<open>time.Format\<close>
    and \<^verbatim>\<open>time.Parse\<close> for RFC 3339, with their round trip.

  \<^bold>\<open>The toolkit.\<close>
  \<^item> \<^verbatim>\<open>Retry\<close> (\<^verbatim>\<open>pkg/internal/retry\<close>): the attempt loop refines a search over attempts; number of
    calls, order and size of the waits, including the float64 growth.
  \<^item> \<^verbatim>\<open>Entrypoint\<close> (\<^verbatim>\<open>pkg/core/entrypoint\<close>, \<^verbatim>\<open>pkg/core/service\<close>): spawning a
    goroutine, the call that it makes later and the return of the call are events of their own,
    and so are the call and the return of a hook, which may never come; every call of a hook, a
    Start or a Stop goes into a log. The order of the calls that Run guarantees, which services
    are started and stopped on each way out, the error returned, and that Run is held up only by
    a hook, before a trigger, or in the drain for at most the shutdown timeout after the trigger.
  \<^item> \<^verbatim>\<open>WorkerPool\<close> (\<^verbatim>\<open>pkg/workerpool\<close>): no accepted task is lost or run twice; draining completes.
  \<^item> \<^verbatim>\<open>Periodic\<close> (\<^verbatim>\<open>pkg/periodic\<close>): overlap policy and stop of the tick loop.
  \<^item> \<^verbatim>\<open>DbService\<close>, \<^verbatim>\<open>RedisService\<close> (\<^verbatim>\<open>pkg/dbservice\<close>, \<^verbatim>\<open>pkg/redisservice\<close>): connections are neither
    leaked nor closed twice.
  \<^item> \<^verbatim>\<open>KafkaNet\<close>, \<^verbatim>\<open>KafkaProducer\<close>, \<^verbatim>\<open>KafkaConsumer\<close> (\<^verbatim>\<open>pkg/kafka\<close>): batches are all or nothing; every
    fetched message is accounted for, and committed only after its handler succeeded; a failed one
    does not keep later ones from being committed.
  \<^item> \<^verbatim>\<open>Serving\<close>, \<^verbatim>\<open>HttpServer\<close>, \<^verbatim>\<open>HealthServer\<close>, \<^verbatim>\<open>GrpcServer\<close>, \<^verbatim>\<open>GrpcClient\<close>, \<^verbatim>\<open>HttpClient\<close>, \<^verbatim>\<open>Prom\<close>
    (\<^verbatim>\<open>pkg/http\<close>, \<^verbatim>\<open>pkg/healthserver\<close>, \<^verbatim>\<open>pkg/grpc\<close>, \<^verbatim>\<open>pkg/internal/prom\<close>): one machine for the life of a
    listening server, interpreted for HTTP and gRPC: what a graceful and a forced Stop leave
    behind, where a forced close ends connections and not the handlers; what the metrics record; readiness as the
    conjunction of the probes; outcomes of a client call.

  \<^bold>\<open>The orders service.\<close>
  \<^item> \<^verbatim>\<open>Orders\<close> (\<^verbatim>\<open>order.go\<close>): validation, and the Store contract as the locales \<open>order_repo\<close> (an
    operation that fails has had no effect or its whole effect), \<open>order_store\<close> (no effect) and
    \<open>order_reads\<close> (exact reads). The lemmas on sequences of calls are proved in the locales once:
    an order is settled at most once, and as reported.
  \<^item> \<^verbatim>\<open>MemoryStore\<close> (\<^verbatim>\<open>store_memory.go\<close>), \<^verbatim>\<open>Events\<close> (\<^verbatim>\<open>events.go\<close>), \<^verbatim>\<open>Caching\<close> (\<^verbatim>\<open>store/caching.go\<close>) and
    \<^verbatim>\<open>Postgres\<close> (\<^verbatim>\<open>store/postgres.go\<close>): the stores and decorators, each shown to keep the contract;
    in addition, published events are the transitions, and cached answers are at worst late.
  \<^item> \<^verbatim>\<open>OrderWire\<close>, \<^verbatim>\<open>EventBus\<close> (\<^verbatim>\<open>store/publisher.go\<close>, \<^verbatim>\<open>serverkit/backends.go\<close>): orders, events, requests
    and responses as JSON, and that they come back unchanged.
  \<^item> \<^verbatim>\<open>OrderJobs\<close> (\<^verbatim>\<open>worker.go\<close>, \<^verbatim>\<open>cleanup.go\<close>): processor and cleanup job, and one machine in which
    they interleave with API calls over one store.
  \<^item> \<^verbatim>\<open>OrderApi\<close> (\<^verbatim>\<open>httpapi.go\<close>, \<^verbatim>\<open>grpcapi.go\<close>): all handlers; both transports implement one
    specification, and an order posted as JSON is read back byte for byte.
  \<^item> \<^verbatim>\<open>Templates\<close>, \<^verbatim>\<open>Dashboard\<close> (\<^verbatim>\<open>dashboard.go\<close>): the pages and the handlers that fill them; data
    cannot add markup, both tabs show the same rows for the orders of the store, and an order
    entered in the form is created and shown.
  \<^item> \<^verbatim>\<open>Backends\<close> (\<^verbatim>\<open>serverkit/backends.go\<close>): the store that the environment asks for; each of the eight
    compositions keeps the contract, by the locale lemmas on decorators; Prepare and WaitReady as
    a machine whose gate opens only on a usable database.
  \<^item> \<^verbatim>\<open>Wiring\<close> (\<^verbatim>\<open>cmd/orders-service/main.go\<close>, \<^verbatim>\<open>serverkit/httpwiring.go\<close>): the whole program put
    together; its health card is ready exactly when the cleanup job and every enabled backend are.

  \<^bold>\<open>Parameters and their laws.\<close> pgxpool and pgx, go-redis, kafka-go, grpc-go, the Prometheus
  registry, dialers and the network are parameters. Where a theorem needs something of them, it
  is a named hypothesis (\<open>redis_laws\<close>, \<open>redis_works\<close>, \<open>pg_laws\<close>, \<open>schema_laws\<close>, and \<open>rest_link\<close> and
  \<open>health_link\<close> for the network between the dashboard and the servers, the latter by the port that
  main gives to each side), with an instance in the
  witness. Of \<^verbatim>\<open>strings.ToUpper\<close> and \<^verbatim>\<open>strings.ToLower\<close> the part on ASCII is modelled and the rest a
  parameter.

  \<^bold>\<open>Not modelled.\<close> Log output; the text of errors made outside the repository; the protobuf wire
  format and the generated code (\<^verbatim>\<open>proto/\<close>); the dashboard's index page and static files, which are
  constants; panics of callbacks given to \<^verbatim>\<open>periodic\<close>; the reuse of slice elements when a JSON object
  has the key of a slice twice, and the difference between a nil and an empty slice. The ages on the dashboard are exact divisions;
  rounding of float64 hours above 4096 hours is left out.
\<close>

end
